(* ===== verification/Prelude.thy ===== *)
theory Prelude
  imports Main "HOL-Library.AList"
begin

text \<open>
  What the components share: the errors a script can throw and the result type of code
  that may throw, sequencing of such code, the fact collections that carry the component
  proofs, and a few facts about lists and association lists the library does not state in
  the form used here.
\<close>

section \<open>Fact collections\<close>

named_theorems result_simps \<open>equations of sequencing, for results that may be errors\<close>
named_theorems wf_intros \<open>every operation keeps the well-formedness of JavaScript values\<close>
named_theorems own_simps \<open>what lookups return after a write to a property list\<close>

section \<open>Errors as values\<close>

text \<open>
  The exceptions a statement of the program can throw. \<open>NotModelled\<close> is no exception: it
  marks the few inputs on which the model does not follow the code (each is named where it
  arises), so that no theorem about a returned value speaks about them.
\<close>

datatype js_error = TypeError | SyntaxError | YamlError | QuotaExceeded | NotModelled

type_synonym 'a result = "js_error + 'a"

definition rbind :: "'e + 'a \<Rightarrow> ('a \<Rightarrow> 'e + 'b) \<Rightarrow> 'e + 'b" where
  "rbind r f = (case r of Inl e \<Rightarrow> Inl e | Inr x \<Rightarrow> f x)"

lemma rbind_Inl [simp, result_simps]: "rbind (Inl e) f = Inl e"
  by (simp add: rbind_def)

lemma rbind_Inr [simp, result_simps]: "rbind (Inr x) f = f x"
  by (simp add: rbind_def)

lemma rbind_eq_Inr [result_simps]: "rbind r f = Inr y \<longleftrightarrow> (\<exists>x. r = Inr x \<and> f x = Inr y)"
  by (cases r) auto

lemma rbind_eq_Inl [result_simps]:
  "rbind r f = Inl e \<longleftrightarrow> r = Inl e \<or> (\<exists>x. r = Inr x \<and> f x = Inl e)"
  by (cases r) auto

lemma rbind_assoc: "rbind (rbind r f) g = rbind r (\<lambda>x. rbind (f x) g)"
  by (cases r) auto

lemma rbind_cong [fundef_cong]:
  "r = r' \<Longrightarrow> (\<And>x. r' = Inr x \<Longrightarrow> f x = f' x) \<Longrightarrow> rbind r f = rbind r' f'"
  by (cases r') auto

definition is_ok :: "'e + 'a \<Rightarrow> bool" where
  "is_ok r = (case r of Inl _ \<Rightarrow> False | Inr _ \<Rightarrow> True)"

lemma is_ok_simps [simp, result_simps]: "is_ok (Inr x)" "\<not> is_ok (Inl e)"
  by (simp_all add: is_ok_def)

lemma is_ok_iff: "is_ok r \<longleftrightarrow> (\<exists>x. r = Inr x)"
  by (cases r) auto

lemma is_ok_rbind [result_simps]: "is_ok (rbind r f) \<longleftrightarrow> (\<exists>x. r = Inr x \<and> is_ok (f x))"
  by (cases r) auto

text \<open>A loop over a list whose body may throw: the first exception ends it.\<close>

primrec rmap :: "('a \<Rightarrow> 'e + 'b) \<Rightarrow> 'a list \<Rightarrow> 'e + 'b list" where
  "rmap f [] = Inr []"
| "rmap f (x # xs) = rbind (f x) (\<lambda>y. rbind (rmap f xs) (\<lambda>ys. Inr (y # ys)))"

lemma rmap_eq_Inr: "rmap f xs = Inr ys \<longleftrightarrow> list_all2 (\<lambda>x y. f x = Inr y) xs ys"
proof (induction xs arbitrary: ys)
  case Nil
  show ?case by (cases ys) auto
next
  case (Cons x xs)
  then show ?case by (cases ys) (auto simp: rbind_eq_Inr)
qed

lemma rmap_Inr_map: "(\<And>x. x \<in> set xs \<Longrightarrow> f x = Inr (g x)) \<Longrightarrow> rmap f xs = Inr (map g xs)"
  by (induction xs) auto

lemma rmap_map: "rmap f (map g xs) = rmap (\<lambda>x. f (g x)) xs"
  by (induction xs) auto

lemma rmap_cong [fundef_cong]:
  "xs = ys \<Longrightarrow> (\<And>x. x \<in> set ys \<Longrightarrow> f x = g x) \<Longrightarrow> rmap f xs = rmap g ys"
proof -
  assume "xs = ys" and "\<And>x. x \<in> set ys \<Longrightarrow> f x = g x"
  then show "rmap f xs = rmap g ys" by (induction ys arbitrary: xs) auto
qed

lemma is_ok_rmap: "is_ok (rmap f xs) \<longleftrightarrow> (\<forall>x\<in>set xs. is_ok (f x))"
proof (induction xs)
  case (Cons x xs)
  then show ?case by (cases "f x"; cases "rmap f xs") auto
qed simp

text \<open>A loop that threads a state through a body that may throw.\<close>

primrec rfold :: "('a \<Rightarrow> 's \<Rightarrow> 'e + 's) \<Rightarrow> 'a list \<Rightarrow> 's \<Rightarrow> 'e + 's" where
  "rfold f [] s = Inr s"
| "rfold f (x # xs) s = rbind (f x s) (rfold f xs)"

lemma rfold_append: "rfold f (xs @ ys) s = rbind (rfold f xs s) (rfold f ys)"
proof (induction xs arbitrary: s)
  case (Cons x xs)
  then show ?case by (cases "f x s") auto
qed simp

lemma rfold_invariant:
  assumes "rfold f xs s = Inr t" and "P s"
    and "\<And>x s t. x \<in> set xs \<Longrightarrow> P s \<Longrightarrow> f x s = Inr t \<Longrightarrow> P t"
  shows "P t"
  using assms
proof (induction xs arbitrary: s)
  case (Cons x xs)
  from Cons.prems(1) obtain u where u: "f x s = Inr u" and r: "rfold f xs u = Inr t"
    by (auto simp: rbind_eq_Inr)
  have "P u" using u Cons.prems(2,3) by auto
  with r show ?case using Cons.IH Cons.prems(3) by (meson list.set_intros(2))
qed simp

section \<open>Lists\<close>

lemma list_all2_set1: "list_all2 P xs ys \<Longrightarrow> x \<in> set xs \<Longrightarrow> \<exists>y\<in>set ys. P x y"
  by (induction rule: list_all2_induct) auto

lemma list_all2_set2: "list_all2 P xs ys \<Longrightarrow> y \<in> set ys \<Longrightarrow> \<exists>x\<in>set xs. P x y"
  by (induction rule: list_all2_induct) auto

lemma map_of_filter_key:
  "map_of (filter (\<lambda>(k', v). k' \<noteq> k) ps) x = (if x = k then None else map_of ps x)"
  by (induction ps) auto

lemma map_of_rev_eq: "distinct (map fst ps) \<Longrightarrow> map_of (rev ps) = map_of ps"
  by (subst map_of_inject_set) (auto simp: rev_map [symmetric])

lemma map_of_map_snd: "map_of (map (\<lambda>(k, v). (k, f v)) ps) x = map_option f (map_of ps x)"
  by (induction ps) auto

lemma fst_map_snd [simp]: "map fst (map (\<lambda>(k, v). (k, f v)) ps) = map fst ps"
  by (induction ps) auto

lemma fst_comp_map_snd [simp]: "fst \<circ> (\<lambda>(k, v). (k, f v)) = fst"
  by auto

lemma fst_imageI [intro]: "(k, v) \<in> S \<Longrightarrow> k \<in> fst ` S"
  by force

lemma distinct_map_fst_filter: "distinct (map fst ps) \<Longrightarrow> distinct (map fst (filter P ps))"
  by (induction ps) auto

lemma sorted_wrt_map_fst_filter:
  "sorted_wrt r (map fst ps) \<Longrightarrow> sorted_wrt r (map fst (filter P ps))"
  by (induction ps) auto

text \<open>Entries with new keys go behind those of an association list.\<close>

lemma add_new: "distinct (map fst hs) \<Longrightarrow> fst ` set hs \<inter> fst ` set m = {} \<Longrightarrow> fold (\<lambda>(k, v). AList.update k v) hs m = m @ hs"
proof (induction hs arbitrary: m)
  case (Cons h hs)
  obtain k v where h: "h = (k, v)" by (cases h)
  have "AList.update k v m = m @ [(k, v)]" using Cons.prems(2) unfolding h by (induction m) (auto split: if_splits)
  moreover have "fst ` set hs \<inter> fst ` set (m @ [(k, v)]) = {}" using Cons.prems unfolding h by auto
  ultimately show ?case using Cons.IH [of "m @ [(k, v)]"] Cons.prems(1) unfolding h by simp
qed simp

end
