(* ===== verification/JsNumber.thy ===== *)
theory JsNumber
  imports Prelude
begin

text \<open>
  JavaScript numbers and their text. A finite double is written by the ECMAScript
  specification as the shortest decimal that reads back as the same double, digits
  \<open>s\<close> scaled by a power of ten; the model keeps that decimal: \<open>Fin m e\<close> stands for the
  double that prints with the digits of \<open>m\<close> scaled by \<open>10 ^ e\<close> (canonical: no trailing zero
  in \<open>m\<close>). The program never computes with numbers, it only carries, prints and tests
  them, so no rounding is involved. Negative zero is not told apart from zero, which no
  observation of the program does either (its text is \<open>0\<close>).
\<close>

section \<open>Decimal digits\<close>

definition digit_char :: "nat \<Rightarrow> char" where
  "digit_char d = char_of (48 + d)"

definition digit_val :: "char \<Rightarrow> nat" where
  "digit_val c = of_char c - 48"

definition is_digit :: "char \<Rightarrow> bool" where
  "is_digit c \<longleftrightarrow> 48 \<le> (of_char c :: nat) \<and> (of_char c :: nat) \<le> 57"

lemma digit_char_props [simp]:
  assumes "d < 10"
  shows "is_digit (digit_char d)" and "digit_val (digit_char d) = d"
  using assms by (simp_all add: is_digit_def digit_char_def digit_val_def of_char_of)

lemma digit_val_less [simp]: "is_digit c \<Longrightarrow> digit_val c < 10"
  by (auto simp: is_digit_def digit_val_def)

lemma digit_char_val [simp]: "is_digit c \<Longrightarrow> digit_char (digit_val c) = c"
  by (auto simp: is_digit_def digit_char_def digit_val_def)

lemma char_of_48 [simp]: "char_of (48 :: nat) = CHR ''0''"
  by (rule of_char_eqI [where 'a = nat]) simp

lemma digit_val_eq_0 [simp]: "is_digit c \<Longrightarrow> digit_val c = 0 \<longleftrightarrow> c = CHR ''0''"
  using digit_char_val [of c] by (auto simp: digit_char_def digit_val_def)

lemma digit_val_inject: "is_digit c \<Longrightarrow> is_digit d \<Longrightarrow> digit_val c = digit_val d \<longleftrightarrow> c = d"
  by (metis digit_char_val)

fun nat_str :: "nat \<Rightarrow> string" where
  "nat_str n = (if n < 10 then [digit_char n] else nat_str (n div 10) @ [digit_char (n mod 10)])"

declare nat_str.simps [simp del]

definition nat_val :: "string \<Rightarrow> nat" where
  "nat_val s = foldl (\<lambda>n c. 10 * n + digit_val c) 0 s"

lemma nat_val_Nil [simp]: "nat_val [] = 0"
  by (simp add: nat_val_def)

lemma nat_val_snoc [simp]: "nat_val (s @ [c]) = 10 * nat_val s + digit_val c"
  by (simp add: nat_val_def)

lemma nat_val_single [simp]: "nat_val [c] = digit_val c"
  by (simp add: nat_val_def)

lemma nat_val_append: "nat_val (s @ t) = nat_val s * 10 ^ length t + nat_val t"
proof (induction t rule: rev_induct)
  case (snoc c t)
  have "nat_val (s @ t @ [c]) = 10 * nat_val (s @ t) + digit_val c"
    by (metis append_assoc nat_val_snoc)
  with snoc show ?case by (simp add: algebra_simps)
qed simp

lemma nat_val_Cons: "nat_val (c # t) = digit_val c * 10 ^ length t + nat_val t"
  using nat_val_append [of "[c]" t] by simp

lemma nat_val_less: "list_all is_digit s \<Longrightarrow> nat_val s < 10 ^ length s"
proof (induction s)
  case (Cons c s)
  have "is_digit c" using Cons.prems by simp
  from digit_val_less [OF this] have "digit_val c \<le> 9" by linarith
  moreover have "nat_val s < 10 ^ length s" using Cons by simp
  ultimately have "digit_val c * 10 ^ length s + nat_val s < 9 * 10 ^ length s + 10 ^ length s"
    by (intro add_le_less_mono mult_right_mono) auto
  then show ?case by (simp add: nat_val_Cons)
qed simp

lemma nat_str_not_Nil [simp]: "nat_str n \<noteq> []"
  by (subst nat_str.simps) simp

lemma nat_str_digits [simp]: "list_all is_digit (nat_str n)"
proof (induction n rule: nat_str.induct)
  case (1 n)
  then show ?case by (cases "n < 10") (simp_all add: nat_str.simps [of n])
qed

lemma nat_val_nat_str [simp]: "nat_val (nat_str n) = n"
proof (induction n rule: nat_str.induct)
  case (1 n)
  then show ?case
    by (cases "n < 10") (auto simp: nat_str.simps [of n])
qed

lemma nat_str_inject [simp]: "nat_str m = nat_str n \<longleftrightarrow> m = n"
  by (metis nat_val_nat_str)

lemma hd_nat_str: "n \<noteq> 0 \<Longrightarrow> hd (nat_str n) \<noteq> CHR ''0''"
proof (induction n rule: nat_str.induct)
  case (1 n)
  have zero: "digit_char n = CHR ''0'' \<Longrightarrow> n < 10 \<Longrightarrow> n = 0"
  proof -
    assume a: "digit_char n = CHR ''0''" and l: "n < 10"
    have "digit_val (digit_char n) = n" using l by simp
    with a show "n = 0" by (simp add: digit_val_def)
  qed
  show ?case
  proof (cases "n < 10")
    case True
    with 1 zero show ?thesis by (auto simp: nat_str.simps [of n])
  next
    case False
    then have "n div 10 \<noteq> 0" by simp
    with False 1 show ?thesis by (simp add: nat_str.simps [of n])
  qed
qed

text \<open>A canonical numeral is one \<open>nat_str\<close> writes: no leading zero.\<close>

definition canonical :: "string \<Rightarrow> bool" where
  "canonical s \<longleftrightarrow> s \<noteq> [] \<and> list_all is_digit s \<and> (s = ''0'' \<or> hd s \<noteq> CHR ''0'')"

lemma canonical_nat_str [simp]: "canonical (nat_str n)"
proof (cases "n = 0")
  case True
  have "nat_str 0 = ''0''" by (subst nat_str.simps) (simp add: digit_char_def)
  with True show ?thesis by (simp add: canonical_def is_digit_def)
next
  case False
  then show ?thesis by (simp add: canonical_def hd_nat_str)
qed

lemma nat_str_nat_val: "canonical s \<Longrightarrow> nat_str (nat_val s) = s"
proof (induction s rule: rev_induct)
  case (snoc c s)
  have c: "is_digit c" using snoc.prems by (simp add: canonical_def)
  show ?case
  proof (cases "s = []")
    case True
    with c show ?thesis by (simp add: nat_str.simps [of "digit_val c"])
  next
    case False
    with snoc.prems have can: "canonical s" and h: "hd s \<noteq> CHR ''0''"
      by (auto simp: canonical_def)
    have pos: "nat_val s \<noteq> 0"
    proof -
      obtain d t where s: "s = d # t" using False by (cases s) auto
      have "is_digit d" using can s by (simp add: canonical_def)
      moreover have "d \<noteq> CHR ''0''" using h s by simp
      ultimately have "digit_val d \<noteq> 0" by simp
      with s show ?thesis by (simp add: nat_val_Cons)
    qed
    have "nat_str (10 * nat_val s + digit_val c) = nat_str (nat_val s) @ [c]"
      using pos c digit_val_less [OF c]
      by (subst nat_str.simps) (auto simp: div_mult_self1 less_imp_le)
    with can snoc.IH show ?thesis by simp
  qed
qed (simp add: canonical_def)

section \<open>Numbers\<close>

datatype jsnum = Fin (mant: int) (expo: int) | NaN | Infinite (positive: bool)

text \<open>The canonical decimal of \<open>m\<close> scaled by \<open>10 ^ e\<close>: trailing zeros move to the scale.\<close>

function mk_num :: "int \<Rightarrow> int \<Rightarrow> jsnum" where
  "mk_num m e = (if m = 0 then Fin 0 0 else if m mod 10 = 0 then mk_num (m div 10) (e + 1) else Fin m e)"
  by pat_completeness auto
termination
proof (relation "measure (\<lambda>(m, e). nat \<bar>m\<bar>)", simp)
  fix m e :: int
  assume "m \<noteq> 0" and "m mod 10 = 0"
  then obtain k where k: "m = 10 * k" by auto
  have "\<bar>k\<bar> < \<bar>10 * k\<bar>" using k \<open>m \<noteq> 0\<close> by (auto simp: abs_mult)
  with k have "\<bar>m div 10\<bar> < \<bar>m\<bar>" by simp
  then show "((m div 10, e + 1), m, e) \<in> measure (\<lambda>(m, e). nat \<bar>m\<bar>)" by simp
qed

declare mk_num.simps [simp del]

text \<open>
  The numbers of the model: canonical decimals of at most 15 significant digits and a
  moderate scale, each of which is the text of exactly one double. (A double whose text
  needs 16 or 17 digits is not represented.)
\<close>

definition num_wf :: "jsnum \<Rightarrow> bool" where
  "num_wf n = (case n of
      Fin m e \<Rightarrow> (if m = 0 then e = 0 else m mod 10 \<noteq> 0 \<and> \<bar>m\<bar> < 10 ^ 15 \<and> -300 \<le> e \<and> e \<le> 290)
    | _ \<Rightarrow> True)"

lemma mk_num_canonical: "num_wf (Fin m e) \<Longrightarrow> mk_num m e = Fin m e"
  by (auto simp: mk_num.simps [of m e] num_wf_def split: if_splits)

lemma mk_num_shift: "m \<noteq> 0 \<Longrightarrow> mk_num (m * 10 ^ z) e = mk_num m (e + int z)"
proof (induction z arbitrary: e)
  case (Suc z)
  have "mk_num (m * 10 ^ Suc z) e = mk_num (m * 10 ^ z) (e + 1)"
    using Suc.prems by (subst mk_num.simps) (simp add: mult.left_commute)
  with Suc show ?case by (simp add: add.assoc)
qed simp

definition js_nat :: "nat \<Rightarrow> jsnum" where
  "js_nat n = mk_num (int n) 0"

definition finite_num :: "jsnum \<Rightarrow> bool" where
  "finite_num n = (case n of Fin _ _ \<Rightarrow> True | _ \<Rightarrow> False)"

definition num_truthy :: "jsnum \<Rightarrow> bool" where
  "num_truthy n = (case n of Fin m e \<Rightarrow> m \<noteq> 0 | NaN \<Rightarrow> False | Infinite _ \<Rightarrow> True)"

definition num_pos :: "jsnum \<Rightarrow> bool" where
  "num_pos n = (case n of Fin m e \<Rightarrow> m > 0 | NaN \<Rightarrow> False | Infinite p \<Rightarrow> p)"

lemma mk_num_Fin: "\<exists>m' e'. mk_num m e = Fin m' e' \<and> sgn m' = sgn m"
proof (induction m e rule: mk_num.induct)
  case (1 m e)
  show ?case
  proof (cases "m \<noteq> 0 \<and> m mod 10 = 0")
    case True
    then obtain k where "m = 10 * k" by auto
    then have "sgn (m div 10) = sgn m" by (simp add: sgn_mult)
    with 1 True show ?thesis by (auto simp: mk_num.simps [of m e])
  next
    case False
    then show ?thesis by (auto simp: mk_num.simps [of m e])
  qed
qed

lemma num_pos_js_nat [simp]: "num_pos (js_nat n) \<longleftrightarrow> n > 0"
  using mk_num_Fin [of "int n" 0] by (auto simp: js_nat_def num_pos_def sgn_if split: if_splits)

text \<open>
  \<open>Number::toString\<close> for radix 10: with \<open>k\<close> digits \<open>s\<close> and the decimal point after
  position \<open>n\<close>, the integer form up to 21 places, then the fraction forms, then the
  exponent form.
\<close>

definition num_digits :: "string \<Rightarrow> int \<Rightarrow> string" where
  "num_digits s e =
    (let k = int (length s); n = k + e in
     if k \<le> n \<and> n \<le> 21 then s @ replicate (nat (n - k)) CHR ''0''
     else if 0 < n \<and> n \<le> 21 then take (nat n) s @ ''.'' @ drop (nat n) s
     else if -6 < n \<and> n \<le> 0 then ''0.'' @ replicate (nat (- n)) CHR ''0'' @ s
     else let x = (if n - 1 < 0 then ''e-'' else ''e+'') @ nat_str (nat \<bar>n - 1\<bar>) in
       if k = 1 then s @ x else take 1 s @ ''.'' @ drop 1 s @ x)"

definition num_str :: "jsnum \<Rightarrow> string" where
  "num_str n = (case n of
      NaN \<Rightarrow> ''NaN''
    | Infinite p \<Rightarrow> (if p then ''Infinity'' else ''-Infinity'')
    | Fin m e \<Rightarrow> (if m = 0 then ''0''
        else (if m < 0 then ''-'' else '''') @ num_digits (nat_str (nat \<bar>m\<bar>)) e))"

end
