(* ===== verification/Stores.thy ===== *)
theory Stores
  imports Prelude
begin

text \<open>
  The interface of a keyed store, which two parts of the program provide (a JavaScript
  object's own properties, the browser's local storage) and three use: building an object
  from name/value pairs, rebuilding one in its own order, saving a case under a name. The
  laws are stated once, the clients' lemmas are proved from them, and every provider
  interprets the locale on its own operations.
\<close>

section \<open>A store of values under keys\<close>

definition put_all :: "('k \<Rightarrow> 'v \<Rightarrow> 'm \<Rightarrow> 'm) \<Rightarrow> ('k \<times> 'v) list \<Rightarrow> 'm \<Rightarrow> 'm" where
  "put_all put kvs m = foldl (\<lambda>m (k, v). put k v m) m kvs"

lemma put_all_simps [simp]:
  "put_all put [] m = m"
  "put_all put ((k, v) # kvs) m = put_all put kvs (put k v m)"
  by (simp_all add: put_all_def)

lemma put_all_append [simp]: "put_all put (xs @ ys) m = put_all put ys (put_all put xs m)"
  by (simp add: put_all_def)

locale kv_store =
  fixes empty :: 'm
    and get :: "'m \<Rightarrow> 'k \<Rightarrow> 'v option"
    and put :: "'k \<Rightarrow> 'v \<Rightarrow> 'm \<Rightarrow> 'm"
    and del :: "'k \<Rightarrow> 'm \<Rightarrow> 'm"
    and invar :: "'m \<Rightarrow> bool"
  assumes get_empty: "get empty k = None"
    and get_put: "invar m \<Longrightarrow> get (put k v m) x = (if x = k then Some v else get m x)"
    and get_del: "invar m \<Longrightarrow> get (del k m) x = (if x = k then None else get m x)"
    and invar_empty: "invar empty"
    and invar_put: "invar m \<Longrightarrow> invar (put k v m)"
    and invar_del: "invar m \<Longrightarrow> invar (del k m)"
begin

lemma get_put_same: "invar m \<Longrightarrow> get (put k v m) k = Some v"
  by (simp add: get_put)

lemma get_put_other: "invar m \<Longrightarrow> x \<noteq> k \<Longrightarrow> get (put k v m) x = get m x"
  by (simp add: get_put)

lemma get_del_put: "invar m \<Longrightarrow> get (del k (put k v m)) x = get (del k m) x"
  by (simp add: get_put get_del invar_put)

lemma invar_put_all: "invar m \<Longrightarrow> invar (put_all put kvs m)"
  by (induction kvs arbitrary: m) (auto simp: invar_put)

text \<open>Later writes win: the store agrees with the pairs read from the end.\<close>

lemma get_put_all:
  "invar m \<Longrightarrow> get (put_all put kvs m) x = (case map_of (rev kvs) x of Some v \<Rightarrow> Some v | None \<Rightarrow> get m x)"
proof (induction kvs arbitrary: m)
  case (Cons kv kvs)
  obtain k v where kv: "kv = (k, v)" by (cases kv)
  have "get (put_all put kvs (put k v m)) x =
      (case map_of (rev kvs) x of Some v \<Rightarrow> Some v | None \<Rightarrow> get (put k v m) x)"
    using Cons.IH Cons.prems invar_put by blast
  with kv Cons.prems show ?case
    by (auto simp: get_put map_add_def split: option.splits)
qed simp

lemma get_put_all_distinct:
  assumes "invar m" and "distinct (map fst kvs)"
  shows "get (put_all put kvs m) x = (case map_of kvs x of Some v \<Rightarrow> Some v | None \<Rightarrow> get m x)"
  using assms by (simp add: get_put_all map_of_rev_eq)

end

section \<open>A store that keeps its entries in an order\<close>

locale ordered_store = kv_store empty get put del invar
  for empty :: 'm
    and get :: "'m \<Rightarrow> 'k \<Rightarrow> 'v option"
    and put :: "'k \<Rightarrow> 'v \<Rightarrow> 'm \<Rightarrow> 'm"
    and del :: "'k \<Rightarrow> 'm \<Rightarrow> 'm"
    and invar :: "'m \<Rightarrow> bool" +
  fixes entries :: "'m \<Rightarrow> ('k \<times> 'v) list"
    and before :: "'k \<Rightarrow> 'k \<Rightarrow> bool"
  assumes entries_empty: "entries empty = []"
    and entries_get: "invar m \<Longrightarrow> map_of (entries m) x = get m x"
    and entries_distinct: "invar m \<Longrightarrow> distinct (map fst (entries m))"
    and entries_sorted: "invar m \<Longrightarrow> sorted_wrt before (map fst (entries m))"
    and entries_put_last: "invar m \<Longrightarrow> get m k = None \<Longrightarrow>
      (\<forall>x\<in>set (map fst (entries m)). before x k) \<Longrightarrow> entries (put k v m) = entries m @ [(k, v)]"
begin

lemma keys_iff: "invar m \<Longrightarrow> k \<in> fst ` set (entries m) \<longleftrightarrow> get m k \<noteq> None"
  by (metis entries_get map_of_eq_None_iff)

text \<open>Writing entries that are in order to a store they all come after appends them.\<close>

lemma entries_put_all:
  assumes "invar m" and "distinct (map fst (entries m @ kvs))"
    and "sorted_wrt before (map fst (entries m @ kvs))"
  shows "entries (put_all put kvs m) = entries m @ kvs"
  using assms
proof (induction kvs arbitrary: m)
  case (Cons kv kvs)
  obtain k v where kv: "kv = (k, v)" by (cases kv)
  have last: "entries (put k v m) = entries m @ [(k, v)]"
  proof (rule entries_put_last)
    show "get m k = None" using Cons.prems keys_iff [of m k] kv by (auto simp: image_iff)
    show "\<forall>x\<in>set (map fst (entries m)). before x k"
      using Cons.prems(3) kv by (auto simp: sorted_wrt_append)
  qed (rule Cons.prems(1))
  have "entries (put_all put kvs (put k v m)) = entries (put k v m) @ kvs"
    using Cons.prems kv last by (intro Cons.IH) (auto simp: invar_put)
  with kv last show ?case by simp
qed simp

lemma entries_rebuild: "invar m \<Longrightarrow> entries (put_all put (entries m) empty) = entries m"
  using entries_put_all [OF invar_empty, of "entries m"]
  by (simp add: entries_empty entries_distinct entries_sorted)

lemma entries_put_all_sorted:
  "distinct (map fst kvs) \<Longrightarrow> sorted_wrt before (map fst kvs) \<Longrightarrow> entries (put_all put kvs empty) = kvs"
  using entries_put_all [OF invar_empty, of kvs] by (simp add: entries_empty)

end

end
