(* ===== verification/JsValue.thy ===== *)
theory JsValue
  imports JsNumber Stores
begin

text \<open>
  JavaScript values as the program meets them: what JSON and YAML documents decode to, and
  \<open>undefined\<close>. An object is the list of its own properties in the order the language
  enumerates them (array-index keys in ascending order, then the other keys in the order
  they were created); reading, assigning and deleting members follow the language in strict
  mode, which ES modules use, with its \<open>TypeError\<close>s. Values are trees: the program copies
  before it mutates, and where two names for one object matter (the React state) the model
  keeps the identity explicitly. Not represented: functions, dates, symbols, named
  properties of arrays.
\<close>

section \<open>Values\<close>

datatype jsv =
    Undef
  | Null
  | Bool bool
  | Num jsnum
  | Str string
  | Arr "jsv list"
  | Obj "(string \<times> jsv) list"

type_synonym props = "(string \<times> jsv) list"

lemma jsv_induct [case_names Undef Null Bool Num Str Arr Obj]:
  assumes "P Undef" and "P Null" and "\<And>b. P (Bool b)" and "\<And>n. P (Num n)" and "\<And>s. P (Str s)"
    and "\<And>xs. (\<And>x. x \<in> set xs \<Longrightarrow> P x) \<Longrightarrow> P (Arr xs)"
    and "\<And>ps. (\<And>k v. (k, v) \<in> set ps \<Longrightarrow> P v) \<Longrightarrow> P (Obj ps)"
  shows "P v"
  using assms by (induction v) (auto simp: snds.simps)

lemma size_Arr [termination_simp]: "x \<in> set xs \<Longrightarrow> size x < Suc (size_list size xs)"
  by (induction xs) auto

lemma size_Obj [termination_simp]:
  "kv \<in> set ps \<Longrightarrow> size (snd kv) < Suc (size_list (size_prod (\<lambda>_. 0) size) ps)"
  by (induction ps) auto

lemma size_Obj_pair [termination_simp]:
  "(k, v) \<in> set ps \<Longrightarrow> size v < Suc (size_list (size_prod (\<lambda>_. 0) size) ps)"
  using size_Obj [of "(k, v)" ps] by simp

section \<open>Own properties in enumeration order\<close>

text \<open>An array index is a canonical numeral below \<open>2 ^ 32 - 1\<close>.\<close>

definition array_index :: "string \<Rightarrow> nat option" where
  "array_index k = (if canonical k \<and> int (nat_val k) < 4294967295 then Some (nat_val k) else None)"

definition key_before :: "string \<Rightarrow> string \<Rightarrow> bool" where
  "key_before a b = (case array_index b of
      None \<Rightarrow> True
    | Some n \<Rightarrow> (case array_index a of Some m \<Rightarrow> m < n | None \<Rightarrow> False))"

definition props_wf :: "(string \<times> 'v) list \<Rightarrow> bool" where
  "props_wf ps \<longleftrightarrow> distinct (map fst ps) \<and> sorted_wrt key_before (map fst ps)"

definition has_own :: "string \<Rightarrow> (string \<times> 'v) list \<Rightarrow> bool" where
  "has_own k ps \<longleftrightarrow> k \<in> set (map fst ps)"

fun ins_index :: "nat \<Rightarrow> string \<Rightarrow> 'v \<Rightarrow> (string \<times> 'v) list \<Rightarrow> (string \<times> 'v) list" where
  "ins_index n k v [] = [(k, v)]"
| "ins_index n k v ((k', v') # ps) =
     (case array_index k' of
        Some m \<Rightarrow> if m < n then (k', v') # ins_index n k v ps else (k, v) # (k', v') # ps
      | None \<Rightarrow> (k, v) # (k', v') # ps)"

text \<open>
  Creating or overwriting a data property: an existing key keeps its place, a new index key
  goes among the indices, any other new key goes last.
\<close>

fun overwrite :: "string \<Rightarrow> 'v \<Rightarrow> (string \<times> 'v) list \<Rightarrow> (string \<times> 'v) list" where
  "overwrite k v [] = []"
| "overwrite k v ((k', v') # ps) = (k', if k' = k then v else v') # overwrite k v ps"

definition own_put :: "string \<Rightarrow> 'v \<Rightarrow> (string \<times> 'v) list \<Rightarrow> (string \<times> 'v) list" where
  "own_put k v ps =
     (if has_own k ps then overwrite k v ps
      else (case array_index k of Some n \<Rightarrow> ins_index n k v ps | None \<Rightarrow> ps @ [(k, v)]))"

definition own_del :: "string \<Rightarrow> (string \<times> 'v) list \<Rightarrow> (string \<times> 'v) list" where
  "own_del k ps = filter (\<lambda>(k', v). k' \<noteq> k) ps"

lemma array_index_inj: "array_index a = Some n \<Longrightarrow> array_index b = Some n \<Longrightarrow> a = b"
  by (auto simp: array_index_def split: if_splits) (metis nat_str_nat_val)

lemma map_of_ins_index: "\<not> has_own k ps \<Longrightarrow> map_of (ins_index n k v ps) = (map_of ps)(k \<mapsto> v)"
  by (induction ps) (auto simp: has_own_def split: option.splits)

lemma set_keys_ins_index: "set (map fst (ins_index n k v ps)) = insert k (set (map fst ps))"
proof (induction ps)
  case (Cons p ps)
  then show ?case by (cases p) (simp add: insert_commute split: option.splits)
qed simp

lemma distinct_ins_index:
  "distinct (map fst ps) \<Longrightarrow> \<not> has_own k ps \<Longrightarrow> distinct (map fst (ins_index n k v ps))"
proof (induction ps)
  case (Cons p ps)
  obtain k' v' where p: "p = (k', v')" by (cases p)
  from Cons p have "k' \<notin> set (map fst (ins_index n k v ps))"
    unfolding set_keys_ins_index by (auto simp: has_own_def)
  with Cons p show ?case by (auto simp: has_own_def split: option.splits)
qed simp

lemma key_before_str: "array_index b = None \<Longrightarrow> key_before a b"
  by (simp add: key_before_def)

lemma sorted_ins_index:
  assumes "array_index k = Some n" and "\<not> has_own k ps" and "sorted_wrt key_before (map fst ps)"
  shows "sorted_wrt key_before (map fst (ins_index n k v ps))"
  using assms
proof (induction ps)
  case (Cons p ps)
  obtain k' v' where p: "p = (k', v')" by (cases p)
  show ?case
  proof (cases "\<exists>m. array_index k' = Some m \<and> m < n")
    case True
    then obtain m where m: "array_index k' = Some m" "m < n" by blast
    have "sorted_wrt key_before (map fst (ins_index n k v ps))"
      using Cons p by (auto simp: has_own_def)
    moreover have "\<forall>x\<in>set (map fst (ins_index n k v ps)). key_before k' x"
      unfolding set_keys_ins_index using Cons.prems p m by (auto simp: key_before_def)
    ultimately show ?thesis using p m by simp
  next
    case False
    have neq: "k \<noteq> k'" using Cons.prems p by (auto simp: has_own_def)
    have head: "key_before k k'"
      using False Cons.prems(1) neq array_index_inj [of k n k']
      by (auto simp: key_before_def not_less le_less split: option.splits)
    have "key_before k x" if "x \<in> set (map fst ps)" for x
    proof -
      have "key_before k' x" using Cons.prems(3) p that by auto
      with head Cons.prems(1) show ?thesis
        by (auto simp: key_before_def split: option.splits)
    qed
    with head Cons.prems p False show ?thesis by (auto split: option.splits)
  qed
qed simp

lemma map_fst_overwrite [simp]: "map fst (overwrite k v ps) = map fst ps"
  by (induction ps) auto

lemma map_of_overwrite:
  "has_own k ps \<Longrightarrow> map_of (overwrite k v ps) = (map_of ps)(k \<mapsto> v)"
proof (induction ps)
  case (Cons p ps)
  obtain k' v' where p: "p = (k', v')" by (cases p)
  have absent: "map_of (overwrite k v ps) = map_of ps" if "\<not> has_own k ps"
    using that by (induction ps) (auto simp: has_own_def)
  show ?case
  proof (cases "has_own k ps")
    case True
    with Cons p show ?thesis by (auto simp: has_own_def)
  next
    case False
    with Cons.prems p absent show ?thesis by (auto simp: has_own_def)
  qed
qed (simp add: has_own_def)

lemma map_of_own_put [own_simps]: "map_of (own_put k v ps) = (map_of ps)(k \<mapsto> v)"
proof (cases "has_own k ps")
  case True
  then show ?thesis by (simp only: own_put_def if_True map_of_overwrite)
next
  case False
  then have "map_of ps k = None" by (simp add: has_own_def map_of_eq_None_iff)
  with False show ?thesis
    by (auto simp: own_put_def map_of_ins_index map_add_def fun_eq_iff split: option.split)
qed

lemma map_of_own_del [own_simps]: "map_of (own_del k ps) x = (if x = k then None else map_of ps x)"
  by (simp add: own_del_def map_of_filter_key)

lemma props_wf_Nil [simp]: "props_wf []"
  by (simp add: props_wf_def)

lemma props_wf_own_put [wf_intros]: "props_wf ps \<Longrightarrow> props_wf (own_put k v ps)"
  unfolding props_wf_def own_put_def has_own_def [symmetric]
  by (simp add: has_own_def sorted_wrt_append key_before_str distinct_ins_index sorted_ins_index
      del: set_map split: option.split)

lemma props_wf_own_del [wf_intros]: "props_wf ps \<Longrightarrow> props_wf (own_del k ps)"
  by (simp add: props_wf_def own_del_def distinct_map_fst_filter sorted_wrt_map_fst_filter)

lemma own_put_last:
  "\<not> has_own k ps \<Longrightarrow> (\<forall>x\<in>set (map fst ps). key_before x k) \<Longrightarrow> own_put k v ps = ps @ [(k, v)]"
proof -
  assume fresh: "\<not> has_own k ps" and bef: "\<forall>x\<in>set (map fst ps). key_before x k"
  have "ins_index n k v ps = ps @ [(k, v)]" if "array_index k = Some n" for n
    using bef that by (induction ps) (auto simp: key_before_def split: option.splits)
  with fresh show ?thesis by (simp add: own_put_def split: option.splits)
qed

lemma own_put_absent: "\<not> has_own k ps \<Longrightarrow> array_index k = None \<Longrightarrow> own_put k v ps = ps @ [(k, v)]"
  by (simp add: own_put_def)

lemma own_del_absent: "\<not> has_own k ps \<Longrightarrow> own_del k ps = ps"
  unfolding own_del_def has_own_def by (rule filter_True) (auto simp: rev_image_eqI)

lemma has_own_map_of: "has_own k ps \<longleftrightarrow> map_of ps k \<noteq> None"
  by (simp add: has_own_def map_of_eq_None_iff)

lemma own_del_comm: "own_del j (own_del k ps) = own_del k (own_del j ps)"
  by (induction ps) (auto simp: own_del_def)

lemma own_del_own_put_same: "own_del k (own_put k v ps) = own_del k ps"
proof -
  have "own_del k (overwrite k v ps) = own_del k ps" by (induction ps) (auto simp: own_del_def)
  moreover have "own_del k (ins_index n k v ps) = own_del k ps" for n
    by (induction n k v ps rule: ins_index.induct) (simp_all add: own_del_def split: option.split)
  ultimately show ?thesis by (auto simp: own_put_def own_del_def split: option.split)
qed

lemma own_del_own_put_other:
  assumes "j \<noteq> k" and "array_index j = None"
  shows "own_del k (own_put j v ps) = own_put j v (own_del k ps)"
proof -
  have "own_del k (overwrite j v ps) = overwrite j v (own_del k ps)"
    using assms(1) by (induction ps) (auto simp: own_del_def)
  moreover have "has_own j (own_del k ps) = has_own j ps"
    using assms(1) by (simp add: has_own_map_of own_simps)
  ultimately show ?thesis
    using assms by (simp add: own_put_def) (simp add: own_del_def)
qed

lemma set_own_put: "set (own_put k v ps) \<subseteq> insert (k, v) (set ps)"
proof -
  have "set (ins_index n k v ps) \<subseteq> insert (k, v) (set ps)" for n
    by (induction ps) (auto split: option.splits if_splits)
  moreover have "set (overwrite k v ps) \<subseteq> insert (k, v) (set ps)"
    by (induction ps) (auto split: if_splits)
  ultimately show ?thesis unfolding own_put_def by (simp split: option.split)
qed

interpretation own: kv_store "[]" map_of own_put own_del props_wf
  by unfold_locales (auto simp: own_simps intro: wf_intros)

interpretation own: ordered_store "[]" map_of own_put own_del props_wf "\<lambda>ps. ps" key_before
  by unfold_locales (auto simp: props_wf_def own_put_last has_own_map_of)

section \<open>Well-formed values\<close>

fun wf_js :: "jsv \<Rightarrow> bool" where
  "wf_js (Num n) \<longleftrightarrow> num_wf n"
| "wf_js (Arr xs) \<longleftrightarrow> list_all wf_js xs"
| "wf_js (Obj ps) \<longleftrightarrow> props_wf ps \<and> list_all (\<lambda>kv. wf_js (snd kv)) ps"
| "wf_js _ \<longleftrightarrow> True"

lemma wf_js_Obj_iff: "wf_js (Obj ps) \<longleftrightarrow> props_wf ps \<and> (\<forall>(k, v)\<in>set ps. wf_js v)"
  by (auto simp: list_all_iff)

declare wf_js.simps(3) [simp del]
declare wf_js_Obj_iff [simp]

lemma wf_js_member: "wf_js (Obj ps) \<Longrightarrow> map_of ps k = Some v \<Longrightarrow> wf_js v"
  by (auto dest: map_of_SomeD)

lemma wf_js_own_put [wf_intros]: "wf_js (Obj ps) \<Longrightarrow> wf_js v \<Longrightarrow> wf_js (Obj (own_put k v ps))"
  using set_own_put [of k v ps] by (auto intro: wf_intros)

lemma wf_js_own_del [wf_intros]: "wf_js (Obj ps) \<Longrightarrow> wf_js (Obj (own_del k ps))"
  by (auto simp: own_del_def intro: props_wf_own_del [unfolded own_del_def])

section \<open>Conversions\<close>

fun truthy :: "jsv \<Rightarrow> bool" where
  "truthy Undef \<longleftrightarrow> False"
| "truthy Null \<longleftrightarrow> False"
| "truthy (Bool b) \<longleftrightarrow> b"
| "truthy (Num n) \<longleftrightarrow> num_truthy n"
| "truthy (Str s) \<longleftrightarrow> s \<noteq> []"
| "truthy (Arr _) \<longleftrightarrow> True"
| "truthy (Obj _) \<longleftrightarrow> True"

text \<open>The operators \<open>||\<close> and \<open>&&\<close> on values: the deciding operand is the result.\<close>

definition js_or :: "jsv \<Rightarrow> jsv result \<Rightarrow> jsv result" where
  "js_or a b = (if truthy a then Inr a else b)"

fun join_with :: "string \<Rightarrow> string list \<Rightarrow> string" where
  "join_with sep [] = []"
| "join_with sep [x] = x"
| "join_with sep (x # y # ys) = x @ sep @ join_with sep (y # ys)"

text \<open>
  \<open>ToString\<close>. An array joins its elements with commas, \<open>undefined\<close> and \<open>null\<close> as
  nothing. A plain object gives \<open>[object Object]\<close>, unless an own property \<open>toString\<close>
  hides the inherited method: such a property holds data, so the conversion finds nothing
  to call and throws.
\<close>

fun to_str :: "jsv \<Rightarrow> string result" where
  "to_str Undef = Inr ''undefined''"
| "to_str Null = Inr ''null''"
| "to_str (Bool b) = Inr (if b then ''true'' else ''false'')"
| "to_str (Num n) = Inr (num_str n)"
| "to_str (Str s) = Inr s"
| "to_str (Arr xs) =
     rbind (rmap (\<lambda>x. if x = Undef \<or> x = Null then Inr [] else to_str x) xs)
       (\<lambda>ss. Inr (join_with '','' ss))"
| "to_str (Obj ps) =
     (if has_own ''toString'' ps then Inl TypeError else Inr ''[object Object]'')"

text \<open>
  The comparison \<open>v > 0\<close>. A string or an array is read as a numeral first, which is not
  modelled; the program compares \<open>length\<close> members only, which are numbers unless a
  document gives an object a \<open>length\<close> property of its own. A plain object compares as
  \<open>NaN\<close>, after the conversion to a string.
\<close>

definition gt_zero :: "jsv \<Rightarrow> bool result" where
  "gt_zero v = (case v of
      Undef \<Rightarrow> Inr False
    | Null \<Rightarrow> Inr False
    | Bool b \<Rightarrow> Inr b
    | Num n \<Rightarrow> Inr (num_pos n)
    | Str _ \<Rightarrow> Inl NotModelled
    | Arr _ \<Rightarrow> Inl NotModelled
    | Obj ps \<Rightarrow> rbind (to_str (Obj ps)) (\<lambda>_. Inr False))"

section \<open>Members\<close>

definition str_index :: "string \<Rightarrow> nat \<Rightarrow> jsv" where
  "str_index s i = (if i < length s then Str [s ! i] else Undef)"

definition arr_index :: "jsv list \<Rightarrow> nat \<Rightarrow> jsv" where
  "arr_index xs i = (if i < length xs then xs ! i else Undef)"

text \<open>
  Reading a member. The names the program reads are not among the methods values inherit.
\<close>

definition get_member :: "jsv \<Rightarrow> string \<Rightarrow> jsv result" where
  "get_member v k = (case v of
      Undef \<Rightarrow> Inl TypeError
    | Null \<Rightarrow> Inl TypeError
    | Bool _ \<Rightarrow> Inr Undef
    | Num _ \<Rightarrow> Inr Undef
    | Str s \<Rightarrow> Inr (if k = ''length'' then Num (js_nat (length s))
        else case array_index k of Some i \<Rightarrow> str_index s i | None \<Rightarrow> Undef)
    | Arr xs \<Rightarrow> Inr (if k = ''length'' then Num (js_nat (length xs))
        else case array_index k of Some i \<Rightarrow> arr_index xs i | None \<Rightarrow> Undef)
    | Obj ps \<Rightarrow> Inr (case map_of ps k of Some x \<Rightarrow> x | None \<Rightarrow> Undef))"

text \<open>
  Assigning a member. Strict mode refuses it on a primitive. On an object the key
  \<open>__proto__\<close>, unless it is an own property, names the inherited accessor: it leaves the
  own properties as they are (a primitive is ignored, an object becomes the prototype,
  which nothing that enumerates own properties sees). A named property of an array is
  dropped; the program only ever stores \<open>undefined\<close> there.
\<close>

definition set_member :: "jsv \<Rightarrow> string \<Rightarrow> jsv \<Rightarrow> jsv result" where
  "set_member v k x = (case v of
      Obj ps \<Rightarrow> Inr (if k = ''__proto__'' \<and> \<not> has_own k ps then Obj ps else Obj (own_put k x ps))
    | Arr xs \<Rightarrow> (if k = ''length'' then Inl NotModelled else
        case array_index k of
          Some i \<Rightarrow> Inr (Arr (if i < length xs then xs[i := x] else xs @ replicate (i - length xs) Undef @ [x]))
        | None \<Rightarrow> Inr (Arr xs))
    | _ \<Rightarrow> Inl TypeError)"

definition del_member :: "jsv \<Rightarrow> string \<Rightarrow> jsv result" where
  "del_member v k = (case v of
      Undef \<Rightarrow> Inl TypeError
    | Null \<Rightarrow> Inl TypeError
    | Obj ps \<Rightarrow> Inr (Obj (own_del k ps))
    | _ \<Rightarrow> Inr v)"

text \<open>
  The receiver of an array method call (\<open>forEach\<close>, \<open>filter\<close>, \<open>map\<close>): on anything else
  the member is missing or not a function.
\<close>

definition array_items :: "jsv \<Rightarrow> jsv list result" where
  "array_items v = (case v of Arr xs \<Rightarrow> Inr xs | _ \<Rightarrow> Inl TypeError)"

text \<open>What \<open>for (let k in v)\<close> visits, each key with \<open>v[k]\<close>.\<close>

definition for_in :: "jsv \<Rightarrow> (string \<times> jsv) list" where
  "for_in v = (case v of
      Obj ps \<Rightarrow> ps
    | Arr xs \<Rightarrow> zip (map nat_str [0..<length xs]) xs
    | Str s \<Rightarrow> zip (map nat_str [0..<length s]) (map (\<lambda>c. Str [c]) s)
    | _ \<Rightarrow> [])"

lemma get_member_Obj [simp]:
  "get_member (Obj ps) k = Inr (case map_of ps k of Some x \<Rightarrow> x | None \<Rightarrow> Undef)"
  by (simp add: get_member_def)

lemma del_member_Obj [simp]: "del_member (Obj ps) k = Inr (Obj (own_del k ps))"
  by (simp add: del_member_def)

lemma set_member_Obj: "k \<noteq> ''__proto__'' \<Longrightarrow> set_member (Obj ps) k x = Inr (Obj (own_put k x ps))"
  by (simp add: set_member_def)

lemma array_items_simps [simp]: "array_items (Arr xs) = Inr xs" "array_items (Obj ps) = Inl TypeError"
  by (simp_all add: array_items_def)

lemma array_items_eq_Inr: "array_items v = Inr xs \<longleftrightarrow> v = Arr xs"
  by (cases v) (auto simp: array_items_def)

lemma get_member_trace_Arr: "get_member v k = Inr (Arr xs) \<Longrightarrow> array_index k = None \<Longrightarrow> \<exists>ps. v = Obj ps"
  by (cases v) (auto simp: get_member_def split: if_splits)

end
