(* ===== verification/Json.thy ===== *)
theory Json
  imports JsValue
begin

text \<open>
  What \<open>JSON.stringify\<close> followed by \<open>JSON.parse\<close> does to a value, which is how the
  program copies one: properties that hold \<open>undefined\<close> disappear, an \<open>undefined\<close> array
  element and a number that is not finite become \<open>null\<close>, everything else is rebuilt. The
  theory \<open>JsonText\<close> derives this from the text in between.
\<close>

fun json_value :: "jsv \<Rightarrow> bool" where
  "json_value Undef \<longleftrightarrow> False"
| "json_value (Num n) \<longleftrightarrow> finite_num n"
| "json_value (Arr xs) \<longleftrightarrow> list_all json_value xs"
| "json_value (Obj ps) \<longleftrightarrow> list_all (\<lambda>kv. json_value (snd kv)) ps"
| "json_value _ \<longleftrightarrow> True"

fun jsonify :: "jsv \<Rightarrow> jsv" where
  "jsonify Undef = Null"
| "jsonify Null = Null"
| "jsonify (Bool b) = Bool b"
| "jsonify (Num n) = (if finite_num n then Num n else Null)"
| "jsonify (Str s) = Str s"
| "jsonify (Arr xs) = Arr (map jsonify xs)"
| "jsonify (Obj ps) = Obj (map (\<lambda>(k, v). (k, jsonify v)) (filter (\<lambda>(k, v). v \<noteq> Undef) ps))"

definition json_clone :: "jsv \<Rightarrow> jsv result" where
  "json_clone v = (if v = Undef then Inl SyntaxError else Inr (jsonify v))"

definition defined_props :: "props \<Rightarrow> props" where
  "defined_props ps = filter (\<lambda>(k, v). v \<noteq> Undef) ps"

definition jsonify_props :: "props \<Rightarrow> props" where
  "jsonify_props ps = map (\<lambda>(k, v). (k, jsonify v)) (defined_props ps)"

lemma jsonify_Obj [simp]: "jsonify (Obj ps) = Obj (jsonify_props ps)"
  by (simp add: jsonify_props_def defined_props_def)

declare jsonify.simps(7) [simp del]

lemma json_value_Obj_iff: "json_value (Obj ps) \<longleftrightarrow> (\<forall>(k, v)\<in>set ps. json_value v)"
  by (auto simp: list_all_iff)

declare json_value.simps(4) [simp del]
declare json_value_Obj_iff [simp]

lemma json_value_own_put [wf_intros]:
  "json_value (Obj ps) \<Longrightarrow> json_value v \<Longrightarrow> json_value (Obj (own_put k v ps))"
  using set_own_put [of k v ps] by auto

lemma json_value_own_del [wf_intros]: "json_value (Obj ps) \<Longrightarrow> json_value (Obj (own_del k ps))"
  by (auto simp: own_del_def)

lemma json_value_not_Undef: "json_value v \<Longrightarrow> v \<noteq> Undef"
  by auto

lemma json_value_member: "json_value (Obj ps) \<Longrightarrow> map_of ps k = Some v \<Longrightarrow> json_value v"
  by (auto dest: map_of_SomeD)

lemma json_value_jsonify [simp]: "json_value (jsonify v)"
proof (induction v rule: jsv_induct)
  case (Obj ps)
  then show ?case by (fastforce simp: jsonify_props_def defined_props_def)
qed (auto simp: list_all_iff)

lemma jsonify_json_value: "json_value v \<Longrightarrow> jsonify v = v"
proof (induction v rule: jsv_induct)
  case (Obj ps)
  have "defined_props ps = ps"
    unfolding defined_props_def using Obj.prems by (intro filter_True) (auto dest: json_value_not_Undef)
  moreover have "map (\<lambda>(k, v). (k, jsonify v)) ps = ps"
    using Obj by (intro map_idI) (fastforce split: prod.splits)
  ultimately show ?case by (simp add: jsonify_props_def)
qed (auto simp: list_all_iff map_idI)

lemma jsonify_idem [simp]: "jsonify (jsonify v) = jsonify v"
  by (simp add: jsonify_json_value)

lemma json_clone_eq_Inr: "json_clone v = Inr w \<longleftrightarrow> v \<noteq> Undef \<and> w = jsonify v"
  by (auto simp: json_clone_def)

lemma keys_defined_props: "set (map fst (defined_props ps)) \<subseteq> set (map fst ps)"
  by (auto simp: defined_props_def)

lemma props_wf_jsonify_props [wf_intros]: "props_wf ps \<Longrightarrow> props_wf (jsonify_props ps)"
  by (simp add: props_wf_def jsonify_props_def defined_props_def distinct_map_fst_filter
      sorted_wrt_map_fst_filter)

lemma wf_js_jsonify [wf_intros]: "wf_js v \<Longrightarrow> wf_js (jsonify v)"
proof (induction v rule: jsv_induct)
  case (Obj ps)
  have "wf_js (jsonify x)" if "(k, x) \<in> set ps" for k x
    using Obj.IH [OF that] Obj.prems that by auto
  with Obj.prems show ?case
    by (auto intro: wf_intros) (auto simp: jsonify_props_def defined_props_def)
qed (auto simp: list_all_iff)

text \<open>A member of the copy is the copy of the member, unless that was \<open>undefined\<close>.\<close>

lemma map_of_jsonify_props:
  assumes "distinct (map fst ps)"
  shows "map_of (jsonify_props ps) k =
    (case map_of ps k of Some v \<Rightarrow> if v = Undef then None else Some (jsonify v) | None \<Rightarrow> None)"
  using assms
  by (induction ps) (auto simp: jsonify_props_def defined_props_def map_of_eq_None_iff
      split: option.splits dest: map_of_SomeD)

lemma overwrite_jsonify_props:
  "w \<noteq> Undef \<Longrightarrow> json_value (Obj ps) \<Longrightarrow>
    overwrite k v (jsonify_props (overwrite k w ps)) = overwrite k v (jsonify_props ps)"
  by (induction ps) (auto simp: jsonify_props_def defined_props_def)

lemma has_own_jsonify_props: "has_own k (jsonify_props ps) \<Longrightarrow> has_own k ps"
  by (auto simp: has_own_def jsonify_props_def defined_props_def)

lemma jsonify_truthy: "truthy (jsonify v) \<Longrightarrow> truthy v"
  by (cases v) (auto split: if_splits simp: num_truthy_def finite_num_def split: jsnum.splits)

end
