(* ===== verification/JsonText.thy ===== *)
theory JsonText
  imports Json
begin

text \<open>
  The text of a JSON document: what \<open>JSON.stringify(value, null, gap)\<close> writes and what
  \<open>JSON.parse\<close> reads. Characters are 8-bit code units; an escape above \<open>ff\<close> and a number
  outside the modelled numbers are \<open>NotModelled\<close>. The parser's fuel bounds its nesting and
  its list lengths together; one unit more than twice the length of the text is always enough
  (\<open>parse_fuel\<close>), and what is printed is read back (\<open>JSON_parse_stringify\<close>).
\<close>

section \<open>Writing\<close>

definition nl :: char where "nl = CHR 0x0A"
definition bslash :: char where "bslash = CHR 0x5C"
definition dquote :: char where "dquote = CHR 0x22"

definition code :: "char \<Rightarrow> nat" where "code c = of_char c"

definition hex_digit :: "nat \<Rightarrow> char" where
  "hex_digit n = (if n < 10 then char_of (48 + n) else char_of (87 + n))"

definition hex_val :: "char \<Rightarrow> nat option" where
  "hex_val c = (let n = code c in
     if 48 \<le> n \<and> n \<le> 57 then Some (n - 48)
     else if 97 \<le> n \<and> n \<le> 102 then Some (n - 87)
     else if 65 \<le> n \<and> n \<le> 70 then Some (n - 55) else None)"

definition esc_char :: "char \<Rightarrow> string" where
  "esc_char c =
     (if c = CHR 0x08 then [bslash, CHR ''b'']
      else if c = CHR 0x09 then [bslash, CHR ''t'']
      else if c = CHR 0x0A then [bslash, CHR ''n'']
      else if c = CHR 0x0C then [bslash, CHR ''f'']
      else if c = CHR 0x0D then [bslash, CHR ''r'']
      else if c = dquote then [bslash, dquote]
      else if c = bslash then [bslash, bslash]
      else if code c < 32 then [bslash, CHR ''u'', CHR ''0'', CHR ''0'', hex_digit (code c div 16), hex_digit (code c mod 16)]
      else [c])"

definition json_quote :: "string \<Rightarrow> string" where
  "json_quote s = [dquote] @ concat (map esc_char s) @ [dquote]"

text \<open>Brackets around parts: on one line without a gap, else one part a line.\<close>

definition wrap :: "string \<Rightarrow> string \<Rightarrow> char \<Rightarrow> char \<Rightarrow> string list \<Rightarrow> string" where
  "wrap gap ind a b parts =
     (if parts = [] then [a, b]
      else if gap = [] then [a] @ join_with '','' parts @ [b]
      else let sep = [nl] @ ind @ gap in
        [a] @ sep @ join_with ('','' @ sep) parts @ [nl] @ ind @ [b])"

fun json_print :: "string \<Rightarrow> string \<Rightarrow> jsv \<Rightarrow> string" where
  "json_print gap ind Undef = []"
| "json_print gap ind Null = ''null''"
| "json_print gap ind (Bool b) = (if b then ''true'' else ''false'')"
| "json_print gap ind (Num n) = num_str n"
| "json_print gap ind (Str s) = json_quote s"
| "json_print gap ind (Arr xs) = wrap gap ind CHR ''['' CHR '']'' (map (json_print gap (ind @ gap)) xs)"
| "json_print gap ind (Obj ps) = wrap gap ind CHR ''{'' CHR ''}''
     (map (\<lambda>(k, v). json_quote k @ '':'' @ (if gap = [] then [] else '' '') @ json_print gap (ind @ gap) v) ps)"

definition JSON_stringify :: "string \<Rightarrow> jsv \<Rightarrow> string option" where
  "JSON_stringify gap v = (if v = Undef then None else Some (json_print gap [] (jsonify v)))"

section \<open>Reading\<close>

definition is_ws :: "char \<Rightarrow> bool" where
  "is_ws c \<longleftrightarrow> c = CHR '' '' \<or> c = CHR 0x09 \<or> c = CHR 0x0A \<or> c = CHR 0x0D"

definition skip_ws :: "string \<Rightarrow> string" where
  "skip_ws s = dropWhile is_ws s"

definition parse_escape :: "string \<Rightarrow> (char \<times> string) result" where
  "parse_escape s = (case s of [] \<Rightarrow> Inl SyntaxError | c # t \<Rightarrow>
     if c = dquote \<or> c = bslash \<or> c = CHR ''/'' then Inr (c, t)
     else if c = CHR ''b'' then Inr (CHR 0x08, t)
     else if c = CHR ''f'' then Inr (CHR 0x0C, t)
     else if c = CHR ''n'' then Inr (CHR 0x0A, t)
     else if c = CHR ''r'' then Inr (CHR 0x0D, t)
     else if c = CHR ''t'' then Inr (CHR 0x09, t)
     else if c = CHR ''u'' then
       (case t of a # b # x # y # r \<Rightarrow>
          (case (hex_val a, hex_val b, hex_val x, hex_val y) of
             (Some i, Some j, Some k, Some l) \<Rightarrow>
               if i = 0 \<and> j = 0 then Inr (char_of (16 * k + l), r) else Inl NotModelled
           | _ \<Rightarrow> Inl SyntaxError)
        | _ \<Rightarrow> Inl SyntaxError)
     else Inl SyntaxError)"

lemma parse_escape_length: "parse_escape s = Inr (c, t) \<Longrightarrow> length t < length s"
  by (auto simp: parse_escape_def split: list.splits if_splits option.splits)

text \<open>The characters of a string literal after its opening quote.\<close>

function parse_str :: "string \<Rightarrow> (string \<times> string) result" where
  "parse_str [] = Inl SyntaxError"
| "parse_str (c # t) =
     (if c = dquote then Inr ([], t)
      else if c = bslash then
        rbind (parse_escape t) (\<lambda>(x, r). rbind (parse_str r) (\<lambda>(xs, r'). Inr (x # xs, r')))
      else if code c < 32 then Inl SyntaxError
      else rbind (parse_str t) (\<lambda>(xs, r'). Inr (c # xs, r')))"
  by pat_completeness auto
termination
  by (relation "measure length") (auto dest: parse_escape_length)

definition parse_frac :: "string \<Rightarrow> (string \<times> string) result" where
  "parse_frac s = (case s of
      c # t \<Rightarrow> if c = CHR ''.''
        then let d = takeWhile is_digit t in if d = [] then Inl SyntaxError else Inr (d, dropWhile is_digit t)
        else Inr ([], s)
    | [] \<Rightarrow> Inr ([], s))"

definition parse_exp :: "string \<Rightarrow> (int \<times> string) result" where
  "parse_exp s = (case s of
      c # t \<Rightarrow> if c = CHR ''e'' \<or> c = CHR ''E''
        then let neg = (t \<noteq> [] \<and> hd t = CHR ''-'');
                 u = (if t \<noteq> [] \<and> (hd t = CHR ''-'' \<or> hd t = CHR ''+'') then tl t else t);
                 d = takeWhile is_digit u
             in if d = [] then Inl SyntaxError
                else Inr ((if neg then - int (nat_val d) else int (nat_val d)), dropWhile is_digit u)
        else Inr (0, s)
    | [] \<Rightarrow> Inr (0, s))"

definition parse_unsigned :: "bool \<Rightarrow> string \<Rightarrow> (jsnum \<times> string) result" where
  "parse_unsigned neg s =
     (let ip = (if s \<noteq> [] \<and> hd s = CHR ''0'' then ''0'' else takeWhile is_digit s)
      in if ip = [] then Inl SyntaxError else
        rbind (parse_frac (drop (length ip) s)) (\<lambda>(fp, s'). rbind (parse_exp s') (\<lambda>(x, r).
          let m = int (nat_val (ip @ fp)); n = mk_num (if neg then - m else m) (x - int (length fp))
          in if num_wf n then Inr (n, r) else Inl NotModelled)))"

definition parse_num :: "string \<Rightarrow> (jsnum \<times> string) result" where
  "parse_num s = (if s \<noteq> [] \<and> hd s = CHR ''-'' then parse_unsigned True (tl s) else parse_unsigned False s)"

fun strip_prefix :: "string \<Rightarrow> string \<Rightarrow> string option" where
  "strip_prefix [] s = Some s"
| "strip_prefix (c # p) [] = None"
| "strip_prefix (c # p) (d # s) = (if c = d then strip_prefix p s else None)"

definition parse_word :: "string \<Rightarrow> jsv \<Rightarrow> string \<Rightarrow> (jsv \<times> string) result" where
  "parse_word w v s = (case strip_prefix w s of Some r \<Rightarrow> Inr (v, r) | None \<Rightarrow> Inl SyntaxError)"

fun parse_value :: "nat \<Rightarrow> string \<Rightarrow> (jsv \<times> string) result"
  and parse_elems :: "nat \<Rightarrow> string \<Rightarrow> (jsv list \<times> string) result"
  and parse_members :: "nat \<Rightarrow> string \<Rightarrow> (props \<times> string) result" where
  "parse_value 0 s = Inl SyntaxError"
| "parse_value (Suc f) s = (case skip_ws s of [] \<Rightarrow> Inl SyntaxError | c # t \<Rightarrow>
     if c = dquote then rbind (parse_str t) (\<lambda>(x, r). Inr (Str x, r))
     else if c = CHR ''['' then
       (case skip_ws t of
          d # r \<Rightarrow> if d = CHR '']'' then Inr (Arr [], r)
            else rbind (parse_elems f t) (\<lambda>(xs, r'). Inr (Arr xs, r'))
        | [] \<Rightarrow> Inl SyntaxError)
     else if c = CHR ''{'' then
       (case skip_ws t of
          d # r \<Rightarrow> if d = CHR ''}'' then Inr (Obj [], r)
            else rbind (parse_members f t) (\<lambda>(ps, r'). Inr (Obj (put_all own_put ps []), r'))
        | [] \<Rightarrow> Inl SyntaxError)
     else if c = CHR ''t'' then parse_word ''true'' (Bool True) (c # t)
     else if c = CHR ''f'' then parse_word ''false'' (Bool False) (c # t)
     else if c = CHR ''n'' then parse_word ''null'' Null (c # t)
     else rbind (parse_num (c # t)) (\<lambda>(n, r). Inr (Num n, r)))"
| "parse_elems 0 s = Inl SyntaxError"
| "parse_elems (Suc f) s = rbind (parse_value f s) (\<lambda>(x, r). case skip_ws r of [] \<Rightarrow> Inl SyntaxError | d # r' \<Rightarrow>
     if d = CHR '','' then rbind (parse_elems f r') (\<lambda>(xs, r''). Inr (x # xs, r''))
     else if d = CHR '']'' then Inr ([x], r') else Inl SyntaxError)"
| "parse_members 0 s = Inl SyntaxError"
| "parse_members (Suc f) s = (case skip_ws s of [] \<Rightarrow> Inl SyntaxError | c # t \<Rightarrow>
     if c \<noteq> dquote then Inl SyntaxError
     else rbind (parse_str t) (\<lambda>(k, r). case skip_ws r of [] \<Rightarrow> Inl SyntaxError | d # r1 \<Rightarrow>
       if d \<noteq> CHR '':'' then Inl SyntaxError
       else rbind (parse_value f r1) (\<lambda>(x, r2). case skip_ws r2 of [] \<Rightarrow> Inl SyntaxError | e # r3 \<Rightarrow>
         if e = CHR '','' then rbind (parse_members f r3) (\<lambda>(ps, r4). Inr ((k, x) # ps, r4))
         else if e = CHR ''}'' then Inr ([(k, x)], r3) else Inl SyntaxError)))"

definition JSON_parse :: "string \<Rightarrow> jsv result" where
  "JSON_parse s = rbind (parse_value (Suc (2 * length s)) s)
     (\<lambda>(v, r). if skip_ws r = [] then Inr v else Inl SyntaxError)"

section \<open>Fuel\<close>

lemma skip_ws_length: "length (skip_ws s) \<le> length s"
  by (simp add: skip_ws_def length_dropWhile_le)

lemma skip_ws_Cons: "skip_ws s = c # t \<Longrightarrow> length t < length s"
  using skip_ws_length [of s] by simp

lemma parse_str_length: "parse_str s = Inr (x, r) \<Longrightarrow> length r < length s"
proof (induction s arbitrary: x r rule: parse_str.induct)
  case (2 c t)
  then show ?case
    by (fastforce simp: rbind_eq_Inr split: if_splits dest: parse_escape_length)
qed simp

lemma parse_frac_length: "parse_frac s = Inr (x, r) \<Longrightarrow> length r \<le> length s"
  by (auto simp: parse_frac_def Let_def le_SucI length_dropWhile_le split: list.splits if_splits)

lemma dropWhile_le_Suc:
  "length (dropWhile P t) \<le> Suc (length t)" "length (dropWhile P (tl t)) \<le> Suc (length t)"
  using length_dropWhile_le [of P t] length_dropWhile_le [of P "tl t"] by auto

lemma parse_exp_length: "parse_exp s = Inr (x, r) \<Longrightarrow> length r \<le> length s"
  unfolding parse_exp_def Let_def by (auto simp: dropWhile_le_Suc split: list.splits if_splits)

lemma parse_unsigned_length: "parse_unsigned neg s = Inr (n, r) \<Longrightarrow> length r < length s"
proof -
  assume a: "parse_unsigned neg s = Inr (n, r)"
  define ip where "ip = (if s \<noteq> [] \<and> hd s = CHR ''0'' then ''0'' else takeWhile is_digit s)"
  from a obtain fp s' x where f: "ip \<noteq> []" "parse_frac (drop (length ip) s) = Inr (fp, s')"
    "parse_exp s' = Inr (x, r)"
    unfolding parse_unsigned_def Let_def ip_def [symmetric]
    by (auto simp: rbind_eq_Inr Let_def split: if_splits)
  have "length r \<le> length (drop (length ip) s)"
    using parse_frac_length [OF f(2)] parse_exp_length [OF f(3)] by simp
  moreover have "s \<noteq> []" using f(1) by (auto simp: ip_def)
  ultimately show ?thesis using f(1) by (cases s; cases ip) auto
qed

lemma parse_num_length: "parse_num s = Inr (n, r) \<Longrightarrow> length r < length s"
  by (cases s) (auto simp: parse_num_def split: if_splits dest!: parse_unsigned_length)

lemma strip_prefix_length: "strip_prefix p s = Some r \<Longrightarrow> length s = length p + length r"
  by (induction p s rule: strip_prefix.induct) (auto split: if_splits)

lemma parse_word_length: "parse_word w v s = Inr (x, r) \<Longrightarrow> w \<noteq> [] \<Longrightarrow> length r < length s"
  by (auto simp: parse_word_def split: option.splits dest: strip_prefix_length)

text \<open>What a successful step read, branch by branch.\<close>

lemma parse_value_reads:
  assumes "parse_value (Suc f) s = Inr (v, r)"
  obtains c t where "skip_ws s = c # t" and "\<exists>x. parse_str t = Inr (x, r)"
  | c t d where "skip_ws s = c # t" and "skip_ws t = d # r"
  | c t xs where "skip_ws s = c # t" and "parse_elems f t = Inr (xs, r)"
  | c t ps where "skip_ws s = c # t" and "parse_members f t = Inr (ps, r)"
  | c t w where "skip_ws s = c # t" and "w \<noteq> []" and "parse_word w v (c # t) = Inr (v, r)"
  | c t n where "skip_ws s = c # t" and "parse_num (c # t) = Inr (n, r)"
proof (cases "skip_ws s")
  case Nil
  with assms show ?thesis by simp
next
  case (Cons c t)
  have word: "parse_word w u (c # t) = Inr (v, r) \<Longrightarrow> u = v" for w u
    by (auto simp: parse_word_def split: option.splits)
  consider "c = dquote" | "c = CHR ''[''" | "c = CHR ''{''" | "c = CHR ''t''" | "c = CHR ''f''" | "c = CHR ''n''"
    | "c \<noteq> dquote \<and> c \<noteq> CHR ''['' \<and> c \<noteq> CHR ''{'' \<and> c \<noteq> CHR ''t'' \<and> c \<noteq> CHR ''f'' \<and> c \<noteq> CHR ''n''"
    by blast
  then show ?thesis
  proof cases
    case 1
    with assms Cons that(1) show ?thesis by (auto simp: rbind_eq_Inr)
  next
    case 2
    with assms Cons that(2,3) show ?thesis
      by (auto simp: rbind_eq_Inr dquote_def split: list.splits if_splits)
  next
    case 3
    with assms Cons that(2,4) show ?thesis
      by (auto simp: rbind_eq_Inr dquote_def split: list.splits if_splits)
  next
    case 4
    with assms Cons have "parse_word ''true'' (Bool True) (c # t) = Inr (v, r)"
      by (simp add: dquote_def)
    with word that(5) [OF Cons] show ?thesis by blast
  next
    case 5
    with assms Cons have "parse_word ''false'' (Bool False) (c # t) = Inr (v, r)"
      by (simp add: dquote_def)
    with word that(5) [OF Cons] show ?thesis by blast
  next
    case 6
    with assms Cons have "parse_word ''null'' Null (c # t) = Inr (v, r)"
      by (simp add: dquote_def)
    with word that(5) [OF Cons] show ?thesis by blast
  next
    case 7
    with assms Cons that(6) show ?thesis by (auto simp: rbind_eq_Inr)
  qed
qed

lemma parse_elems_reads:
  assumes "parse_elems (Suc f) s = Inr (xs, r)"
  obtains x u d r' where "parse_value f s = Inr (x, u)" and "skip_ws u = d # r'"
    and "r = r' \<or> (\<exists>ys. parse_elems f r' = Inr (ys, r))"
proof -
  from assms obtain x u where v: "parse_value f s = Inr (x, u)"
    and rest: "(case skip_ws u of [] \<Rightarrow> Inl SyntaxError | d # r' \<Rightarrow>
      if d = CHR '','' then rbind (parse_elems f r') (\<lambda>(xs, r''). Inr (x # xs, r''))
      else if d = CHR '']'' then Inr ([x], r') else Inl SyntaxError) = Inr (xs, r)"
    unfolding parse_elems.simps rbind_eq_Inr by auto
  from rest obtain d r' where d: "skip_ws u = d # r'" by (cases "skip_ws u") auto
  with rest have "r = r' \<or> (\<exists>ys. parse_elems f r' = Inr (ys, r))"
    by (cases "d = CHR '',''"; cases "d = CHR '']''") (auto simp: rbind_eq_Inr)
  with v d that show ?thesis by blast
qed

lemma parse_members_reads:
  assumes "parse_members (Suc f) s = Inr (ps, r)"
  obtains c t k u d r1 x r2 e r3 where "skip_ws s = c # t" and "parse_str t = Inr (k, u)"
    and "skip_ws u = d # r1" and "parse_value f r1 = Inr (x, r2)" and "skip_ws r2 = e # r3"
    and "r = r3 \<or> (\<exists>qs. parse_members f r3 = Inr (qs, r))"
proof -
  from assms obtain c t where c: "skip_ws s = c # t" by (cases "skip_ws s") auto
  with assms have cq: "c = dquote" by (cases "c = dquote") auto
  with assms c obtain k u where k: "parse_str t = Inr (k, u)"
    and colon: "(case skip_ws u of [] \<Rightarrow> Inl SyntaxError | d # r1 \<Rightarrow>
       if d \<noteq> CHR '':'' then Inl SyntaxError
       else rbind (parse_value f r1) (\<lambda>(x, r2). case skip_ws r2 of [] \<Rightarrow> Inl SyntaxError | e # r3 \<Rightarrow>
         if e = CHR '','' then rbind (parse_members f r3) (\<lambda>(ps, r4). Inr ((k, x) # ps, r4))
         else if e = CHR ''}'' then Inr ([(k, x)], r3) else Inl SyntaxError)) = Inr (ps, r)"
    unfolding parse_members.simps by (auto simp: rbind_eq_Inr simp del: parse_members.simps)
  from colon obtain d r1 where d: "skip_ws u = d # r1" by (cases "skip_ws u") auto
  with colon have "d = CHR '':''" by (cases "d = CHR '':''") auto
  with colon d obtain x r2 where x: "parse_value f r1 = Inr (x, r2)"
    and sep: "(case skip_ws r2 of [] \<Rightarrow> Inl SyntaxError | e # r3 \<Rightarrow>
         if e = CHR '','' then rbind (parse_members f r3) (\<lambda>(ps, r4). Inr ((k, x) # ps, r4))
         else if e = CHR ''}'' then Inr ([(k, x)], r3) else Inl SyntaxError) = Inr (ps, r)"
    by (auto simp: rbind_eq_Inr)
  from sep obtain e r3 where e: "skip_ws r2 = e # r3" by (cases "skip_ws r2") auto
  with sep have "r = r3 \<or> (\<exists>qs. parse_members f r3 = Inr (qs, r))"
    by (cases "e = CHR '',''"; cases "e = CHR ''}''") (auto simp: rbind_eq_Inr)
  with c k d x e that show ?thesis by blast
qed

lemma parse_length:
  "parse_value f s = Inr (v, r) \<Longrightarrow> length r < length s"
  "parse_elems f s = Inr (xs, r) \<Longrightarrow> length r < length s"
  "parse_members f s = Inr (ps, r) \<Longrightarrow> length r < length s"
proof (induction f arbitrary: s v r xs ps)
  case (Suc f)
  {
    case 1
    then show ?case
    proof (rule parse_value_reads)
      fix c t assume "skip_ws s = c # t" "\<exists>x. parse_str t = Inr (x, r)"
      then show ?thesis by (auto dest!: skip_ws_Cons parse_str_length)
    next
      fix c t d assume "skip_ws s = c # t" "skip_ws t = d # r"
      then show ?thesis by (auto dest!: skip_ws_Cons)
    next
      fix c t xs assume "skip_ws s = c # t" "parse_elems f t = Inr (xs, r)"
      then show ?thesis by (auto dest!: skip_ws_Cons Suc.IH(2))
    next
      fix c t ps assume "skip_ws s = c # t" "parse_members f t = Inr (ps, r)"
      then show ?thesis by (auto dest!: skip_ws_Cons Suc.IH(3))
    next
      fix c t w assume "skip_ws s = c # t" "w \<noteq> []" "parse_word w v (c # t) = Inr (v, r)"
      then show ?thesis using parse_word_length [of w v "c # t"] by (auto dest!: skip_ws_Cons)
    next
      fix c t n assume "skip_ws s = c # t" "parse_num (c # t) = Inr (n, r)"
      then show ?thesis using parse_num_length [of "c # t"] by (auto dest!: skip_ws_Cons)
    qed
  next
    case 2
    then show ?case
    proof (rule parse_elems_reads)
      fix x u d r'
      assume "parse_value f s = Inr (x, u)" "skip_ws u = d # r'"
        "r = r' \<or> (\<exists>ys. parse_elems f r' = Inr (ys, r))"
      then show ?thesis by (auto dest!: skip_ws_Cons Suc.IH(1,2))
    qed
  next
    case 3
    then show ?case
    proof (rule parse_members_reads)
      fix c t k u d r1 x r2 e r3
      assume "skip_ws s = c # t" "parse_str t = Inr (k, u)" "skip_ws u = d # r1"
        "parse_value f r1 = Inr (x, r2)" "skip_ws r2 = e # r3"
        "r = r3 \<or> (\<exists>qs. parse_members f r3 = Inr (qs, r))"
      then show ?thesis by (auto dest!: skip_ws_Cons parse_str_length Suc.IH(1,3))
    qed
  }
qed simp_all

lemma parse_fuel:
  "2 * length s < f \<Longrightarrow> 2 * length s < g \<Longrightarrow> parse_value f s = parse_value g s"
  "2 * length s + 1 < f \<Longrightarrow> 2 * length s + 1 < g \<Longrightarrow> parse_elems f s = parse_elems g s"
  "2 * length s + 1 < f \<Longrightarrow> 2 * length s + 1 < g \<Longrightarrow> parse_members f s = parse_members g s"
proof (induction f arbitrary: g s)
  case (Suc f)
  {
    case 1
    then obtain g' where g: "g = Suc g'" by (cases g) auto
    have shorter: "parse_elems f t = parse_elems g' t" "parse_members f t = parse_members g' t"
      if "skip_ws s = c # t" for c t
      using skip_ws_Cons [OF that] 1 g by (intro Suc.IH; linarith)+
    show ?case
    proof (cases "skip_ws s")
      case (Cons c t)
      then show ?thesis using g by (simp only: parse_value.simps list.case shorter [OF Cons])
    qed (simp add: g)
  next
    case 2
    then obtain g' where g: "g = Suc g'" by (cases g) auto
    have v: "parse_value f s = parse_value g' s" using 2 g by (intro Suc.IH) auto
    have step: "parse_elems f r = parse_elems g' r"
      if "parse_value g' s = Inr (x, u)" and "skip_ws u = d # r" for x u d r
      using parse_length(1) [OF that(1)] skip_ws_Cons [OF that(2)] 2 g by (intro Suc.IH) linarith+
    show ?case unfolding g parse_elems.simps v
    proof (rule rbind_cong [OF refl], clarify)
      fix x u assume x: "parse_value g' s = Inr (x, u)"
      show "(case skip_ws u of [] \<Rightarrow> Inl SyntaxError | d # r' \<Rightarrow>
          if d = CHR '','' then rbind (parse_elems f r') (\<lambda>(xs, r''). Inr (x # xs, r''))
          else if d = CHR '']'' then Inr ([x], r') else Inl SyntaxError) =
        (case skip_ws u of [] \<Rightarrow> Inl SyntaxError | d # r' \<Rightarrow>
          if d = CHR '','' then rbind (parse_elems g' r') (\<lambda>(xs, r''). Inr (x # xs, r''))
          else if d = CHR '']'' then Inr ([x], r') else Inl SyntaxError)"
        using step [OF x] by (cases "skip_ws u") simp_all
    qed
  next
    case 3
    then obtain g' where g: "g = Suc g'" by (cases g) auto
    have v: "parse_value f r1 = parse_value g' r1" if "2 * length r1 + 2 \<le> 2 * length s" for r1
      using 3 g that by (intro Suc.IH) linarith+
    have m: "parse_members f r1 = parse_members g' r1" if "2 * length r1 + 2 \<le> 2 * length s" for r1
      using 3 g that by (intro Suc.IH) linarith+
    show ?case
    proof (cases "skip_ws s")
      case (Cons c t)
      note t = skip_ws_Cons [OF Cons]
      show ?thesis unfolding g parse_members.simps Cons list.case
      proof (rule arg_cong [where f = "\<lambda>x. if c \<noteq> dquote then Inl SyntaxError else x"], rule rbind_cong [OF refl], clarify)
        fix k u assume "parse_str t = Inr (k, u)"
        then have u: "length u < length t" by (rule parse_str_length)
        show "(case skip_ws u of [] \<Rightarrow> Inl SyntaxError | d # r1 \<Rightarrow>
           if d \<noteq> CHR '':'' then Inl SyntaxError
           else rbind (parse_value f r1) (\<lambda>(x, r2). case skip_ws r2 of [] \<Rightarrow> Inl SyntaxError | e # r3 \<Rightarrow>
             if e = CHR '','' then rbind (parse_members f r3) (\<lambda>(ps, r4). Inr ((k, x) # ps, r4))
             else if e = CHR ''}'' then Inr ([(k, x)], r3) else Inl SyntaxError)) =
          (case skip_ws u of [] \<Rightarrow> Inl SyntaxError | d # r1 \<Rightarrow>
           if d \<noteq> CHR '':'' then Inl SyntaxError
           else rbind (parse_value g' r1) (\<lambda>(x, r2). case skip_ws r2 of [] \<Rightarrow> Inl SyntaxError | e # r3 \<Rightarrow>
             if e = CHR '','' then rbind (parse_members g' r3) (\<lambda>(ps, r4). Inr ((k, x) # ps, r4))
             else if e = CHR ''}'' then Inr ([(k, x)], r3) else Inl SyntaxError))"
        proof (cases "skip_ws u")
          case (Cons d r1)
          have r1: "length r1 < length u" by (rule skip_ws_Cons [OF Cons])
          have vv: "parse_value f r1 = parse_value g' r1" using r1 u t by (intro v) linarith
          have mm: "parse_members f r3 = parse_members g' r3"
            if "parse_value g' r1 = Inr (x, r2)" and "skip_ws r2 = e # r3" for x r2 e r3
            using parse_length(1) [OF that(1)] skip_ws_Cons [OF that(2)] r1 u t by (intro m) linarith
          show ?thesis unfolding Cons list.case vv
            by (rule arg_cong [where f = "\<lambda>x. if d \<noteq> CHR '':'' then Inl SyntaxError else x"],
                rule rbind_cong [OF refl]) (auto split: list.split simp: mm)
        qed simp
      qed
    qed (simp add: g)
  }
qed simp_all

section \<open>What is written is read back\<close>

subsection \<open>Strings\<close>

lemma code_simps [simp]: "code dquote = 34" "code bslash = 92" "dquote \<noteq> bslash" "bslash \<noteq> dquote"
  by (simp_all add: code_def dquote_def bslash_def)

lemma hex_val_digit: "n < 16 \<Longrightarrow> hex_val (hex_digit n) = Some n"
  by (auto simp: hex_val_def hex_digit_def code_def)

lemma parse_esc_char:
  "parse_str (esc_char c @ t) = rbind (parse_str t) (\<lambda>(xs, r). Inr (c # xs, r))"
proof -
  have ctrl: "parse_escape (CHR ''u'' # CHR ''0'' # CHR ''0'' # hex_digit (code c div 16) # hex_digit (code c mod 16) # t)
      = Inr (c, t)" if "code c < 32"
  proof -
    have "hex_val (hex_digit (code c div 16)) = Some (code c div 16)"
      "hex_val (hex_digit (code c mod 16)) = Some (code c mod 16)"
      using that by (auto intro!: hex_val_digit)
    moreover have "hex_val CHR ''0'' = Some 0" by (simp add: hex_val_def code_def)
    moreover have "char_of (16 * (code c div 16) + code c mod 16) = c"
      by (simp add: code_def)
    ultimately show ?thesis
      by (simp add: parse_escape_def dquote_def bslash_def)
  qed
  have short: "parse_escape (dquote # t) = Inr (dquote, t)" "parse_escape (bslash # t) = Inr (bslash, t)"
    "parse_escape (CHR ''b'' # t) = Inr (CHR 0x08, t)" "parse_escape (CHR ''t'' # t) = Inr (CHR 0x09, t)"
    "parse_escape (CHR ''n'' # t) = Inr (CHR 0x0A, t)" "parse_escape (CHR ''f'' # t) = Inr (CHR 0x0C, t)"
    "parse_escape (CHR ''r'' # t) = Inr (CHR 0x0D, t)"
    by (simp_all add: parse_escape_def dquote_def bslash_def)
  show ?thesis unfolding esc_char_def by (simp add: short ctrl)
qed

lemma parse_str_quoted: "parse_str (concat (map esc_char s) @ dquote # r) = Inr (s, r)"
  by (induction s) (simp_all add: parse_esc_char)

subsection \<open>Numbers\<close>

definition num_end :: "string \<Rightarrow> bool" where
  "num_end r \<longleftrightarrow> r = [] \<or> (\<not> is_digit (hd r) \<and> hd r \<noteq> CHR ''.'' \<and> hd r \<noteq> CHR ''e'' \<and> hd r \<noteq> CHR ''E'')"

lemma span_digits:
  assumes "list_all is_digit d" and "r = [] \<or> \<not> is_digit (hd r)"
  shows "takeWhile is_digit (d @ r) = d" and "dropWhile is_digit (d @ r) = r"
proof -
  have r: "takeWhile is_digit r = []" "dropWhile is_digit r = r" using assms(2) by (cases r; simp)+
  with assms(1) show "takeWhile is_digit (d @ r) = d" "dropWhile is_digit (d @ r) = r"
    by (simp_all add: list_all_iff takeWhile_append dropWhile_append)
qed

lemma num_end_props:
  assumes "num_end r"
  shows "r = [] \<or> \<not> is_digit (hd r)" and "parse_frac r = Inr ([], r)" and "parse_exp r = Inr (0, r)"
  using assms by (cases r; auto simp: num_end_def parse_frac_def parse_exp_def)+

lemma nondigits [simp]: "\<not> is_digit CHR ''.''" "\<not> is_digit CHR ''e''" "\<not> is_digit CHR ''E''"
  "\<not> is_digit CHR ''-''" "\<not> is_digit CHR ''+''" "is_digit CHR ''0''"
  by (simp_all add: is_digit_def)

text \<open>The exponent part of the text of a number.\<close>

lemma parse_exp_text:
  assumes "num_end r"
  shows "parse_exp ((if x < 0 then ''e-'' else ''e+'') @ nat_str (nat \<bar>x\<bar>) @ r) = Inr (x, r)"
proof -
  note s = span_digits [OF nat_str_digits num_end_props(1) [OF assms]]
  show ?thesis by (auto simp: parse_exp_def Let_def s)
qed

lemma parse_exp_not_digit: "parse_exp ((if x < 0 then ''e-'' else ''e+'') @ t) = parse_exp (CHR ''e'' # (if x < 0 then CHR ''-'' else CHR ''+'') # t)"
  by simp

text \<open>
  A numeral read as integer part, fraction and exponent, where the integer part is a lone
  zero or does not start with zero.
\<close>

lemma parse_num_parts:
  assumes ip: "ip \<noteq> []" "list_all is_digit ip" "ip = ''0'' \<or> hd ip \<noteq> CHR ''0''"
    and fp: "parse_frac (t @ r) = Inr (fp, u @ r)" "t @ r = [] \<or> \<not> is_digit (hd (t @ r))"
    and x: "parse_exp (u @ r) = Inr (x, r)"
    and v: "nat_val (ip @ fp) = m" and n: "n = mk_num (if neg then - int m else int m) (x - int (length fp))"
    and wf: "num_wf n"
  shows "parse_num ((if neg then ''-'' else []) @ ip @ t @ r) = Inr (n, r)"
proof -
  have hd_ip: "hd ip \<noteq> CHR ''-''" using ip by (cases ip) auto
  have int: "(if ip @ t @ r \<noteq> [] \<and> hd (ip @ t @ r) = CHR ''0'' then ''0'' else takeWhile is_digit (ip @ t @ r)) = ip"
    using ip span_digits(1) [OF ip(2) fp(2)] by auto
  have "parse_unsigned neg (ip @ t @ r) = Inr (n, r)"
    unfolding parse_unsigned_def int Let_def using fp x wf ip(1) n v by (cases neg) simp_all
  with hd_ip ip(1) show ?thesis by (cases neg) (simp_all add: parse_num_def)
qed

lemma nat_val_zeros [simp]: "nat_val (replicate z CHR ''0'') = 0"
  by (induction z) (simp_all add: nat_val_Cons digit_val_def)

lemma list_all_digits_parts:
  assumes "list_all is_digit s"
  shows "list_all is_digit (take n s)" and "list_all is_digit (drop n s)"
    and "list_all is_digit (replicate z CHR ''0'')"
  using assms by (auto simp: list_all_iff dest: in_set_takeD in_set_dropD)

lemma parse_frac_dot:
  assumes "list_all is_digit d" and "d \<noteq> []" and "r = [] \<or> \<not> is_digit (hd r)"
  shows "parse_frac (CHR ''.'' # d @ r) = Inr (d, r)"
  using assms span_digits [OF assms(1,3)] by (simp add: parse_frac_def)

text \<open>The four forms of \<open>num_digits\<close>, with digits \<open>s\<close> of a positive number.\<close>

lemma parse_num_digits:
  assumes s: "s = nat_str m" "m \<noteq> 0" and r: "num_end r"
    and wf: "num_wf (mk_num (if neg then - int m else int m) e)"
  shows "parse_num ((if neg then ''-'' else []) @ num_digits s e @ r) =
    Inr (mk_num (if neg then - int m else int m) e, r)"
proof -
  let ?M = "if neg then - int m else int m"
  define k where "k = int (length s)"
  define n where "n = k + e"
  have dig: "list_all is_digit s" and ne: "s \<noteq> []" and hd: "hd s \<noteq> CHR ''0''" and val: "nat_val s = m"
    using s hd_nat_str by auto
  have M: "?M \<noteq> 0" using s(2) by auto
  note parts = list_all_digits_parts [OF dig]
  note rend = num_end_props [OF r]
  consider (int) "k \<le> n" "n \<le> 21" | (frac) "n < k" "0 < n" "n \<le> 21" | (small) "-6 < n" "n \<le> 0"
    | (expo) "\<not> (k \<le> n \<and> n \<le> 21)" "\<not> (0 < n \<and> n \<le> 21)" "\<not> (-6 < n \<and> n \<le> 0)"
    using ne by (auto simp: k_def) linarith
  then show ?thesis
  proof cases
    case int
    then have e: "0 \<le> e" by (simp add: n_def)
    have d: "num_digits s e = s @ replicate (nat e) CHR ''0''"
      using int by (simp add: num_digits_def Let_def k_def n_def)
    have v: "nat_val (s @ replicate (nat e) CHR ''0'') = m * 10 ^ nat e"
      by (simp add: nat_val_append val)
    have mk: "mk_num (if neg then - int (m * 10 ^ nat e) else int (m * 10 ^ nat e)) 0 = mk_num ?M e"
      using mk_num_shift [OF M, of "nat e" 0] e by (cases neg) simp_all
    show ?thesis
      using parse_num_parts [of "s @ replicate (nat e) CHR ''0''" "[]" r "[]" "[]" 0 "m * 10 ^ nat e" "mk_num ?M e" neg]
        ne dig parts(3) hd rend wf v mk d by simp
  next
    case frac
    define i where "i = nat n"
    have i: "0 < i" "i < length s" using frac by (auto simp: i_def k_def)
    have d: "num_digits s e = take i s @ CHR ''.'' # drop i s"
      using frac by (simp add: num_digits_def Let_def k_def n_def i_def)
    have v: "nat_val (take i s @ drop i s) = m" using val by simp
    have x: "0 - int (length (drop i s)) = e" using i frac by (simp add: i_def n_def k_def)
    show ?thesis
      using parse_num_parts [of "take i s" "CHR ''.'' # drop i s" r "drop i s" "[]" 0 m "mk_num ?M e" neg]
        i ne hd parts rend wf val v x d parse_frac_dot [OF parts(2), of i r] by (simp add: hd_take)
  next
    case small
    define z where "z = replicate (nat (- n)) CHR ''0''"
    have "0 < k" using ne by (simp add: k_def)
    then have k: "e < 0" using small by (simp add: n_def)
    have d: "num_digits s e = ''0'' @ CHR ''.'' # z @ s"
      using small k by (simp add: num_digits_def Let_def k_def n_def z_def)
    have zs: "list_all is_digit (z @ s)" using dig parts(3) by (simp add: z_def)
    have v: "nat_val (''0'' @ z @ s) = m"
      by (simp add: nat_val_append nat_val_Cons digit_val_def val z_def)
    have x: "0 - int (length (z @ s)) = e" using small by (simp add: z_def n_def k_def)
    show ?thesis
      using parse_num_parts [of "''0''" "CHR ''.'' # z @ s" r "z @ s" "[]" 0 m "mk_num ?M e" neg]
        zs ne rend wf v x d parse_frac_dot [OF zs, of r] by simp
  next
    case expo
    define ex where "ex = (if n - 1 < 0 then ''e-'' else ''e+'') @ nat_str (nat \<bar>n - 1\<bar>)"
    have nd: "num_digits s e = (if k = 1 then s @ ex else take 1 s @ ''.'' @ drop 1 s @ ex)"
      unfolding num_digits_def Let_def k_def [symmetric] n_def [symmetric] ex_def [symmetric]
      by (simp only: expo if_False)
    have px: "parse_exp (ex @ r) = Inr (n - 1, r)"
      using parse_exp_text [OF r, of "n - 1"] by (simp add: ex_def)
    have hx: "ex @ r \<noteq> []" "\<not> is_digit (hd (ex @ r))" "hd (ex @ r) = CHR ''e''" by (auto simp: ex_def)
    show ?thesis
    proof (cases "length s = 1")
      case True
      have d: "num_digits s e = s @ ex"
        using True by (simp add: nd k_def)
      have f: "parse_frac (ex @ r) = Inr ([], ex @ r)"
        using hx by (cases "ex @ r") (auto simp: parse_frac_def)
      show ?thesis
        using parse_num_parts [of s ex r "[]" ex "n - 1" m "mk_num ?M e" neg]
          ne dig hd f hx px wf val d True by (simp add: n_def k_def)
    next
      case False
      then have two: "1 < length s" using ne by (cases s) auto
      have d: "num_digits s e = take 1 s @ CHR ''.'' # drop 1 s @ ex"
        using False by (simp add: nd k_def)
      have x: "n - 1 - int (length (drop 1 s)) = e" using two by (simp add: n_def k_def)
      have f: "parse_frac (CHR ''.'' # drop 1 s @ ex @ r) = Inr (drop 1 s, ex @ r)"
        using two hx by (intro parse_frac_dot parts) auto
      have v: "nat_val (take 1 s @ drop 1 s) = m" using val by simp
      show ?thesis
        using parse_num_parts [of "take 1 s" "CHR ''.'' # drop 1 s @ ex" r "drop 1 s" ex "n - 1" m "mk_num ?M e" neg]
          two ne parts(1) [of 1] hd f px wf v x d by (simp add: hd_take)
    qed
  qed
qed

lemma parse_num_str:
  assumes "num_wf n" and "finite_num n" and "num_end r"
  shows "parse_num (num_str n @ r) = Inr (n, r)"
proof (cases n)
  case (Fin m e)
  show ?thesis
  proof (cases "m = 0")
    case True
    with assms Fin have e: "e = 0" by (simp add: num_wf_def)
    have "mk_num 0 0 = Fin 0 0" by (subst mk_num.simps) simp
    with True Fin assms(3) e show ?thesis
      using parse_num_parts [of "''0''" "[]" r "[]" "[]" 0 0 n False] num_end_props [OF assms(3)] assms(1)
      by (simp add: num_str_def digit_val_def)
  next
    case False
    have "(if m < 0 then - int (nat \<bar>m\<bar>) else int (nat \<bar>m\<bar>)) = m" by simp
    with False Fin assms show ?thesis
      using parse_num_digits [OF refl, of "nat \<bar>m\<bar>" r "m < 0" e]
      by (simp add: num_str_def mk_num_canonical)
  qed
qed (use assms(2) in \<open>simp_all add: finite_num_def\<close>)

subsection \<open>Values\<close>

lemma skip_ws_append: "list_all is_ws w \<Longrightarrow> skip_ws (w @ s) = skip_ws s"
  by (induction w) (simp_all add: skip_ws_def)

lemma skip_ws_other [simp]: "\<not> is_ws c \<Longrightarrow> skip_ws (c # t) = c # t"
  by (simp add: skip_ws_def)

lemma non_ws [simp]: "\<not> is_ws dquote" "\<not> is_ws CHR ''[''" "\<not> is_ws CHR '']''" "\<not> is_ws CHR ''{''"
  "\<not> is_ws CHR ''}''" "\<not> is_ws CHR '',''" "\<not> is_ws CHR '':''" "is_ws nl" "is_ws CHR '' ''"
  by (simp_all add: is_ws_def dquote_def nl_def)

definition num_start :: "char \<Rightarrow> bool" where
  "num_start c \<longleftrightarrow> is_digit c \<or> c = CHR ''-''"

lemma num_start_other:
  "num_start c \<Longrightarrow> \<not> is_ws c \<and> c \<noteq> dquote \<and> c \<noteq> CHR ''['' \<and> c \<noteq> CHR ''{'' \<and> c \<noteq> CHR '']'' \<and> c \<noteq> CHR ''}''
    \<and> c \<noteq> CHR ''t'' \<and> c \<noteq> CHR ''f'' \<and> c \<noteq> CHR ''n''"
  by (auto simp: num_start_def is_digit_def is_ws_def dquote_def)

lemma num_digits_head:
  assumes "list_all is_digit s" and "s \<noteq> []"
  shows "num_digits s e \<noteq> [] \<and> is_digit (hd (num_digits s e))"
proof -
  have "is_digit (hd s)" using assms by (cases s) auto
  with assms(2) show ?thesis by (auto simp: num_digits_def Let_def hd_append)
qed

lemma num_str_head: "finite_num n \<Longrightarrow> num_str n \<noteq> [] \<and> num_start (hd (num_str n))"
  using num_digits_head [OF nat_str_digits nat_str_not_Nil]
  by (cases n) (auto simp: finite_num_def num_str_def num_start_def)

lemma wrap_head: "wrap gap ind a b parts \<noteq> [] \<and> hd (wrap gap ind a b parts) = a"
  by (auto simp: wrap_def Let_def)

lemma json_print_head:
  assumes "json_value v"
  shows "json_print gap ind v \<noteq> [] \<and> \<not> is_ws (hd (json_print gap ind v)) \<and>
    hd (json_print gap ind v) \<noteq> CHR '']'' \<and> hd (json_print gap ind v) \<noteq> CHR ''}''"
proof (cases v)
  case (Num n)
  with assms num_str_head [of n] num_start_other [of "hd (num_str n)"] show ?thesis by auto
next
  case (Str s)
  then show ?thesis by (simp add: json_quote_def) (simp add: dquote_def)
qed (use assms wrap_head in \<open>auto simp: is_ws_def\<close>)

lemma parse_value_ws: "list_all is_ws w \<Longrightarrow> parse_value f (w @ s) = parse_value f s"
  by (cases f) (simp_all add: skip_ws_append)

lemma num_end_ws: "list_all is_ws w \<Longrightarrow> \<not> num_start c \<Longrightarrow> c \<notin> set ''.eE'' \<Longrightarrow> num_end (w @ c # r)"
  by (cases w) (auto simp: num_end_def num_start_def is_digit_def is_ws_def)

lemma num_end_closers [simp]:
  "list_all is_ws w \<Longrightarrow> num_end (w @ CHR '']'' # r)" "list_all is_ws w \<Longrightarrow> num_end (w @ CHR ''}'' # r)"
  "num_end (CHR '','' # r)"
  using num_end_ws [of "[]" "CHR '',''" r]
  by (auto intro!: num_end_ws simp: num_start_def is_digit_def)

definition reads_as :: "string \<Rightarrow> jsv \<Rightarrow> bool" where
  "reads_as t v \<longleftrightarrow> (\<forall>f r. Suc (size v) \<le> f \<longrightarrow> num_end r \<longrightarrow> parse_value f (t @ r) = Inr (v, r))"

lemma parse_elems_join:
  assumes "list_all is_ws pre" and "list_all is_ws post" and "xs \<noteq> []"
    and "\<And>x. x \<in> set xs \<Longrightarrow> reads_as (P x) x" and "Suc (size_list size xs) \<le> f"
  shows "parse_elems f (pre @ join_with (CHR '','' # pre) (map P xs) @ post @ CHR '']'' # r) = Inr (xs, r)"
  using assms(3-)
proof (induction xs arbitrary: f)
  case (Cons x xs)
  then obtain f' where f: "f = Suc f'" and sz: "Suc (size x) \<le> f'" "Suc (size_list size xs) \<le> f'"
    by (cases f) auto
  have x: "parse_value f' (pre @ P x @ u) = Inr (x, u)" if "num_end u" for u
    using Cons.prems(2) [of x] sz(1) that by (simp add: parse_value_ws [OF assms(1)] reads_as_def)
  show ?case
  proof (cases xs)
    case Nil
    with f x [of "post @ CHR '']'' # r"] assms(2) show ?thesis
      by (simp add: skip_ws_append)
  next
    case (Cons y ys)
    with Cons.IH [of f'] Cons.prems sz
    have rest: "parse_elems f' (pre @ join_with (CHR '','' # pre) (map P xs) @ post @ CHR '']'' # r) = Inr (xs, r)"
      by simp
    with Cons f x show ?thesis by simp
  qed
qed simp

lemma parse_members_join:
  assumes "list_all is_ws pre" and "list_all is_ws post" and "list_all is_ws sp" and "ps \<noteq> []"
    and "\<And>k v. (k, v) \<in> set ps \<Longrightarrow> reads_as (P v) v"
    and "Suc (size_list (size_prod (\<lambda>_. 0) size) ps) \<le> f"
  shows "parse_members f (pre @ join_with (CHR '','' # pre) (map (\<lambda>(k, v). json_quote k @ CHR '':'' # sp @ P v) ps)
    @ post @ CHR ''}'' # r) = Inr (ps, r)"
  using assms(4-)
proof (induction ps arbitrary: f)
  case (Cons p ps)
  obtain k v where p: "p = (k, v)" by (cases p)
  with Cons.prems obtain f' where f: "f = Suc f'" and sz: "Suc (size v) \<le> f'"
    "Suc (size_list (size_prod (\<lambda>_. 0) size) ps) \<le> f'"
    by (cases f) auto
  have v: "parse_value f' (sp @ P v @ u) = Inr (v, u)" if "num_end u" for u
    using Cons.prems(2) [of k v] p sz(1) that by (simp add: parse_value_ws [OF assms(3)] reads_as_def)
  have q: "skip_ws (pre @ json_quote k @ u) = dquote # concat (map esc_char k) @ dquote # u" for u
    by (simp add: skip_ws_append [OF assms(1)] json_quote_def)
  show ?case
  proof (cases ps)
    case Nil
    with f p q v [of "post @ CHR ''}'' # r"] assms(2) show ?thesis
      by (simp add: skip_ws_append parse_str_quoted)
  next
    case (Cons y ys)
    then have "ps \<noteq> []" by simp
    then have "parse_members f' (pre @ join_with (CHR '','' # pre) (map (\<lambda>(k, v). json_quote k @ CHR '':'' # sp @ P v) ps)
      @ post @ CHR ''}'' # r) = Inr (ps, r)"
      by (rule Cons.IH) (use Cons.prems(2) sz in auto)
    with Cons f p q v show ?thesis by (cases y) (simp add: parse_str_quoted)
  qed
qed simp

lemma wrap_text:
  assumes "list_all is_ws gap" and "list_all is_ws ind" and "parts \<noteq> []"
  obtains pre post where "list_all is_ws pre" and "list_all is_ws post"
    and "wrap gap ind a b parts = a # pre @ join_with (CHR '','' # pre) parts @ post @ [b]"
proof (cases "gap = []")
  case True
  with assms that [of "[]" "[]"] show ?thesis by (simp add: wrap_def)
next
  case False
  with assms that [of "[nl] @ ind @ gap" "[nl] @ ind"] show ?thesis
    by (simp add: wrap_def Let_def)
qed

lemma skip_ws_join_head:
  assumes "list_all is_ws pre" and "parts \<noteq> []" and "hd parts \<noteq> []" and "\<not> is_ws (hd (hd parts))"
  obtains t where "skip_ws (pre @ join_with sep parts @ u) = hd (hd parts) # t"
proof -
  obtain p ps where p: "parts = p # ps" using assms(2) by (cases parts) auto
  then obtain c q where c: "p = c # q" using assms(3) by (cases p) auto
  obtain t where "join_with sep parts @ u = c # t" using p c by (cases ps) auto
  with assms p c that show ?thesis by (simp add: skip_ws_append)
qed

theorem parse_print:
  assumes "json_value v" and "wf_js v" and "list_all is_ws gap" and "list_all is_ws ind"
  shows "reads_as (json_print gap ind v) v"
  using assms
proof (induction v arbitrary: ind rule: jsv_induct)
  case Null
  show ?case unfolding reads_as_def
    by (auto simp: parse_word_def dquote_def is_ws_def dest!: Suc_le_D)
next
  case (Bool b)
  show ?case unfolding reads_as_def
    by (cases b) (auto simp: parse_word_def dquote_def is_ws_def dest!: Suc_le_D)
next
  case (Num n)
  obtain c t where ct: "num_str n = c # t" and c: "num_start c"
    using num_str_head [of n] Num.prems(1) by (cases "num_str n") auto
  have "parse_num (num_str n @ r) = Inr (n, r)" if "num_end r" for r
    using parse_num_str that Num.prems by simp
  with ct show ?case unfolding reads_as_def
    using num_start_other [OF c] by (auto dest!: Suc_le_D)
next
  case (Str s)
  have "skip_ws (json_quote s @ r) = dquote # concat (map esc_char s) @ dquote # r" for r
    by (simp add: json_quote_def)
  then show ?case unfolding reads_as_def
    by (auto simp: parse_str_quoted dest!: Suc_le_D)
next
  case (Arr xs)
  show ?case unfolding reads_as_def
  proof (intro allI impI)
    fix f r assume f: "Suc (size (Arr xs)) \<le> f" "num_end r"
    then obtain f' where f': "f = Suc f'" "Suc (size_list size xs) \<le> f'" by (cases f) auto
    show "parse_value f (json_print gap ind (Arr xs) @ r) = Inr (Arr xs, r)"
    proof (cases "xs = []")
      case True
      with f' show ?thesis by (simp add: wrap_def dquote_def)
    next
      case False
      define P where "P = json_print gap (ind @ gap)"
      have reads: "reads_as (P x) x" if "x \<in> set xs" for x
        unfolding P_def using Arr.IH [OF that, of "ind @ gap"] Arr.prems that by (auto simp: list_all_iff)
      obtain pre post where pp: "list_all is_ws pre" "list_all is_ws post"
        and body: "json_print gap ind (Arr xs) = CHR ''['' # pre @ join_with (CHR '','' # pre) (map P xs) @ post @ CHR '']'' # []"
        using wrap_text [OF Arr.prems(3,4), of "map P xs" "CHR ''[''" "CHR '']''"] False
        by (auto simp: P_def)
      have "parse_elems f' (pre @ join_with (CHR '','' # pre) (map P xs) @ post @ CHR '']'' # r) = Inr (xs, r)"
        using pp False reads f'(2) by (rule parse_elems_join)
      moreover have "json_value (hd xs)" using Arr.prems(1) False by (auto simp: list_all_iff)
      then obtain t where "skip_ws (pre @ join_with (CHR '','' # pre) (map P xs) @ post @ CHR '']'' # r) = hd (P (hd xs)) # t"
        and "hd (P (hd xs)) \<noteq> CHR '']''"
        using skip_ws_join_head [OF pp(1), of "map P xs"] json_print_head [of "hd xs" gap "ind @ gap"] False
        by (auto simp: P_def hd_map)
      ultimately show ?thesis using f'(1) body by (simp add: dquote_def del: json_print.simps)
    qed
  qed
next
  case (Obj ps)
  show ?case unfolding reads_as_def
  proof (intro allI impI)
    fix f r assume f: "Suc (size (Obj ps)) \<le> f" "num_end r"
    then obtain f' where f': "f = Suc f'" "Suc (size_list (size_prod (\<lambda>_. 0) size) ps) \<le> f'" by (cases f) auto
    show "parse_value f (json_print gap ind (Obj ps) @ r) = Inr (Obj ps, r)"
    proof (cases "ps = []")
      case True
      with f' show ?thesis by (simp add: wrap_def dquote_def)
    next
      case False
      define P where "P = json_print gap (ind @ gap)"
      define sp where "sp = (if gap = [] then [] else '' '')"
      define part where "part = (\<lambda>(k, v). json_quote k @ CHR '':'' # sp @ P v)"
      have reads: "reads_as (P v) v" if "(k, v) \<in> set ps" for k v
        unfolding P_def using Obj.IH [OF that, of "ind @ gap"] Obj.prems that by auto
      have sp: "list_all is_ws sp" by (simp add: sp_def)
      obtain pre post where pp: "list_all is_ws pre" "list_all is_ws post"
        and body: "json_print gap ind (Obj ps) = CHR ''{'' # pre @ join_with (CHR '','' # pre) (map part ps) @ post @ CHR ''}'' # []"
        using wrap_text [OF Obj.prems(3,4), of "map part ps" "CHR ''{''" "CHR ''}''"] False
        by (auto simp: P_def part_def sp_def)
      have "parse_members f' (pre @ join_with (CHR '','' # pre) (map part ps) @ post @ CHR ''}'' # r) = Inr (ps, r)"
        unfolding part_def using pp sp False reads f'(2) by (rule parse_members_join)
      moreover have "put_all own_put ps [] = ps"
        using Obj.prems(2) by (simp add: own.entries_put_all_sorted props_wf_def)
      moreover have "part (hd ps) = dquote # tl (part (hd ps))"
        by (cases "hd ps") (simp add: part_def json_quote_def)
      then obtain t where "skip_ws (pre @ join_with (CHR '','' # pre) (map part ps) @ post @ CHR ''}'' # r) = dquote # t"
        using skip_ws_join_head [OF pp(1), of "map part ps"] False by (metis hd_map list.sel(1) list.map_disc_iff list.distinct(1) non_ws(1))
      ultimately show ?thesis using f'(1) body by (simp add: dquote_def del: json_print.simps)
    qed
  qed
qed simp

theorem JSON_parse_print:
  assumes "json_value v" and "wf_js v" and "list_all is_ws gap"
  shows "JSON_parse (json_print gap [] v) = Inr v"
proof -
  let ?t = "json_print gap [] v"
  define f where "f = max (Suc (2 * length ?t)) (Suc (size v))"
  have "parse_value f ?t = Inr (v, [])"
    using parse_print [OF assms, of "[]"] by (auto simp: reads_as_def f_def num_end_def dest!: spec [of _ f] spec [of _ "[]"])
  then have "parse_value (Suc (2 * length ?t)) ?t = Inr (v, [])"
    using parse_fuel(1) [of ?t f "Suc (2 * length ?t)"] by (simp add: f_def)
  then show ?thesis by (simp add: JSON_parse_def skip_ws_def)
qed

text \<open>
  \<open>JSON.parse(JSON.stringify(v, null, gap))\<close>, by way of the text: it yields the copy
  without \<open>undefined\<close> members, and a \<open>SyntaxError\<close> when there is no text to parse.
\<close>

theorem json_clone_text:
  assumes "wf_js v" and "list_all is_ws gap"
  shows "json_clone v = (case JSON_stringify gap v of Some t \<Rightarrow> JSON_parse t | None \<Rightarrow> Inl SyntaxError)"
  using assms by (auto simp: JSON_stringify_def json_clone_def JSON_parse_print wf_js_jsonify)

theorem json_clone_text_witness:
  "(case JSON_stringify ''  '' (Obj [(''a'', Arr [Null, Undef, Str ''x'']), (''b'', Undef)]) of
      Some t \<Rightarrow> JSON_parse t | None \<Rightarrow> Inl SyntaxError) = Inr (Obj [(''a'', Arr [Null, Null, Str ''x''])])"
proof -
  let ?v = "Obj [(''a'', Arr [Null, Undef, Str ''x'']), (''b'', Undef)]"
  have "wf_js ?v" by (simp add: props_wf_def key_before_def array_index_def canonical_def is_digit_def)
  then have "json_clone ?v = (case JSON_stringify ''  '' ?v of Some t \<Rightarrow> JSON_parse t | None \<Rightarrow> Inl SyntaxError)"
    by (rule json_clone_text) (simp add: is_ws_def)
  moreover have "json_clone ?v = Inr (Obj [(''a'', Arr [Null, Null, Str ''x''])])" by code_simp
  ultimately show ?thesis by simp
qed

end
