(* ===== verification/DataTs.thy ===== *)
theory DataTs
  imports Json
begin

text \<open>
  \<open>powerful-front/src/data.ts\<close>, the two views of a request case. The form edits headers
  and queries as lists of \<open>{name, value}\<close> rows (the display form); the server takes them as
  objects (the posted form). \<open>viewToPost\<close> and \<open>postToView\<close> convert between the two on a copy
  of their argument.
\<close>

section \<open>Rows and objects\<close>

definition row :: "string \<Rightarrow> jsv \<Rightarrow> jsv" where
  "row k v = Obj [(''name'', Str k), (''value'', v)]"

definition objToArray :: "jsv \<Rightarrow> jsv" where
  "objToArray obj =
     (if obj = Undef then Undef
      else let result = map (\<lambda>(k, v). row k v) (for_in obj)
           in if length result > 0 then Arr result else Undef)"

text \<open>
  The object under construction in \<open>arrayToObj\<close>: its own properties and, once a
  \<open>__proto__\<close> row has replaced it, its prototype (\<open>Undef\<close> for the initial one, which has
  no enumerable property).
\<close>

record js_object =
  own :: props
  proto :: jsv

definition empty_object :: js_object where
  "empty_object = \<lparr>own = [], proto = Undef\<rparr>"

text \<open>
  \<open>result[k] = v\<close>. The key \<open>__proto__\<close> reaches the inherited accessor unless the object,
  or a prototype put in place before, has a property of that name.
\<close>

definition assign :: "string \<Rightarrow> jsv \<Rightarrow> js_object \<Rightarrow> js_object" where
  "assign k v r =
     (if k = ''__proto__'' \<and> \<not> has_own k (own r) \<and> \<not> (case proto r of Obj qs \<Rightarrow> has_own k qs | _ \<Rightarrow> False)
      then (case v of
          Obj qs \<Rightarrow> r\<lparr>proto := v\<rparr>
        | Arr xs \<Rightarrow> r\<lparr>proto := v\<rparr>
        | _ \<Rightarrow> r)
      else r\<lparr>own := own_put k v (own r)\<rparr>)"

text \<open>The body of the loop: \<open>if (h.name && h.value && h.value.length > 0) result[h.name] = h.value\<close>.\<close>

definition keep_value :: "jsv \<Rightarrow> bool result" where
  "keep_value value =
     (if \<not> truthy value then Inr False else rbind (get_member value ''length'') gt_zero)"

definition keep_row :: "jsv \<Rightarrow> bool result" where
  "keep_row h = rbind (get_member h ''name'') (\<lambda>name.
     if \<not> truthy name then Inr False else rbind (get_member h ''value'') keep_value)"

definition add_row :: "jsv \<Rightarrow> js_object \<Rightarrow> js_object result" where
  "add_row h r = rbind (keep_row h) (\<lambda>keep.
     if \<not> keep then Inr r
     else rbind (get_member h ''name'') (\<lambda>name. rbind (get_member h ''value'') (\<lambda>value.
       rbind (to_str name) (\<lambda>key. Inr (assign key value r)))))"

definition arrayToObj :: "jsv \<Rightarrow> jsv result" where
  "arrayToObj kvs = rbind (array_items kvs) (\<lambda>hs. rbind (rfold add_row hs empty_object) (\<lambda>r.
     Inr (if own r \<noteq> [] \<or> for_in (proto r) \<noteq> [] then Obj (own r) else Undef)))"

section \<open>From the form to the posted case\<close>

text \<open>\<open>if (rows) { var res = arrayToObj(rows); if (res) tr[key] = res; }\<close>\<close>

definition put_back :: "string \<Rightarrow> jsv \<Rightarrow> jsv \<Rightarrow> jsv result" where
  "put_back key rows tr =
     (if truthy rows
      then rbind (arrayToObj rows) (\<lambda>res. if truthy res then set_member tr key res else Inr tr)
      else Inr tr)"

definition post_node :: "jsv \<Rightarrow> jsv result" where
  "post_node tr =
     rbind (get_member tr ''headers'') (\<lambda>headers.
     rbind (get_member tr ''queries'') (\<lambda>queries.
     rbind (del_member tr ''headers'') (\<lambda>tr.
     rbind (del_member tr ''queries'') (\<lambda>tr.
     rbind (put_back ''headers'' headers tr) (\<lambda>tr.
     put_back ''queries'' queries tr)))))"

definition viewToPost :: "jsv \<Rightarrow> jsv result" where
  "viewToPost display =
     rbind (json_clone display) (\<lambda>data.
     rbind (get_member data ''trace'') (\<lambda>trace.
     rbind (array_items trace) (\<lambda>trs.
     rbind (rmap post_node trs) (\<lambda>trs'.
     rbind (set_member data ''trace'' (Arr trs')) (\<lambda>data.
     del_member data ''validate'')))))"

section \<open>From a case to the form\<close>

text \<open>The predicate of the filter: \<open>tr.headers || tr.queries\<close>.\<close>

definition has_rows :: "jsv \<Rightarrow> bool result" where
  "has_rows tr = rbind (get_member tr ''headers'') (\<lambda>headers.
     rbind (js_or headers (get_member tr ''queries'')) (\<lambda>v. Inr (truthy v)))"

definition view_node :: "jsv \<Rightarrow> jsv result" where
  "view_node tr =
     rbind (get_member tr ''headers'') (\<lambda>headers.
     rbind (set_member tr ''headers'' (objToArray headers)) (\<lambda>tr.
     rbind (get_member tr ''queries'') (\<lambda>queries.
     set_member tr ''queries'' (objToArray queries))))"

definition postToView :: "jsv \<Rightarrow> jsv result" where
  "postToView obj =
     rbind (get_member obj ''trace'') (\<lambda>trace.
     rbind (array_items trace) (\<lambda>trs.
     rbind (rmap has_rows trs) (\<lambda>flags.
     if length (filter (\<lambda>b. b) flags) > 0
     then rbind (json_clone obj) (\<lambda>newObj.
       rbind (get_member newObj ''trace'') (\<lambda>trace'.
       rbind (array_items trace') (\<lambda>trs'.
       rbind (rmap view_node trs') (\<lambda>trs''.
       set_member newObj ''trace'' (Arr trs'')))))
     else Inr obj)))"

section \<open>The loop over rows\<close>

definition kept :: "props \<Rightarrow> props" where
  "kept kvs = filter (\<lambda>(k, v). k \<noteq> [] \<and> keep_value v = Inr True) kvs"

definition judged :: "props \<Rightarrow> bool" where
  "judged kvs \<longleftrightarrow> list_all (\<lambda>(k, v). k = [] \<or> is_ok (keep_value v)) kvs"

lemma keep_value_simps [simp]:
  "keep_value (Str s) = Inr (s \<noteq> [])"
  "keep_value (Arr xs) = Inr (xs \<noteq> [])"
  "keep_value (Num n) = Inr False" "keep_value (Bool b) = Inr False"
  "keep_value Null = Inr False" "keep_value Undef = Inr False"
  by (simp_all add: keep_value_def get_member_def gt_zero_def)

lemma keep_row_row [simp]: "keep_row (row k v) = (if k = [] then Inr False else keep_value v)"
  by (simp add: keep_row_def row_def)

lemma add_row_row:
  "add_row (row k v) r = rbind (if k = [] then Inr False else keep_value v)
     (\<lambda>keep. Inr (if keep then assign k v r else r))"
proof -
  have "get_member (row k v) ''name'' = Inr (Str k)" "get_member (row k v) ''value'' = Inr v"
    by (simp_all add: row_def)
  then show ?thesis by (cases "keep_row (row k v)") (auto simp: add_row_def)
qed

lemma assign_plain: "k \<noteq> ''__proto__'' \<Longrightarrow> assign k v r = r\<lparr>own := own_put k v (own r)\<rparr>"
  by (simp add: assign_def)

lemma add_rows:
  assumes "judged kvs" and "list_all (\<lambda>(k, v). k \<noteq> ''__proto__'') kvs"
  shows "rfold add_row (map (\<lambda>(k, v). row k v) kvs) r =
    Inr (r\<lparr>own := put_all own_put (kept kvs) (own r)\<rparr>)"
  using assms
proof (induction kvs arbitrary: r)
  case (Cons kv kvs)
  obtain k v where kv: "kv = (k, v)" by (cases kv)
  with Cons.prems have "is_ok (if k = [] then Inr False else keep_value v)"
    by (auto simp: judged_def)
  then obtain b where b: "(if k = [] then Inr False else keep_value v) = Inr b"
    unfolding is_ok_iff by blast
  have IH: "rfold add_row (map (\<lambda>(k, v). row k v) kvs) r' =
    Inr (r'\<lparr>own := put_all own_put (kept kvs) (own r')\<rparr>)" for r'
    using Cons by (auto simp: judged_def)
  show ?case
  proof (cases b)
    case True
    with b have "kept (kv # kvs) = kv # kept kvs" by (auto simp: kept_def kv split: if_splits)
    with True b kv IH Cons.prems show ?thesis by (simp add: add_row_row assign_plain)
  next
    case False
    with b have "kept (kv # kvs) = kept kvs" by (auto simp: kept_def kv split: if_splits)
    with False b kv IH show ?thesis by (simp add: add_row_row)
  qed
qed (simp add: kept_def)

lemma arrayToObj_rows:
  assumes "judged kvs" and "list_all (\<lambda>(k, v). k \<noteq> ''__proto__'') kvs"
  shows "arrayToObj (Arr (map (\<lambda>(k, v). row k v) kvs)) =
    (let ps = put_all own_put (kept kvs) [] in Inr (if ps \<noteq> [] then Obj ps else Undef))"
  using add_rows [OF assms, of empty_object]
  by (simp add: arrayToObj_def empty_object_def Let_def for_in_def)

lemma put_all_own_empty: "put_all own_put kvs [] = [] \<longleftrightarrow> kvs = []"
proof
  assume a: "put_all own_put kvs [] = []"
  show "kvs = []"
  proof (rule ccontr)
    assume "kvs \<noteq> []"
    then obtain k where "k \<in> set (map fst (rev kvs))" by (cases kvs) auto
    then have "map_of (rev kvs) k \<noteq> None" by (simp add: map_of_eq_None_iff)
    moreover have "map_of (put_all own_put kvs []) k = (case map_of (rev kvs) k of Some v \<Rightarrow> Some v | None \<Rightarrow> None)"
      using own.get_put_all [of "[]" kvs k] by (simp split: option.splits)
    ultimately show False using a by auto
  qed
qed simp

text \<open>What the object holds under a key: the last kept row of that name.\<close>

definition good_rows :: "(string \<times> string) list \<Rightarrow> (string \<times> string) list" where
  "good_rows kvs = filter (\<lambda>(k, s). k \<noteq> [] \<and> s \<noteq> []) kvs"

definition str_props :: "(string \<times> string) list \<Rightarrow> props" where
  "str_props kvs = map (\<lambda>(k, s). (k, Str s)) kvs"

lemma kept_str_props: "kept (str_props kvs) = str_props (good_rows kvs)"
  by (induction kvs) (auto simp: kept_def str_props_def good_rows_def)

theorem arrayToObj_last_row:
  assumes "list_all (\<lambda>(k, s). k \<noteq> ''__proto__'') kvs"
  shows "arrayToObj (Arr (map (\<lambda>(k, s). row k (Str s)) kvs)) =
      Inr (if good_rows kvs = [] then Undef else Obj (put_all own_put (str_props (good_rows kvs)) []))"
    and "map_of (put_all own_put (str_props (good_rows kvs)) []) key = map_option Str (map_of (rev (good_rows kvs)) key)"
proof -
  have rows: "map (\<lambda>(k, s). row k (Str s)) kvs = map (\<lambda>(k, v). row k v) (str_props kvs)"
    by (auto simp: str_props_def)
  have j: "judged (str_props kvs)" by (auto simp: judged_def str_props_def list_all_iff)
  have n: "list_all (\<lambda>(k, v). k \<noteq> ''__proto__'') (str_props kvs)"
    using assms(1) by (auto simp: list_all_iff str_props_def)
  have e: "str_props (good_rows kvs) = [] \<longleftrightarrow> good_rows kvs = []" by (simp add: str_props_def)
  show "arrayToObj (Arr (map (\<lambda>(k, s). row k (Str s)) kvs)) =
      Inr (if good_rows kvs = [] then Undef else Obj (put_all own_put (str_props (good_rows kvs)) []))"
    using arrayToObj_rows [OF j n] put_all_own_empty [of "kept (str_props kvs)"] e
    unfolding rows kept_str_props by (simp add: Let_def)
  show "map_of (put_all own_put (str_props (good_rows kvs)) []) key = map_option Str (map_of (rev (good_rows kvs)) key)"
    using own.get_put_all [of "[]" "str_props (good_rows kvs)" key]
    by (simp add: str_props_def rev_map map_of_map_snd split: option.splits)
qed

section \<open>Rows of an object's own properties\<close>

text \<open>
  Header and query objects that survive the way to the form and back: some row, and every
  row one the loop keeps.
\<close>

definition clean_rows :: "jsv \<Rightarrow> bool" where
  "clean_rows v = (case v of
      Obj ps \<Rightarrow> ps \<noteq> [] \<and> list_all (\<lambda>(k, x). k \<noteq> [] \<and> k \<noteq> ''__proto__'' \<and> keep_value x = Inr True) ps
    | _ \<Rightarrow> False)"

lemma objToArray_Obj: "objToArray (Obj ps) = (if ps = [] then Undef else Arr (map (\<lambda>(k, v). row k v) ps))"
  by (simp add: objToArray_def for_in_def)

lemma rows_round_trip:
  assumes "clean_rows (Obj ps)" and "props_wf ps"
  shows "arrayToObj (objToArray (Obj ps)) = Inr (Obj ps)"
proof -
  have "kept ps = ps"
    unfolding kept_def using assms(1) by (intro filter_True) (auto simp: clean_rows_def list_all_iff)
  moreover have "judged ps" using assms(1) by (auto simp: judged_def clean_rows_def list_all_iff)
  moreover have "list_all (\<lambda>(k, v). k \<noteq> ''__proto__'') ps"
    using assms(1) by (auto simp: clean_rows_def list_all_iff)
  moreover have "put_all own_put ps [] = ps"
    using assms(2) by (simp add: own.entries_put_all_sorted props_wf_def)
  ultimately show ?thesis
    using assms(1) arrayToObj_rows [of ps] by (simp add: objToArray_Obj clean_rows_def Let_def)
qed

section \<open>One node, there and back\<close>

definition mem :: "props \<Rightarrow> string \<Rightarrow> jsv" where
  "mem ps k = (case map_of ps k of Some v \<Rightarrow> v | None \<Rightarrow> Undef)"

definition base :: "props \<Rightarrow> props" where
  "base ps = own_del ''queries'' (own_del ''headers'' ps)"

text \<open>What a node becomes when its rows are written to the form and posted again.\<close>

definition repost :: "props \<Rightarrow> jsv result" where
  "repost ps = rbind (put_back ''headers'' (objToArray (mem ps ''headers'')) (Obj (base ps)))
     (put_back ''queries'' (objToArray (mem ps ''queries'')))"

lemma field_keys [simp]: "array_index ''headers'' = None" "array_index ''queries'' = None"
  "array_index ''trace'' = None" "array_index ''validate'' = None" "array_index ''name'' = None"
  "array_index ''value'' = None" "array_index ''cases'' = None" "array_index ''expect'' = None"
  by (simp_all add: array_index_def canonical_def is_digit_def)

lemma post_node_Obj: "post_node (Obj qs) =
  rbind (put_back ''headers'' (mem qs ''headers'') (Obj (base qs))) (put_back ''queries'' (mem qs ''queries''))"
  by (simp add: post_node_def mem_def base_def)

lemma view_node_Obj: "view_node (Obj ps) = Inr (Obj (own_put ''queries'' (objToArray (mem ps ''queries''))
  (own_put ''headers'' (objToArray (mem ps ''headers'')) ps)))"
  by (simp add: view_node_def set_member_Obj mem_def own_simps)

lemma own_del_jsonify_props: "own_del k (jsonify_props ps) = jsonify_props (own_del k ps)"
  by (induction ps) (auto simp: own_del_def jsonify_props_def defined_props_def)

lemma base_jsonify_view:
  "base (jsonify_props (own_put ''queries'' x (own_put ''headers'' y ps))) = jsonify_props (base ps)"
  unfolding base_def
  by (simp add: own_del_jsonify_props own_del_own_put_same own_del_own_put_other own_del_comm [of "''queries''"]
      del: own_del_comm)

lemma mem_jsonify_props:
  "distinct (map fst ps) \<Longrightarrow> mem (jsonify_props ps) k = (if mem ps k = Undef then Undef else jsonify (mem ps k))"
  by (auto simp: mem_def map_of_jsonify_props split: option.splits)

lemma json_value_row: "json_value v \<Longrightarrow> json_value (row k v)"
  by (simp add: row_def)

lemma json_for_in: "json_value v \<Longrightarrow> (k, x) \<in> set (for_in v) \<Longrightarrow> json_value x"
  by (cases v) (auto simp: for_in_def list_all_iff dest!: set_zip_rightD)

lemma json_objToArray: "v = Undef \<or> json_value v \<Longrightarrow> objToArray v = Undef \<or> json_value (objToArray v)"
  by (auto simp: objToArray_def Let_def list_all_iff intro!: json_value_row dest: json_for_in)

lemma json_mem: "json_value (Obj ps) \<Longrightarrow> mem ps k = Undef \<or> json_value (mem ps k)"
  by (auto simp: mem_def split: option.splits dest: map_of_SomeD)

lemma wf_own_put_distinct: "props_wf ps \<Longrightarrow> distinct (map fst (own_put k v ps))"
  using props_wf_own_put [of ps k v] by (simp add: props_wf_def)

lemma post_view_node:
  assumes "json_value (Obj ps)" and "props_wf ps"
  shows "rbind (view_node (jsonify (Obj ps))) (\<lambda>n. post_node (jsonify n)) = repost ps"
proof -
  have clone: "jsonify_props ps = ps"
    using jsonify_json_value [OF assms(1)] by simp
  have baseJ: "jsonify_props (base ps) = base ps"
  proof -
    have "json_value (Obj (base ps))"
      using assms(1) by (auto simp: base_def own_del_def)
    then show ?thesis using jsonify_json_value by fastforce
  qed
  define H where "H = objToArray (mem ps ''headers'')"
  define Q where "Q = objToArray (mem ps ''queries'')"
  define qs where "qs = own_put ''queries'' Q (own_put ''headers'' H ps)"
  have json: "H = Undef \<or> json_value H" "Q = Undef \<or> json_value Q"
    unfolding H_def Q_def using json_objToArray json_mem [OF assms(1)] by blast+
  have d: "distinct (map fst qs)"
    unfolding qs_def by (intro wf_own_put_distinct wf_intros assms)
  have m: "mem qs ''headers'' = H" "mem qs ''queries'' = Q"
    by (simp_all add: mem_def qs_def own_simps)
  have "mem (jsonify_props qs) ''headers'' = H" "mem (jsonify_props qs) ''queries'' = Q"
    using json m by (auto simp: mem_jsonify_props [OF d] jsonify_json_value)
  then show ?thesis
    unfolding repost_def H_def [symmetric] Q_def [symmetric]
    using baseJ by (simp add: clone view_node_Obj post_node_Obj H_def [symmetric] Q_def [symmetric]
        qs_def [symmetric]) (simp add: qs_def base_jsonify_view)
qed

lemma objToArray_falsy: "\<not> truthy v \<Longrightarrow> objToArray v = Undef"
  by (cases v) (auto simp: objToArray_def for_in_def)

lemma repost_no_rows:
  assumes "\<not> truthy (mem ps ''headers'')" and "\<not> truthy (mem ps ''queries'')"
  shows "post_node (Obj ps) = repost ps"
  using assms by (simp add: post_node_Obj repost_def put_back_def objToArray_falsy)

section \<open>A whole case, there and back\<close>

lemma has_rows_Obj: "has_rows (Obj ps) = Inr (truthy (mem ps ''headers'') \<or> truthy (mem ps ''queries''))"
  by (simp add: has_rows_def js_or_def mem_def)

text \<open>The rows of a node as the form holds them, and what \<open>postToView\<close> returns.\<close>

definition view_props :: "props \<Rightarrow> props" where
  "view_props n = own_put ''queries'' (objToArray (mem n ''queries'')) (own_put ''headers'' (objToArray (mem n ''headers'')) n)"

lemma postToView_Obj:
  assumes json: "json_value (Obj ps)" and trace: "map_of ps ''trace'' = Some (Arr (map Obj nodes))"
  shows "postToView (Obj ps) = Inr (
    if \<exists>n\<in>set nodes. truthy (mem n ''headers'') \<or> truthy (mem n ''queries'')
    then Obj (own_put ''trace'' (Arr (map (\<lambda>n. Obj (view_props n)) nodes)) ps) else Obj ps)"
proof -
  define flags where "flags = map (\<lambda>n. truthy (mem n ''headers'') \<or> truthy (mem n ''queries'')) nodes"
  have "rmap has_rows (map Obj nodes) = Inr flags"
    unfolding flags_def by (simp add: rmap_map has_rows_Obj rmap_Inr_map)
  moreover have "0 < length (filter (\<lambda>b. b) flags) \<longleftrightarrow> (\<exists>n\<in>set nodes. truthy (mem n ''headers'') \<or> truthy (mem n ''queries''))"
    by (auto simp: flags_def filter_empty_conv)
  moreover have "rmap view_node (map Obj nodes) = Inr (map (\<lambda>n. Obj (view_props n)) nodes)"
    unfolding rmap_map by (rule rmap_Inr_map) (simp add: view_node_Obj view_props_def)
  ultimately show ?thesis
    using trace jsonify_json_value [OF json] by (simp add: postToView_def json_clone_def set_member_Obj del: map_map)
qed

text \<open>
  The composite of the two conversions on a JSON document whose trace is a list of objects:
  every node is reposted, the trace is replaced, \<open>validate\<close> is dropped. Whether some node has
  rows decides which branch \<open>postToView\<close> takes, and the outcome is the same.
\<close>

theorem view_then_post:
  assumes json: "json_value (Obj ps)" and wf: "wf_js (Obj ps)"
    and trace: "map_of ps ''trace'' = Some (Arr (map Obj nodes))"
  shows "rbind (postToView (Obj ps)) viewToPost =
    rbind (rmap repost nodes) (\<lambda>xs. Inr (Obj (own_del ''validate'' (own_put ''trace'' (Arr xs) ps))))"
proof -
  have node: "json_value (Obj n)" "props_wf n" if "n \<in> set nodes" for n
  proof -
    have "(''trace'', Arr (map Obj nodes)) \<in> set ps" using trace by (rule map_of_SomeD)
    then have "json_value (Arr (map Obj nodes))" "wf_js (Arr (map Obj nodes))" using json wf by auto
    with that show "json_value (Obj n)" "props_wf n" by (auto simp: list_all_iff)
  qed
  have nclone: "jsonify (Obj n) = Obj n" if "n \<in> set nodes" for n
    using jsonify_json_value node(1) [OF that] .
  have post: "viewToPost (Obj qs) = rbind (rmap post_node (map jsonify ns)) (\<lambda>xs.
      Inr (Obj (own_del ''validate'' (own_put ''trace'' (Arr xs) (jsonify_props qs)))))"
    if "map_of qs ''trace'' = Some (Arr ns)" and "distinct (map fst qs)" for qs ns
    using that by (simp add: viewToPost_def json_clone_def map_of_jsonify_props set_member_Obj rmap_map)
  show ?thesis
  proof (cases "\<exists>n\<in>set nodes. truthy (mem n ''headers'') \<or> truthy (mem n ''queries'')")
    case False
    have "rmap post_node (map jsonify (map Obj nodes)) = rmap repost nodes"
      unfolding rmap_map using False nclone
      by (intro rmap_cong refl) (simp add: repost_no_rows del: jsonify_Obj)
    then show ?thesis
      using post [OF trace] wf jsonify_json_value [OF json] False
      by (simp add: postToView_Obj [OF json trace] props_wf_def del: map_map)
  next
    case True
    define qs where "qs = view_props"
    have "postToView (Obj ps) = Inr (Obj (own_put ''trace'' (Arr (map (\<lambda>n. Obj (qs n)) nodes)) ps))"
      using True by (simp add: postToView_Obj [OF json trace] qs_def)
    moreover have "rmap post_node (map jsonify (map (\<lambda>n. Obj (qs n)) nodes)) = rmap repost nodes"
      unfolding rmap_map
    proof (intro rmap_cong refl)
      fix n assume n: "n \<in> set nodes"
      have "rbind (view_node (jsonify (Obj n))) (\<lambda>m. post_node (jsonify m)) = repost n"
        by (rule post_view_node [OF node [OF n]])
      then show "post_node (jsonify (Obj (qs n))) = repost n"
        using nclone [OF n] by (simp add: view_node_Obj qs_def view_props_def)
    qed
    moreover have "own_put ''trace'' (Arr xs) (jsonify_props (own_put ''trace'' (Arr (map (\<lambda>n. Obj (qs n)) nodes)) ps))
      = own_put ''trace'' (Arr xs) ps" for xs
    proof -
      have own: "has_own ''trace'' ps" using trace by (simp add: has_own_map_of)
      then have "has_own ''trace'' (jsonify_props (own_put ''trace'' (Arr (map (\<lambda>n. Obj (qs n)) nodes)) ps))"
        using wf by (simp add: has_own_map_of map_of_jsonify_props wf_own_put_distinct own_simps)
      with own show ?thesis
        using overwrite_jsonify_props [OF _ json] jsonify_json_value [OF json] by (simp add: own_put_def)
    qed
    ultimately show ?thesis
      using post [of "own_put ''trace'' (Arr (map (\<lambda>n. Obj (qs n)) nodes)) ps" "map (\<lambda>n. Obj (qs n)) nodes"]
        wf by (simp add: own_simps wf_own_put_distinct del: map_map)
  qed
qed

section \<open>Which documents the form can show\<close>

definition is_container :: "jsv \<Rightarrow> bool" where
  "is_container v = (case v of Arr _ \<Rightarrow> True | Obj _ \<Rightarrow> True | _ \<Rightarrow> False)"

definition member_of :: "jsv \<Rightarrow> string \<Rightarrow> jsv" where
  "member_of v k = (case get_member v k of Inr x \<Rightarrow> x | Inl _ \<Rightarrow> Undef)"

definition viewable :: "jsv \<Rightarrow> bool" where
  "viewable v = (case member_of v ''trace'' of
      Arr xs \<Rightarrow> list_all (\<lambda>x. x \<noteq> Undef \<and> x \<noteq> Null) xs \<and>
        (list_ex (\<lambda>x. truthy (member_of x ''headers'') \<or> truthy (member_of x ''queries'')) xs
          \<longrightarrow> list_all is_container xs)
    | _ \<Rightarrow> False)"

lemma get_member_ok: "v \<noteq> Undef \<Longrightarrow> v \<noteq> Null \<Longrightarrow> get_member v k = Inr (member_of v k)"
  by (cases v) (auto simp: get_member_def member_of_def)

lemma get_member_err: "v = Undef \<or> v = Null \<Longrightarrow> get_member v k = Inl TypeError"
  by (auto simp: get_member_def)

lemma has_rows_eq: "has_rows x = (if x = Undef \<or> x = Null then Inl TypeError
    else Inr (truthy (member_of x ''headers'') \<or> truthy (member_of x ''queries'')))"
  by (simp add: has_rows_def get_member_ok get_member_err js_or_def)

lemma rmap_error:
  "x \<in> set xs \<Longrightarrow> f x = Inl e \<Longrightarrow> (\<And>y d. y \<in> set xs \<Longrightarrow> f y = Inl d \<Longrightarrow> d = e) \<Longrightarrow> rmap f xs = Inl e"
proof (induction xs)
  case (Cons y ys)
  show ?case
  proof (cases "f y")
    case (Inl d)
    with Cons.prems(3) [of y d] show ?thesis by simp
  next
    case (Inr z)
    with Cons.prems(1,2) have "x \<in> set ys" by auto
    then have "rmap f ys = Inl e"
      using Cons.prems(2) by (rule Cons.IH) (metis Cons.prems(3) list.set_intros(2))
    with Inr show ?thesis by simp
  qed
qed simp

lemma is_container_jsonify: "is_container (jsonify x) = is_container x"
  by (cases x) (auto simp: is_container_def)

lemma view_node_container: "is_container x \<Longrightarrow> is_ok (view_node x)"
  by (cases x) (auto simp: is_container_def view_node_Obj view_node_def get_member_def set_member_def)

lemma view_node_primitive: "\<not> is_container x \<Longrightarrow> view_node x = Inl TypeError"
  by (cases x) (auto simp: is_container_def view_node_def get_member_def set_member_def)

lemma member_of_Arr_Obj: "member_of v ''trace'' = Arr xs \<Longrightarrow> \<exists>ps. v = Obj ps \<and> map_of ps ''trace'' = Some (Arr xs)"
  by (cases v) (auto simp: member_of_def get_member_def split: option.splits)

text \<open>
  \<open>postToView\<close> returns for exactly the viewable documents and throws a \<open>TypeError\<close> for every
  other.
\<close>

lemma postToView_ok: "viewable v \<Longrightarrow> is_ok (postToView v)"
proof -
  assume view: "viewable v"
  then obtain xs where xs: "member_of v ''trace'' = Arr xs" by (auto simp: viewable_def split: jsv.splits)
  then obtain ps where v: "v = Obj ps" "map_of ps ''trace'' = Some (Arr xs)" using member_of_Arr_Obj by blast
  define flags where "flags = map (\<lambda>x. truthy (member_of x ''headers'') \<or> truthy (member_of x ''queries'')) xs"
  from view xs have "rmap has_rows xs = Inr flags"
    unfolding flags_def by (intro rmap_Inr_map) (auto simp: has_rows_eq viewable_def list_all_iff)
  note simps = this v postToView_def json_clone_def
  show ?thesis
  proof (cases "filter (\<lambda>b. b) flags = []")
    case True
    then show ?thesis by (simp add: simps)
  next
    case False
    then have "list_all is_container xs"
      using view xs by (auto simp: viewable_def flags_def list_ex_iff filter_empty_conv)
    moreover have "mem (jsonify_props ps) ''trace'' = Arr (map jsonify xs)"
      using v(2) by (induction ps) (auto simp: mem_def jsonify_props_def defined_props_def split: if_splits)
    ultimately show ?thesis using False
      by (auto simp: simps mem_def set_member_Obj is_ok_rbind is_ok_rmap list_all_iff
          is_container_jsonify view_node_container simp flip: is_ok_iff)
  qed
qed

lemma postToView_error: "\<not> viewable v \<Longrightarrow> postToView v = Inl TypeError"
proof -
  assume nv: "\<not> viewable v"
  show ?thesis
  proof (cases "\<exists>xs. member_of v ''trace'' = Arr xs")
    case False
    then have "get_member v ''trace'' = Inl TypeError \<or> (\<exists>t. get_member v ''trace'' = Inr t \<and> array_items t = Inl TypeError)"
      by (cases v) (auto simp: member_of_def get_member_def array_items_def split: jsv.splits option.splits)
    then show ?thesis by (auto simp: postToView_def)
  next
    case True
    then obtain xs where xs: "member_of v ''trace'' = Arr xs" by blast
    then obtain ps where v: "v = Obj ps" "map_of ps ''trace'' = Some (Arr xs)" using member_of_Arr_Obj by blast
    show ?thesis
    proof (cases "\<exists>x\<in>set xs. x = Undef \<or> x = Null")
      case True
      then obtain x where x: "x \<in> set xs" "has_rows x = Inl TypeError" by (auto simp: has_rows_eq)
      have "d = TypeError" if "has_rows y = Inl d" for y d
        using that by (auto simp: has_rows_eq split: if_splits)
      with x have "rmap has_rows xs = Inl TypeError" by (rule rmap_error)
      with v show ?thesis by (simp add: postToView_def)
    next
      case False
      define flags where "flags = map (\<lambda>x. truthy (member_of x ''headers'') \<or> truthy (member_of x ''queries'')) xs"
      from False have f: "rmap has_rows xs = Inr flags"
        unfolding flags_def by (intro rmap_Inr_map) (auto simp: has_rows_eq)
      from nv False xs have some: "filter (\<lambda>b. b) flags \<noteq> []" "\<exists>x\<in>set xs. \<not> is_container x"
        by (auto simp: viewable_def flags_def list_ex_iff list_all_iff filter_empty_conv)
      have "mem (jsonify_props ps) ''trace'' = Arr (map jsonify xs)"
        using v(2) by (induction ps) (auto simp: mem_def jsonify_props_def defined_props_def split: if_splits)
      moreover have "rmap view_node (map jsonify xs) = Inl TypeError"
      proof -
        obtain x where "x \<in> set xs" "\<not> is_container x" using some(2) by blast
        then have "jsonify x \<in> set (map jsonify xs)" "view_node (jsonify x) = Inl TypeError"
          by (auto simp: view_node_primitive is_container_jsonify)
        then show ?thesis
          by (rule rmap_error) (metis is_ok_simps(2) sum.inject(1) view_node_container view_node_primitive)
      qed
      ultimately show ?thesis using f v some(1) by (simp add: postToView_def json_clone_def mem_def)
    qed
  qed
qed

section \<open>What the conversions keep\<close>

lemma rmap_set: "rmap f xs = Inr ys \<Longrightarrow> y \<in> set ys \<Longrightarrow> \<exists>x\<in>set xs. f x = Inr y"
  unfolding rmap_eq_Inr by (rule list_all2_set2)

lemma wf_json_set_member:
  "set_member v k x = Inr w \<Longrightarrow> wf_js v \<Longrightarrow> json_value v \<Longrightarrow> wf_js x \<Longrightarrow> json_value x \<Longrightarrow>
    array_index k = None \<Longrightarrow> k \<noteq> ''length'' \<Longrightarrow> wf_js w \<and> json_value w"
  by (cases v) (auto simp: set_member_def simp del: wf_js_Obj_iff json_value_Obj_iff
      intro: wf_intros split: if_splits)

lemma wf_json_del_member:
  "del_member v k = Inr w \<Longrightarrow> wf_js v \<Longrightarrow> json_value v \<Longrightarrow> wf_js w \<and> json_value w"
  by (cases v) (auto simp: del_member_def simp del: wf_js_Obj_iff json_value_Obj_iff intro: wf_intros)

lemma wf_json_get_member:
  "get_member v k = Inr x \<Longrightarrow> k \<noteq> ''length'' \<Longrightarrow> wf_js v \<Longrightarrow> json_value v \<Longrightarrow> x \<noteq> Undef \<Longrightarrow> wf_js x \<and> json_value x"
  by (cases v) (auto simp: get_member_def arr_index_def str_index_def list_all_length
      split: option.splits if_splits dest: map_of_SomeD)

definition json_props :: "props \<Rightarrow> bool" where
  "json_props ps \<longleftrightarrow> wf_js (Obj ps) \<and> json_value (Obj ps)"

lemma json_props_assign:
  "json_props (own r) \<Longrightarrow> wf_js v \<Longrightarrow> json_value v \<Longrightarrow> json_props (own (assign k v r))"
  by (auto simp: json_props_def assign_def simp del: wf_js_Obj_iff json_value_Obj_iff
      intro: wf_intros split: jsv.split)

lemma add_row_keeps:
  assumes "add_row h r = Inr r'" and "wf_js h" and "json_value h" and "json_props (own r)"
  shows "json_props (own r')"
proof -
  from assms(1) obtain keep where keep: "keep_row h = Inr keep" by (auto simp: add_row_def rbind_eq_Inr)
  show ?thesis
  proof (cases keep)
    case True
    with assms(1) keep obtain key v where v: "get_member h ''value'' = Inr v" and r': "r' = assign key v r"
      by (auto simp: add_row_def rbind_eq_Inr)
    have "v \<noteq> Undef"
      using keep v True by (auto simp: keep_row_def rbind_eq_Inr split: if_splits)
    with v assms(2,3) have "wf_js v" "json_value v"
      using wf_json_get_member [of h "''value''" v] by auto
    with assms(4) show ?thesis unfolding r' by (rule json_props_assign)
  qed (use assms keep in \<open>simp add: add_row_def\<close>)
qed

lemma arrayToObj_eq_Inr:
  "arrayToObj kvs = Inr res \<longleftrightarrow> (\<exists>hs r. kvs = Arr hs \<and> rfold add_row hs empty_object = Inr r \<and>
    res = (if own r \<noteq> [] \<or> for_in (proto r) \<noteq> [] then Obj (own r) else Undef))"
  unfolding arrayToObj_def rbind_eq_Inr array_items_eq_Inr by blast

lemma arrayToObj_keeps:
  assumes "arrayToObj kvs = Inr res" and "wf_js kvs" and "json_value kvs" and "truthy res"
  shows "\<exists>ps. res = Obj ps \<and> json_props ps"
proof -
  from assms(1) obtain hs r where kvs: "kvs = Arr hs" and r: "rfold add_row hs empty_object = Inr r"
    and res: "res = (if own r \<noteq> [] \<or> for_in (proto r) \<noteq> [] then Obj (own r) else Undef)"
    unfolding arrayToObj_eq_Inr by blast
  have "json_props (own r)"
  proof (rule rfold_invariant [OF r, of "\<lambda>r. json_props (own r)"])
    show "json_props (own empty_object)" by (simp add: empty_object_def json_props_def)
    show "json_props (own t)" if "h \<in> set hs" "json_props (own s)" "add_row h s = Inr t" for h s t
      using add_row_keeps [OF that(3)] that(1,2) assms(2,3) kvs by (simp add: list_all_iff)
  qed
  with res assms(4) show ?thesis by (auto split: if_splits)
qed

lemma put_back_keeps:
  assumes "put_back key rows tr = Inr tr'" and "wf_js tr \<and> json_value tr"
    and "rows = Undef \<or> wf_js rows \<and> json_value rows" and "key = ''headers'' \<or> key = ''queries''"
  shows "wf_js tr' \<and> json_value tr'"
proof (cases "tr' = tr")
  case False
  with assms(1) obtain res where res: "arrayToObj rows = Inr res" "truthy res" and s: "set_member tr key res = Inr tr'"
    and "truthy rows"
    by (auto simp: put_back_def rbind_eq_Inr split: if_splits)
  then have "wf_js res \<and> json_value res"
    using arrayToObj_keeps [OF res(1)] assms(3) by (auto simp: json_props_def)
  with s assms(2,4) show ?thesis using wf_json_set_member [OF s] by auto
qed (use assms in simp)

lemma post_node_keeps:
  assumes "post_node tr = Inr tr'" and "wf_js tr" and "json_value tr"
  shows "wf_js tr' \<and> json_value tr'"
proof -
  from assms(1) obtain headers queries t1 t2 t3 where h: "get_member tr ''headers'' = Inr headers"
    and q: "get_member tr ''queries'' = Inr queries"
    and d: "del_member tr ''headers'' = Inr t1" "del_member t1 ''queries'' = Inr t2"
    and p: "put_back ''headers'' headers t2 = Inr t3" "put_back ''queries'' queries t3 = Inr tr'"
    unfolding post_node_def rbind_eq_Inr by blast
  have "wf_js t2 \<and> json_value t2" using d wf_json_del_member assms(2,3) by blast
  moreover have "headers = Undef \<or> wf_js headers \<and> json_value headers" "queries = Undef \<or> wf_js queries \<and> json_value queries"
    using wf_json_get_member [OF h] wf_json_get_member [OF q] assms(2,3) by auto
  ultimately show ?thesis using put_back_keeps [OF p(1)] put_back_keeps [OF p(2)] by blast
qed

text \<open>What is posted is a well-formed JSON document.\<close>

lemma posted_wf_json:
  assumes "viewToPost d = Inr p" and "wf_js d"
  shows "wf_js p \<and> json_value p"
proof -
  from assms(1) obtain trace xs ys data' where c: "d \<noteq> Undef" and t: "get_member (jsonify d) ''trace'' = Inr (Arr xs)"
    and y: "rmap post_node xs = Inr ys" and s: "set_member (jsonify d) ''trace'' (Arr ys) = Inr data'"
    and p: "del_member data' ''validate'' = Inr p"
    by (auto simp: viewToPost_def rbind_eq_Inr json_clone_eq_Inr array_items_eq_Inr)
  have j: "wf_js (jsonify d)" "json_value (jsonify d)" using assms(2) by (auto intro: wf_intros)
  have "wf_js (Arr xs) \<and> json_value (Arr xs)" using wf_json_get_member [OF t] j by simp
  then have "wf_js (Arr ys) \<and> json_value (Arr ys)"
    using rmap_set [OF y] post_node_keeps by (force simp: list_all_iff)
  then have "wf_js data' \<and> json_value data'" using wf_json_set_member [OF s] j by simp
  then show ?thesis using wf_json_del_member [OF p] by blast
qed

end
