(* ===== verification/CaseViews.thy ===== *)
theory CaseViews
  imports DataTs JsonText
begin

text \<open>
  The properties of the two conversions of \<open>data.ts\<close>: when each returns, what shape each
  result has, and what a case keeps on its way to the form and back.
\<close>

section \<open>Cases\<close>

definition put_defined :: "string \<Rightarrow> jsv \<Rightarrow> props \<Rightarrow> props" where
  "put_defined k v ps = (if v = Undef then ps else own_put k v ps)"

text \<open>
  A node with its headers and then its queries moved behind its other members, the order in
  which \<open>viewToPost\<close> leaves them.
\<close>

definition reorder_node :: "props \<Rightarrow> props" where
  "reorder_node ps = put_defined ''queries'' (mem ps ''queries'') (put_defined ''headers'' (mem ps ''headers'') (base ps))"

definition reorder :: "jsv \<Rightarrow> jsv" where
  "reorder v = (case v of
      Obj ps \<Rightarrow> (case mem ps ''trace'' of
          Arr xs \<Rightarrow> Obj (own_put ''trace'' (Arr (map (\<lambda>x. case x of Obj n \<Rightarrow> Obj (reorder_node n) | _ \<Rightarrow> x) xs)) ps)
        | _ \<Rightarrow> v)
    | _ \<Rightarrow> v)"

definition clean_node :: "jsv \<Rightarrow> bool" where
  "clean_node v = (case v of
      Obj n \<Rightarrow> (mem n ''headers'' = Undef \<or> clean_rows (mem n ''headers'')) \<and>
        (mem n ''queries'' = Undef \<or> clean_rows (mem n ''queries''))
    | _ \<Rightarrow> False)"

text \<open>
  A request case in the posted form: a JSON document whose trace is a list of objects, each
  with headers and queries that are absent or objects of usable rows, and without the form's
  own \<open>validate\<close> flag.
\<close>

definition clean_case :: "jsv \<Rightarrow> bool" where
  "clean_case v \<longleftrightarrow> json_value v \<and> wf_js v \<and> (case v of
      Obj ps \<Rightarrow> \<not> has_own ''validate'' ps \<and>
        (case mem ps ''trace'' of Arr xs \<Rightarrow> list_all clean_node xs | _ \<Rightarrow> False)
    | _ \<Rightarrow> False)"

definition same_members :: "jsv \<Rightarrow> jsv \<Rightarrow> bool" where
  "same_members v w = (case (v, w) of (Obj ps, Obj qs) \<Rightarrow> distinct (map fst qs) \<and> set ps = set qs | _ \<Rightarrow> v = w)"

text \<open>The same case up to the order of the members inside its nodes.\<close>

definition same_field :: "string \<times> jsv \<Rightarrow> string \<times> jsv \<Rightarrow> bool" where
  "same_field p q = (case (p, q) of ((k, x), (j, y)) \<Rightarrow> k = j \<and>
     (if k = ''trace'' then (case (x, y) of (Arr xs, Arr ys) \<Rightarrow> list_all2 same_members xs ys | _ \<Rightarrow> False)
      else x = y))"

definition same_case :: "jsv \<Rightarrow> jsv \<Rightarrow> bool" where
  "same_case v w = (case (v, w) of (Obj ps, Obj qs) \<Rightarrow> list_all2 same_field ps qs | _ \<Rightarrow> False)"

section \<open>There and back\<close>

lemma clean_caseE:
  assumes "clean_case v"
  obtains ps nodes where "v = Obj ps" and "map_of ps ''trace'' = Some (Arr (map Obj nodes))"
    and "json_value (Obj ps)" and "wf_js (Obj ps)" and "\<not> has_own ''validate'' ps"
    and "\<And>n. n \<in> set nodes \<Longrightarrow> clean_node (Obj n)"
proof -
  from assms obtain ps xs where v: "v = Obj ps" and t: "map_of ps ''trace'' = Some (Arr xs)"
    and n: "list_all clean_node xs"
    by (auto simp: clean_case_def mem_def split: jsv.splits option.splits)
  have "\<exists>nodes. xs = map Obj nodes"
    using n by (induction xs) (auto simp: clean_node_def split: jsv.splits intro!: exI [of _ "_ # _"])
  with that [of ps] v t n assms show ?thesis by (auto simp: clean_case_def list_all_iff)
qed

lemma props_wf_mem_Obj: "wf_js (Obj ps) \<Longrightarrow> mem ps k = Obj rs \<Longrightarrow> props_wf rs"
  using wf_js_member [of ps k "Obj rs"] by (auto simp: mem_def split: option.splits)

lemma put_back_clean:
  assumes "v = Undef \<or> clean_rows v" and "\<And>rs. v = Obj rs \<Longrightarrow> props_wf rs" and "k \<noteq> ''__proto__''"
  shows "put_back k (objToArray v) (Obj b) = Inr (Obj (put_defined k v b))"
proof (cases "v = Undef")
  case False
  with assms(1) obtain rs where v: "v = Obj rs" and c: "clean_rows (Obj rs)"
    by (auto simp: clean_rows_def split: jsv.splits)
  then have "arrayToObj (objToArray v) = Inr (Obj rs)" using rows_round_trip assms(2) by blast
  moreover have "truthy (objToArray v)" using v c by (simp add: objToArray_Obj clean_rows_def)
  ultimately show ?thesis using v assms(3) by (simp add: put_back_def set_member_Obj put_defined_def)
qed (simp add: put_back_def objToArray_def put_defined_def)

lemma repost_clean:
  assumes "clean_node (Obj n)" and "wf_js (Obj n)"
  shows "repost n = Inr (Obj (reorder_node n))"
  using assms put_back_clean [of "mem n ''headers''" "''headers''"] put_back_clean [of "mem n ''queries''" "''queries''"]
    props_wf_mem_Obj [OF assms(2)]
  by (simp add: repost_def reorder_node_def clean_node_def)

lemma trace_nodes_wf:
  "wf_js (Obj ps) \<Longrightarrow> map_of ps k = Some (Arr (map Obj nodes)) \<Longrightarrow> n \<in> set nodes \<Longrightarrow> wf_js (Obj n)"
  by (drule (1) wf_js_member) (auto simp: list_all_iff)

lemma mem_put_defined: "k \<noteq> j \<Longrightarrow> mem (put_defined k v ps) j = mem ps j"
  "v \<noteq> Undef \<Longrightarrow> mem (put_defined k v ps) k = v"
  by (auto simp: put_defined_def mem_def own_simps)

lemma map_of_reorder_node: "(\<forall>k v. map_of n k = Some v \<longrightarrow> v \<noteq> Undef) \<Longrightarrow> map_of (reorder_node n) = map_of n"
  by (auto simp: reorder_node_def put_defined_def base_def mem_def own_simps fun_eq_iff split: option.splits)

lemma props_wf_reorder_node: "props_wf n \<Longrightarrow> props_wf (reorder_node n)"
  unfolding reorder_node_def put_defined_def base_def by (auto intro: wf_intros)

lemma same_members_reorder:
  assumes "json_value (Obj n)" and "wf_js (Obj n)"
  shows "same_members (Obj n) (Obj (reorder_node n))"
proof -
  have "\<forall>k v. map_of n k = Some v \<longrightarrow> v \<noteq> Undef"
    using json_value_member [OF assms(1)] json_value_not_Undef by blast
  then have "map_of n = map_of (reorder_node n)" by (simp add: map_of_reorder_node)
  moreover have d: "distinct (map fst n)" "distinct (map fst (reorder_node n))"
    using assms(2) props_wf_reorder_node [of n] by (auto simp: props_wf_def)
  ultimately show ?thesis by (simp add: same_members_def map_of_inject_set)
qed

lemma reorder_case:
  "map_of ps ''trace'' = Some (Arr (map Obj nodes)) \<Longrightarrow>
    reorder (Obj ps) = Obj (own_put ''trace'' (Arr (map (\<lambda>n. Obj (reorder_node n)) nodes)) ps)"
  by (simp add: reorder_def mem_def comp_def)

lemma same_case_reorder:
  assumes "clean_case v"
  shows "same_case v (reorder v)"
  using assms
proof (rule clean_caseE)
  fix ps nodes
  assume v: "v = Obj ps" "map_of ps ''trace'' = Some (Arr (map Obj nodes))"
    and j: "json_value (Obj ps)" and w: "wf_js (Obj ps)"
  define ys where "ys = map (\<lambda>n. Obj (reorder_node n)) nodes"
  have jn: "json_value (Obj n)" if "n \<in> set nodes" for n
    using json_value_member [OF j v(2)] that by (simp add: list_all_iff)
  have nodes: "list_all2 same_members (map Obj nodes) ys"
    unfolding ys_def using jn trace_nodes_wf [OF w v(2)]
    by (auto simp: list.rel_map intro!: list.rel_refl_strong same_members_reorder simp del: wf_js_Obj_iff json_value_Obj_iff)
  have "list_all2 same_field qs (overwrite ''trace'' (Arr ys) qs)"
    if "\<forall>x. (''trace'', x) \<in> set qs \<longrightarrow> x = Arr (map Obj nodes)" for qs
    using that
  proof (induction qs)
    case (Cons p qs)
    obtain k x where p: "p = (k, x)" by (cases p)
    have "k = ''trace'' \<longrightarrow> x = Arr (map Obj nodes)" using Cons.prems p by simp
    then have "same_field (k, x) (k, if k = ''trace'' then Arr ys else x)"
      using nodes by (cases "k = ''trace''") (simp_all add: same_field_def)
    moreover have "list_all2 same_field qs (overwrite ''trace'' (Arr ys) qs)"
      using Cons.prems by (intro Cons.IH) simp
    ultimately show ?case unfolding p overwrite.simps list_all2_Cons by (rule conjI)
  qed simp
  moreover have "\<forall>x. (''trace'', x) \<in> set ps \<longrightarrow> x = Arr (map Obj nodes)"
  proof (intro allI impI)
    fix x assume "(''trace'', x) \<in> set ps"
    with w have "map_of ps ''trace'' = Some x" by (simp add: props_wf_def)
    with v(2) show "x = Arr (map Obj nodes)" by simp
  qed
  ultimately show ?thesis
    using v reorder_case [OF v(2)] by (simp add: same_case_def own_put_def has_own_map_of ys_def)
qed

lemma clean_case_round_trip:
  assumes "clean_case v"
  shows "rbind (postToView v) viewToPost = Inr (reorder v)"
  using assms
proof (rule clean_caseE)
  fix ps nodes
  assume v: "v = Obj ps" and t: "map_of ps ''trace'' = Some (Arr (map Obj nodes))"
    and j: "json_value (Obj ps)" and w: "wf_js (Obj ps)" and nv: "\<not> has_own ''validate'' ps"
    and clean: "\<And>n. n \<in> set nodes \<Longrightarrow> clean_node (Obj n)"
  have "rmap repost nodes = Inr (map (\<lambda>n. Obj (reorder_node n)) nodes)"
    using repost_clean [OF clean] trace_nodes_wf [OF w t] by (intro rmap_Inr_map) blast
  moreover have "own_del ''validate'' (own_put ''trace'' x ps) = own_put ''trace'' x ps" for x
    using nv by (intro own_del_absent) (simp add: has_own_map_of own_simps)
  ultimately show ?thesis
    using view_then_post [OF j w t] v reorder_case [OF t] by simp
qed

text \<open>
  C3. A request case whose headers and queries the form can hold is the same case when it is
  shown and posted again unedited: every member of the document and of every trace node comes
  back with its value; only the position of \<open>headers\<close> and \<open>queries\<close> inside a node may change
  (they move to its end). What the form can hold (\<open>clean_case\<close>): a trace of objects, in which
  headers and queries are absent or non-empty objects with names other than the empty one and
  \<open>__proto__\<close> and with values the guard keeps, as non-empty texts are, and no \<open>validate\<close>.
\<close>
theorem case_round_trip:
  assumes "clean_case v"
  shows "rbind (postToView v) viewToPost = Inr (reorder v) \<and> same_case v (reorder v)"
  using clean_case_round_trip [OF assms] same_case_reorder [OF assms] by blast

definition example_case :: jsv where
  "example_case = Obj [(''name'', Str ''demo''), (''trace'', Arr [
     Obj [(''headers'', Obj [(''host'', Str ''a.b''), (''x-id'', Str ''7'')]), (''method'', Str ''GET'')],
     Obj [(''call'', Str ''b'')]])]"

theorem case_round_trip_witness:
  "rbind (postToView example_case) viewToPost = Inr (reorder example_case) \<and>
    same_case example_case (reorder example_case)"
proof (rule case_round_trip)
  show "clean_case example_case" by code_simp
qed

section \<open>When the conversions return, and what they keep\<close>

text \<open>
  C29. \<open>postToView\<close> returns for exactly the documents whose trace is a list without
  \<open>null\<close> elements, all objects or lists as soon as one has rows, and throws a
  \<open>TypeError\<close> for every other value.
\<close>
theorem postToView_outcome:
  "is_ok (postToView v) = viewable v \<and> (postToView v = Inl TypeError) = (\<not> viewable v)"
  using postToView_ok [of v] postToView_error [of v] by (cases "viewable v") auto

text \<open>
  C34. Whatever \<open>viewToPost\<close> returns is a well-formed JSON document, for any well-formed
  form value.
\<close>
theorem viewToPost_json:
  assumes "viewToPost d = Inr p" and "wf_js d"
  shows "wf_js p \<and> json_value p"
  using posted_wf_json [OF assms] .

theorem viewToPost_json_witness:
  "wf_js (Obj [(''trace'', Arr [Obj []])]) \<and> json_value (Obj [(''trace'', Arr [Obj []])])"
proof (rule viewToPost_json [of "Obj [(''trace'', Arr [Obj [(''headers'', Undef)]])]"])
  show "viewToPost (Obj [(''trace'', Arr [Obj [(''headers'', Undef)]])]) = Inr (Obj [(''trace'', Arr [Obj []])])"
    by code_simp
qed (simp add: props_wf_def)

lemma kept_order: "props_wf rs \<Longrightarrow> put_all own_put (kept rs) [] = kept rs"
  by (simp add: own.entries_put_all_sorted props_wf_def kept_def
      distinct_map_fst_filter sorted_wrt_map_fst_filter)

lemma rows_through_form:
  assumes "props_wf rs" and "judged rs" and "rs \<noteq> []" and "list_all (\<lambda>(k, v). k \<noteq> ''__proto__'') rs"
  shows "arrayToObj (objToArray (Obj rs)) = Inr (if kept rs = [] then Undef else Obj (kept rs))"
  using arrayToObj_rows [OF assms(2,4)] assms(3) kept_order [OF assms(1)] by (simp add: objToArray_Obj Let_def)

text \<open>
  A header or query object that goes to the form and back loses exactly the members with
  an empty name and those whose value has no positive \<open>length\<close>: numbers, booleans, nulls,
  empty texts and nested objects. If nothing is left, the member itself disappears.
\<close>
theorem rows_kept:
  assumes "props_wf rs" and "judged rs" and "rs \<noteq> []" and "list_all (\<lambda>(k, v). k \<noteq> ''__proto__'') rs"
  shows "arrayToObj (objToArray (Obj rs)) = Inr (if kept rs = [] then Undef else Obj (kept rs))"
  by (rule rows_through_form [OF assms])

theorem rows_kept_witness:
  "arrayToObj (objToArray (Obj [(''a'', Str ''x''), (''n'', Num (js_nat 7)), (''b'', Bool True)])) =
    Inr (Obj [(''a'', Str ''x'')])"
proof -
  let ?rs = "[(''a'', Str ''x''), (''n'', Num (js_nat 7)), (''b'', Bool True)]"
  have "props_wf ?rs" "judged ?rs" by code_simp+
  then have "arrayToObj (objToArray (Obj ?rs)) = Inr (if kept ?rs = [] then Undef else Obj (kept ?rs))"
    by (rule rows_kept) simp_all
  moreover have "kept ?rs = [(''a'', Str ''x'')]" by code_simp
  ultimately show ?thesis by simp
qed

text \<open>
  Nodes as any server or text may give them: headers and queries are objects whose values the
  loop can judge, or anything falsy. What the form leaves of them:
\<close>

definition plain_rows :: "jsv \<Rightarrow> bool" where
  "plain_rows v = (case v of
      Obj rs \<Rightarrow> judged rs \<and> list_all (\<lambda>(k, v). k \<noteq> ''__proto__'') rs
    | _ \<Rightarrow> \<not> truthy v)"

definition plain_node :: "jsv \<Rightarrow> bool" where
  "plain_node v = (case v of Obj n \<Rightarrow> plain_rows (mem n ''headers'') \<and> plain_rows (mem n ''queries'') | _ \<Rightarrow> False)"

definition plain_case :: "jsv \<Rightarrow> bool" where
  "plain_case v \<longleftrightarrow> json_value v \<and> wf_js v \<and> (case v of
      Obj ps \<Rightarrow> (case mem ps ''trace'' of Arr xs \<Rightarrow> list_all plain_node xs | _ \<Rightarrow> False) | _ \<Rightarrow> False)"

definition kept_rows :: "jsv \<Rightarrow> jsv" where
  "kept_rows v = (case v of Obj rs \<Rightarrow> if kept rs = [] then Undef else Obj (kept rs) | _ \<Rightarrow> Undef)"

definition kept_node :: "jsv \<Rightarrow> jsv" where
  "kept_node v = (case v of
      Obj n \<Rightarrow> Obj (put_defined ''queries'' (kept_rows (mem n ''queries''))
        (put_defined ''headers'' (kept_rows (mem n ''headers'')) (base n)))
    | _ \<Rightarrow> v)"

definition kept_case :: "jsv \<Rightarrow> jsv" where
  "kept_case v = (case v of
      Obj ps \<Rightarrow> (case mem ps ''trace'' of
          Arr xs \<Rightarrow> Obj (own_del ''validate'' (own_put ''trace'' (Arr (map kept_node xs)) ps))
        | _ \<Rightarrow> v)
    | _ \<Rightarrow> v)"

lemma put_back_kept:
  assumes "plain_rows v" and "\<And>rs. v = Obj rs \<Longrightarrow> props_wf rs" and "k \<noteq> ''__proto__''"
  shows "put_back k (objToArray v) (Obj b) = Inr (Obj (put_defined k (kept_rows v) b))"
proof (cases "\<exists>rs. v = Obj rs")
  case True
  then obtain rs where v: "v = Obj rs" by blast
  show ?thesis
  proof (cases "rs = []")
    case False
    then have "arrayToObj (objToArray (Obj rs)) = Inr (if kept rs = [] then Undef else Obj (kept rs))"
      using assms v by (intro rows_through_form) (auto simp: plain_rows_def)
    moreover have "truthy (objToArray v)" using v False by (simp add: objToArray_Obj)
    ultimately show ?thesis
      using v assms(3) by (simp add: put_back_def set_member_Obj put_defined_def kept_rows_def)
  qed (simp add: v put_back_def objToArray_Obj kept_rows_def kept_def put_defined_def)
next
  case False
  then have "\<not> truthy v" "kept_rows v = Undef"
    using assms(1) by (auto simp: plain_rows_def kept_rows_def split: jsv.splits)
  then show ?thesis by (simp add: put_back_def objToArray_falsy put_defined_def)
qed

lemma repost_kept:
  assumes "plain_node (Obj n)" and "wf_js (Obj n)"
  shows "repost n = Inr (kept_node (Obj n))"
  using assms(1) put_back_kept [of "mem n ''headers''" "''headers''"] put_back_kept [of "mem n ''queries''" "''queries''"]
    props_wf_mem_Obj [OF assms(2)]
  by (simp add: repost_def kept_node_def plain_node_def)

text \<open>
  C5. The way of any case to the form and back, header and query values of every kind
  included: it always succeeds, \<open>validate\<close> and the members of headers and queries that the
  loop does not keep are lost, headers and queries without any kept member disappear, and
  everything else comes back.
\<close>
theorem case_losses:
  assumes "plain_case v"
  shows "rbind (postToView v) viewToPost = Inr (kept_case v)"
proof -
  from assms obtain ps xs where v: "v = Obj ps" "mem ps ''trace'' = Arr xs" "list_all plain_node xs"
    by (auto simp: plain_case_def split: jsv.splits)
  have "\<exists>nodes. xs = map Obj nodes"
    using v(3) by (induction xs) (auto simp: plain_node_def split: jsv.splits intro!: exI [of _ "_ # _"])
  then obtain nodes where xs: "xs = map Obj nodes" by blast
  have j: "json_value (Obj ps)" "wf_js (Obj ps)" using assms v(1) by (simp_all add: plain_case_def)
  have t: "map_of ps ''trace'' = Some (Arr (map Obj nodes))"
    using v(2) xs by (simp add: mem_def split: option.splits)
  have "rmap repost nodes = Inr (map (\<lambda>n. kept_node (Obj n)) nodes)"
    using repost_kept trace_nodes_wf [OF j(2) t] v(3) xs by (intro rmap_Inr_map) (auto simp: list_all_iff simp del: wf_js_Obj_iff)
  then show ?thesis
    unfolding v(1) view_then_post [OF j t] using v(2) xs by (simp add: kept_case_def comp_def)
qed

definition lossy_case :: jsv where
  "lossy_case = Obj [(''validate'', Bool True), (''trace'', Arr [
     Obj [(''headers'', Obj [(''n'', Num (js_nat 7)), (''x'', Str ''1'')]), (''queries'', Obj [(''b'', Bool True)])]])]"

theorem case_losses_witness:
  "rbind (postToView lossy_case) viewToPost = Inr (Obj [(''trace'', Arr [Obj [(''headers'', Obj [(''x'', Str ''1'')])]])])"
proof -
  have "plain_case lossy_case" by code_simp
  then have "rbind (postToView lossy_case) viewToPost = Inr (kept_case lossy_case)" by (rule case_losses)
  moreover have "kept_case lossy_case = Obj [(''trace'', Arr [Obj [(''headers'', Obj [(''x'', Str ''1'')])]])]"
    by code_simp
  ultimately show ?thesis by simp
qed

text \<open>
  The rows of the form as an object: rows without a name or without a value are left out,
  under each name the last row's value stands, and a form without any usable row gives no
  object at all.
\<close>
theorem rows_last_wins:
  assumes "list_all (\<lambda>(k, s). k \<noteq> ''__proto__'') kvs"
  shows "\<exists>ps. arrayToObj (Arr (map (\<lambda>(k, s). row k (Str s)) kvs)) = Inr (if good_rows kvs = [] then Undef else Obj ps) \<and>
    map_of ps = (\<lambda>k. map_option Str (map_of (rev (good_rows kvs)) k)) \<and> props_wf ps"
proof (intro exI conjI)
  show "props_wf (put_all own_put (str_props (good_rows kvs)) [])" by (rule own.invar_put_all) simp
qed (use arrayToObj_last_row [OF assms] in auto)

theorem rows_last_wins_witness:
  "\<exists>ps. arrayToObj (Arr (map (\<lambda>(k, s). row k (Str s)) [(''a'', ''1''), (''b'', []), (''a'', ''2'')])) = Inr (Obj ps) \<and>
    map_of ps ''a'' = Some (Str ''2'') \<and> map_of ps ''b'' = None"
  using rows_last_wins [of "[(''a'', ''1''), (''b'', []), (''a'', ''2'')]"]
  by (auto simp: good_rows_def)

end
