(* ===== verification/FormCases.thy ===== *)
theory FormCases
  imports CaseViews
begin

text \<open>
  The states the form can be in and the documents it posts. The schema of the form gives
  every row a textual name and a textual value, either of which a new row lacks; it does not
  ask for a trace, without which nothing can be posted (\<^verbatim>\<open>FormSchema\<close>). From a state with
  such rows and a trace \<open>viewToPost\<close> always returns, what it posts is a case the form shows again, and
  posting that again changes nothing.
\<close>

section \<open>Shapes\<close>

definition text_or_undefined :: "jsv \<Rightarrow> bool" where
  "text_or_undefined v = (case v of Undef \<Rightarrow> True | Str s \<Rightarrow> True | _ \<Rightarrow> False)"

definition form_row :: "jsv \<Rightarrow> bool" where
  "form_row h = (case h of
      Obj ps \<Rightarrow> text_or_undefined (mem ps ''name'') \<and> text_or_undefined (mem ps ''value'')
    | _ \<Rightarrow> False)"

definition form_rows :: "jsv \<Rightarrow> bool" where
  "form_rows v = (case v of Undef \<Rightarrow> True | Arr hs \<Rightarrow> list_all form_row hs | _ \<Rightarrow> False)"

definition form_node :: "jsv \<Rightarrow> bool" where
  "form_node v = (case v of
      Obj n \<Rightarrow> form_rows (mem n ''headers'') \<and> form_rows (mem n ''queries'')
    | _ \<Rightarrow> False)"

text \<open>A state with a trace, whose rows are as the schema says.\<close>

definition form_case :: "jsv \<Rightarrow> bool" where
  "form_case d \<longleftrightarrow> wf_js d \<and> (case d of
      Obj ps \<Rightarrow> (case mem ps ''trace'' of Arr xs \<Rightarrow> list_all form_node xs | _ \<Rightarrow> False)
    | _ \<Rightarrow> False)"

text \<open>A posted case whose header and query values are texts.\<close>

definition text_prop :: "string \<times> jsv \<Rightarrow> bool" where
  "text_prop p = (case p of (k, x) \<Rightarrow> k \<noteq> [] \<and> k \<noteq> ''__proto__'' \<and> (case x of Str s \<Rightarrow> s \<noteq> [] | _ \<Rightarrow> False))"

definition text_rows :: "jsv \<Rightarrow> bool" where
  "text_rows v = (case v of
      Undef \<Rightarrow> True
    | Obj rs \<Rightarrow> rs \<noteq> [] \<and> list_all text_prop rs
    | _ \<Rightarrow> False)"

definition text_node :: "jsv \<Rightarrow> bool" where
  "text_node v = (case v of
      Obj n \<Rightarrow> text_rows (mem n ''headers'') \<and> text_rows (mem n ''queries'')
    | _ \<Rightarrow> False)"

definition text_case :: "jsv \<Rightarrow> bool" where
  "text_case v \<longleftrightarrow> json_value v \<and> wf_js v \<and> (case v of
      Obj ps \<Rightarrow> \<not> has_own ''validate'' ps \<and>
        (case mem ps ''trace'' of Arr xs \<Rightarrow> list_all text_node xs | _ \<Rightarrow> False)
    | _ \<Rightarrow> False)"

lemma text_propD: "text_prop (k, x) \<Longrightarrow> k \<noteq> [] \<and> k \<noteq> ''__proto__'' \<and> keep_value x = Inr True"
  by (auto simp: text_prop_def split: jsv.splits)

lemma text_rows_clean: "text_rows v \<Longrightarrow> v = Undef \<or> clean_rows v"
  by (auto simp: text_rows_def clean_rows_def list_all_iff dest: text_propD split: jsv.splits)

lemma text_node_clean: "text_node x \<Longrightarrow> clean_node x"
  by (auto simp: text_node_def clean_node_def dest: text_rows_clean split: jsv.splits)

lemma text_case_clean: "text_case v \<Longrightarrow> clean_case v"
  by (auto simp: text_case_def clean_case_def text_node_clean simp del: wf_js_Obj_iff json_value_Obj_iff
      elim!: list.pred_mono_strong split: jsv.splits)

section \<open>From the form\<close>

definition text_object :: "js_object \<Rightarrow> bool" where
  "text_object r \<longleftrightarrow> proto r = Undef \<and> list_all text_prop (own r)"

lemma text_object_assign:
  assumes "text_object r" and "k \<noteq> []" and "s \<noteq> []"
  shows "text_object (assign k (Str s) r)"
proof -
  have "\<not> has_own ''__proto__'' (own r)"
    using assms(1) by (auto simp: text_object_def text_prop_def has_own_def list_all_iff)
  moreover have "list_all text_prop (own_put k (Str s) (own r))" if "k \<noteq> ''__proto__''"
    using that assms set_own_put [of k "Str s" "own r"]
    by (auto simp: text_object_def list_all_iff) (auto simp: text_prop_def)
  ultimately show ?thesis using assms(1) by (auto simp: text_object_def assign_def)
qed

lemma add_form_row:
  assumes "form_row h" and "text_object r"
  shows "\<exists>r'. add_row h r = Inr r' \<and> text_object r'"
proof -
  obtain ps where h: "h = Obj ps" "text_or_undefined (mem ps ''name'')" "text_or_undefined (mem ps ''value'')"
    using assms(1) by (auto simp: form_row_def split: jsv.splits)
  have name: "get_member h ''name'' = Inr (mem ps ''name'')" "get_member h ''value'' = Inr (mem ps ''value'')"
    by (simp_all add: h(1) mem_def)
  show ?thesis
    using h(2,3) name assms(2)
    by (cases "mem ps ''name''"; cases "mem ps ''value''")
      (auto simp: text_or_undefined_def add_row_def keep_row_def intro!: text_object_assign)
qed

lemma add_form_rows:
  "list_all form_row hs \<Longrightarrow> text_object r \<Longrightarrow> \<exists>r'. rfold add_row hs r = Inr r' \<and> text_object r'"
proof (induction hs arbitrary: r)
  case (Cons h hs)
  then obtain r1 where "add_row h r = Inr r1" "text_object r1" using add_form_row by force
  with Cons show ?case by auto
qed simp

lemma text_rows_Obj: "rs \<noteq> [] \<Longrightarrow> list_all text_prop rs \<Longrightarrow> text_rows (Obj rs)"
  by (simp add: text_rows_def)

lemma arrayToObj_form:
  assumes "list_all form_row hs"
  shows "\<exists>x. arrayToObj (Arr hs) = Inr x \<and> text_rows x"
proof -
  have "text_object empty_object" by (simp add: text_object_def empty_object_def)
  then obtain r where r: "rfold add_row hs empty_object = Inr r" "text_object r"
    using add_form_rows [OF assms] by blast
  then show ?thesis
    by (cases "own r = []") (auto simp: arrayToObj_def text_object_def for_in_def text_rows_Obj text_rows_def [of Undef])
qed

lemma put_back_form:
  assumes "form_rows v" and "k \<noteq> ''__proto__''"
  shows "\<exists>x. put_back k v (Obj b) = Inr (Obj (put_defined k x b)) \<and> text_rows x"
proof (cases v)
  case Undef
  then have "put_back k v (Obj b) = Inr (Obj (put_defined k Undef b)) \<and> text_rows Undef"
    by (simp add: put_back_def put_defined_def text_rows_def)
  then show ?thesis by blast
next
  case (Arr hs)
  with assms(1) have "list_all form_row hs" by (simp add: form_rows_def)
  then obtain x where x: "arrayToObj (Arr hs) = Inr x" "text_rows x" using arrayToObj_form by blast
  then have "put_back k v (Obj b) = Inr (Obj (put_defined k x b)) \<and> text_rows x"
    using Arr assms(2) by (cases x) (auto simp: put_back_def put_defined_def set_member_Obj text_rows_def)
  then show ?thesis by blast
qed (use assms(1) in \<open>simp_all add: form_rows_def\<close>)

text \<open>The node a form node is posted as.\<close>

definition posted_node :: "props \<Rightarrow> jsv \<Rightarrow> jsv \<Rightarrow> props" where
  "posted_node n h q = put_defined ''queries'' q (put_defined ''headers'' h (base n))"

lemma post_form_node:
  assumes "form_node (Obj n)"
  shows "\<exists>h q. post_node (Obj n) = Inr (Obj (posted_node n h q)) \<and> text_rows h \<and> text_rows q"
proof -
  from assms obtain h where h: "put_back ''headers'' (mem n ''headers'') (Obj (base n)) =
      Inr (Obj (put_defined ''headers'' h (base n)))" "text_rows h"
    using put_back_form [of "mem n ''headers''" "''headers''"] by (auto simp: form_node_def)
  from assms obtain q where q: "put_back ''queries'' (mem n ''queries'') (Obj (put_defined ''headers'' h (base n))) =
      Inr (Obj (put_defined ''queries'' q (put_defined ''headers'' h (base n))))" "text_rows q"
    using put_back_form [of "mem n ''queries''" "''queries''"] by (auto simp: form_node_def)
  from h q show ?thesis by (auto simp: post_node_Obj posted_node_def)
qed

lemma mem_posted_node: "mem (posted_node n h q) ''headers'' = h" "mem (posted_node n h q) ''queries'' = q"
  by (auto simp: mem_def posted_node_def put_defined_def base_def own_simps)

lemma own_del_base: "own_del ''headers'' (base n) = base n" "own_del ''queries'' (base n) = base n"
  by (auto simp: base_def own_del_absent has_own_map_of own_simps)

lemma base_posted_node: "base (posted_node n h q) = base n"
  using own_del_base [of n]
  by (auto simp: posted_node_def put_defined_def base_def [of "base n"] base_def [of "own_put _ _ _"]
      own_del_own_put_same own_del_own_put_other)

lemma reorder_posted_node: "reorder_node (posted_node n h q) = posted_node n h q"
  by (simp add: reorder_node_def mem_posted_node base_posted_node) (simp add: posted_node_def)

lemma text_posted_node: "text_rows h \<Longrightarrow> text_rows q \<Longrightarrow> text_node (Obj (posted_node n h q))"
  by (simp add: text_node_def mem_posted_node)

section \<open>Whole cases\<close>

lemma viewToPost_Obj:
  "map_of qs ''trace'' = Some (Arr ns) \<Longrightarrow> distinct (map fst qs) \<Longrightarrow>
    viewToPost (Obj qs) = rbind (rmap post_node (map jsonify ns)) (\<lambda>xs.
      Inr (Obj (own_del ''validate'' (own_put ''trace'' (Arr xs) (jsonify_props qs)))))"
  by (simp add: viewToPost_def json_clone_def map_of_jsonify_props set_member_Obj rmap_map)

lemma mem_jsonify_cases:
  "distinct (map fst ps) \<Longrightarrow> mem ps k = Undef \<and> mem (jsonify_props ps) k = Undef \<or>
    mem ps k \<noteq> Undef \<and> mem (jsonify_props ps) k = jsonify (mem ps k)"
  by (simp add: mem_jsonify_props)

lemma form_row_jsonify:
  assumes "form_row h" and "wf_js h"
  shows "form_row (jsonify h)"
proof -
  obtain ps where h: "h = Obj ps" using assms(1) by (auto simp: form_row_def split: jsv.splits)
  with assms(2) have "distinct (map fst ps)" by (simp add: props_wf_def)
  then show ?thesis using assms(1) mem_jsonify_cases [of ps "''name''"] mem_jsonify_cases [of ps "''value''"]
    by (auto simp: h form_row_def text_or_undefined_def split: jsv.splits)
qed

lemma form_rows_jsonify:
  assumes "form_rows (mem ps k)" and "wf_js (Obj ps)"
  shows "form_rows (mem (jsonify_props ps) k)"
proof -
  have d: "distinct (map fst ps)" using assms(2) by (simp add: props_wf_def)
  show ?thesis
  proof (cases "mem ps k")
    case (Arr hs)
    then have "map_of ps k = Some (Arr hs)" by (auto simp: mem_def split: option.splits)
    then have "wf_js (Arr hs)" using assms(2) by (rule wf_js_member [rotated])
    with Arr assms(1) have "list_all form_row (map jsonify hs)"
      by (auto simp: form_rows_def list_all_iff form_row_jsonify)
    with Arr mem_jsonify_cases [OF d, of k] show ?thesis by (auto simp: form_rows_def)
  qed (use assms(1) mem_jsonify_cases [OF d, of k] in \<open>auto simp: form_rows_def\<close>)
qed

lemma form_nodeE:
  assumes "form_node x" and "wf_js x"
  obtains m where "jsonify x = Obj m" and "form_node (Obj m)"
proof -
  from assms(1) obtain n where x: "x = Obj n" by (auto simp: form_node_def split: jsv.splits)
  then have "form_rows (mem n ''headers'')" "form_rows (mem n ''queries'')" and w: "wf_js (Obj n)"
    using assms by (simp_all add: form_node_def)
  then have "form_node (Obj (jsonify_props n))"
    by (simp add: form_node_def form_rows_jsonify [OF _ w] del: wf_js_Obj_iff)
  with that [of "jsonify_props n"] x show ?thesis by simp
qed

definition settled_node :: "jsv \<Rightarrow> bool" where
  "settled_node x \<longleftrightarrow> text_node x \<and> (case x of Obj m \<Rightarrow> reorder_node m = m | _ \<Rightarrow> False)"

lemma post_form_nodes:
  assumes "\<And>x. x \<in> set xs \<Longrightarrow> form_node x \<and> wf_js x"
  shows "\<exists>ys. rmap post_node (map jsonify xs) = Inr ys \<and> list_all settled_node ys"
  using assms
proof (induction xs)
  case (Cons x xs)
  then obtain ys where ys: "rmap post_node (map jsonify xs) = Inr ys" "list_all settled_node ys"
    by (meson list.set_intros(2))
  have "form_node x" "wf_js x" using Cons.prems [of x] by simp_all
  then obtain m where m: "jsonify x = Obj m" "form_node (Obj m)" by (rule form_nodeE)
  from post_form_node [OF m(2)] obtain h q where "post_node (Obj m) = Inr (Obj (posted_node m h q))"
    "text_rows h" "text_rows q" by blast
  moreover from this have "settled_node (Obj (posted_node m h q))"
    by (simp add: settled_node_def reorder_posted_node text_posted_node)
  ultimately show ?case using ys m(1) by simp
qed simp

lemma overwrite_same: "map_of ps k = Some v \<Longrightarrow> distinct (map fst ps) \<Longrightarrow> overwrite k v ps = ps"
proof (induction ps)
  case (Cons p ps)
  obtain j w where p: "p = (j, w)" by (cases p)
  have "overwrite k v qs = qs" if "k \<notin> fst ` set qs" for qs :: "(string \<times> 'a) list"
    using that by (induction qs) auto
  with Cons p show ?case by (auto split: if_splits)
qed simp

lemma settled_reorder:
  assumes "wf_js (Obj ps)" and "map_of ps ''trace'' = Some (Arr ys)" and "list_all settled_node ys"
  shows "reorder (Obj ps) = Obj ps"
proof -
  have "map (\<lambda>x. case x of Obj n \<Rightarrow> Obj (reorder_node n) | _ \<Rightarrow> x) ys = ys"
    using assms(3) by (intro map_idI) (auto simp: settled_node_def list_all_iff split: jsv.splits)
  moreover have "own_put ''trace'' (Arr ys) ps = ps"
    using assms(1,2) by (simp add: own_put_def has_own_map_of overwrite_same props_wf_def)
  ultimately show ?thesis using assms(2) by (simp add: reorder_def mem_def)
qed

lemma form_caseE:
  assumes "form_case d"
  obtains ps xs where "d = Obj ps" and "wf_js (Obj ps)" and "map_of ps ''trace'' = Some (Arr xs)"
    and "\<And>x. x \<in> set xs \<Longrightarrow> form_node x \<and> wf_js x"
proof -
  from assms obtain ps xs where d: "d = Obj ps" "wf_js (Obj ps)" "map_of ps ''trace'' = Some (Arr xs)"
    "list_all form_node xs"
    by (auto simp: form_case_def mem_def simp del: wf_js_Obj_iff split: jsv.splits option.splits)
  moreover have "wf_js (Arr xs)" using d(2,3) by (rule wf_js_member)
  ultimately show ?thesis using that by (auto simp: list_all_iff simp del: wf_js_Obj_iff)
qed

lemma form_case_posted:
  assumes "form_case d"
  shows "\<exists>p. viewToPost d = Inr p \<and> text_case p \<and> reorder p = p"
proof -
  obtain ps xs where d: "d = Obj ps" "wf_js (Obj ps)" "map_of ps ''trace'' = Some (Arr xs)"
    and xs: "\<And>x. x \<in> set xs \<Longrightarrow> form_node x \<and> wf_js x"
    using form_caseE [OF assms] by blast
  from post_form_nodes [OF xs] obtain ys where ys: "rmap post_node (map jsonify xs) = Inr ys"
    "list_all settled_node ys" by blast
  define qs where "qs = own_del ''validate'' (own_put ''trace'' (Arr ys) (jsonify_props ps))"
  have p: "viewToPost d = Inr (Obj qs)"
    using viewToPost_Obj [OF d(3)] d(1,2) ys(1) by (simp add: props_wf_def qs_def)
  have wf: "wf_js (Obj qs) \<and> json_value (Obj qs)"
    by (rule posted_wf_json [OF p]) (use d in simp)
  have t: "map_of qs ''trace'' = Some (Arr ys)" "\<not> has_own ''validate'' qs"
    by (simp_all add: qs_def own_simps has_own_map_of)
  have "text_case (Obj qs)"
    using wf t ys(2) by (auto simp: text_case_def mem_def settled_node_def simp del: wf_js_Obj_iff json_value_Obj_iff
        elim!: list.pred_mono_strong)
  with p settled_reorder [OF _ t(1) ys(2)] wf show ?thesis by blast
qed

text \<open>
  C7. From every state of the form that has a trace and whose rows are as its schema says,
  \<open>viewToPost\<close> returns; what it returns is a well-formed JSON case without \<open>validate\<close> whose headers and queries are
  absent or non-empty objects of texts; and showing that case in the form and posting it
  again gives exactly the same document.
\<close>
theorem form_posts_stably:
  assumes "form_case d"
  shows "\<exists>p. viewToPost d = Inr p \<and> text_case p \<and> rbind (postToView p) viewToPost = Inr p"
  using form_case_posted [OF assms] clean_case_round_trip text_case_clean by metis

definition example_form :: jsv where
  "example_form = Obj [(''name'', Str ''demo''), (''expect'', Undef), (''trace'', Arr [
     Obj [(''method'', Str ''GET''), (''headers'', Arr [Obj [(''name'', Str ''host''), (''value'', Str ''a.b'')],
         Obj [(''name'', Str ''x'')], Obj []]), (''queries'', Undef)]])]"

theorem form_posts_stably_witness:
  "\<exists>p. viewToPost example_form = Inr p \<and> text_case p \<and> rbind (postToView p) viewToPost = Inr p"
proof (rule form_posts_stably)
  show "form_case example_form" by code_simp
qed


section \<open>To the form\<close>

lemma form_rows_objToArray: "text_rows v \<Longrightarrow> form_rows (objToArray v)"
proof -
  assume t: "text_rows v"
  have "form_row (row k x)" if "text_prop (k, x)" for k x
    using that by (auto simp: text_prop_def row_def form_row_def mem_def text_or_undefined_def split: jsv.splits)
  with t show ?thesis
    by (cases v) (auto simp: text_rows_def form_rows_def for_in_def objToArray_def list_all_iff)
qed

lemma wf_objToArray:
  assumes "text_rows v" and "v \<noteq> Undef \<Longrightarrow> wf_js v"
  shows "wf_js (objToArray v)"
  using assms
  by (cases v) (auto simp: objToArray_def text_rows_def for_in_def row_def props_wf_def key_before_def list_all_iff)

lemma wf_mem: "wf_js (Obj n) \<Longrightarrow> mem n k \<noteq> Undef \<Longrightarrow> wf_js (mem n k)"
  using wf_js_member [of n k] by (auto simp: mem_def simp del: wf_js_Obj_iff split: option.splits)

lemma form_view_props:
  assumes "text_node (Obj n)" and "wf_js (Obj n)"
  shows "form_node (Obj (view_props n)) \<and> wf_js (Obj (view_props n))"
proof -
  have t: "text_rows (mem n ''headers'')" "text_rows (mem n ''queries'')"
    using assms(1) by (simp_all add: text_node_def)
  have m: "mem (view_props n) ''headers'' = objToArray (mem n ''headers'')"
    "mem (view_props n) ''queries'' = objToArray (mem n ''queries'')"
    by (simp_all add: mem_def view_props_def own_simps)
  have "wf_js (Obj (view_props n))"
    unfolding view_props_def by (intro wf_js_own_put wf_objToArray t wf_mem assms(2))
  then show ?thesis by (simp add: form_node_def m t form_rows_objToArray)
qed

lemma text_caseE:
  assumes "text_case v"
  obtains ps nodes where "v = Obj ps" and "map_of ps ''trace'' = Some (Arr (map Obj nodes))"
    and "json_value (Obj ps)" and "wf_js (Obj ps)" and "\<And>n. n \<in> set nodes \<Longrightarrow> text_node (Obj n)"
proof -
  from clean_caseE [OF text_case_clean [OF assms]] obtain ps nodes where v: "v = Obj ps"
    "map_of ps ''trace'' = Some (Arr (map Obj nodes))" "json_value (Obj ps)" "wf_js (Obj ps)" by blast
  moreover have "text_node (Obj n)" if "n \<in> set nodes" for n
    using assms v that by (simp add: text_case_def mem_def list_all_iff)
  ultimately show ?thesis using that by blast
qed

lemma text_case_shown:
  assumes "text_case v"
  shows "\<exists>d. postToView v = Inr d \<and> form_case d"
proof -
  obtain ps nodes where v: "v = Obj ps" and t: "map_of ps ''trace'' = Some (Arr (map Obj nodes))"
    and j: "json_value (Obj ps)" and w: "wf_js (Obj ps)" and n: "\<And>n. n \<in> set nodes \<Longrightarrow> text_node (Obj n)"
    using text_caseE [OF assms] by blast
  have wn: "wf_js (Obj n)" if "n \<in> set nodes" for n using trace_nodes_wf [OF w t that] .
  define ys where "ys = Arr (map (\<lambda>n. Obj (view_props n)) nodes)"
  have vn: "form_node (Obj (view_props n))" "wf_js (Obj (view_props n))" if "n \<in> set nodes" for n
    using form_view_props n wn that by blast+
  have "wf_js ys" using vn(2) by (simp add: ys_def list_all_iff)
  then have "wf_js (Obj (own_put ''trace'' ys ps))" by (rule wf_js_own_put [OF w])
  then have view: "form_case (Obj (own_put ''trace'' ys ps))"
    using vn(1) by (simp add: form_case_def mem_def own_simps ys_def list_all_iff)
  have "form_node (Obj n)" if "n \<in> set nodes" "\<not> truthy (mem n ''headers'')" "\<not> truthy (mem n ''queries'')" for n
    using n [OF that(1)] that(2,3)
    by (auto simp: form_node_def text_node_def form_rows_def text_rows_def split: jsv.splits)
  then have "form_case (Obj ps)"
    if "\<not> (\<exists>n\<in>set nodes. truthy (mem n ''headers'') \<or> truthy (mem n ''queries''))"
    using that w t by (auto simp: form_case_def mem_def list_all_iff simp del: wf_js_Obj_iff)
  then show ?thesis
    using view by (simp add: v postToView_Obj [OF j t] ys_def)
qed

text \<open>
  Every posted case whose header and query values are texts can be shown, and what the
  form then holds is a state its schema allows.
\<close>
theorem posted_case_shows:
  assumes "text_case v"
  shows "\<exists>d. postToView v = Inr d \<and> form_case d"
  by (rule text_case_shown [OF assms])

theorem posted_case_shows_witness: "\<exists>d. postToView example_case = Inr d \<and> form_case d"
proof (rule posted_case_shows)
  show "text_case example_case" by code_simp
qed

end
