(* ===== verification/UriTs.thy ===== *)
theory UriTs
  imports JsonText
begin

text \<open>
  \<open>powerful-front/src/data.ts\<close>, the requests: reading the page's query string, carrying its
  \<open>scope\<close> into every address the program requests, and the request that runs a case. The
  page's \<open>window.location.search\<close> is an argument; a request is the record of the options
  the code passes to \<open>$.ajax\<close>, and its outcome the value the code hands to its callback.
\<close>

section \<open>Strings\<close>

text \<open>\<open>s.split(c)\<close> and \<open>s.indexOf(c)\<close> for a one-character \<open>c\<close>.\<close>

fun split_on :: "char \<Rightarrow> string \<Rightarrow> string list" where
  "split_on c [] = [[]]"
| "split_on c (x # xs) =
     (if x = c then [] # split_on c xs
      else (case split_on c xs of [] \<Rightarrow> [[x]] | y # ys \<Rightarrow> (x # y) # ys))"

definition index_of :: "char \<Rightarrow> string \<Rightarrow> int" where
  "index_of c s = (if c \<in> set s then int (length (takeWhile (\<lambda>x. x \<noteq> c) s)) else -1)"

text \<open>Element 0 and 1 of the array, \<open>undefined\<close> beyond its end.\<close>

definition at :: "'a list \<Rightarrow> nat \<Rightarrow> 'a option" where
  "at xs i = (if i < length xs then Some (xs ! i) else None)"

section \<open>The query string\<close>

fun scan_vars :: "string \<Rightarrow> string list \<Rightarrow> string option" where
  "scan_vars key [] = None"
| "scan_vars key (v # vars) =
     (let pair = split_on CHR ''='' v
      in if at pair 0 = Some key then at pair 1 else scan_vars key vars)"

definition getQueryValue :: "string \<Rightarrow> string \<Rightarrow> string option" where
  "getQueryValue search key =
     (let query = drop 1 search; vars = split_on CHR ''&'' query in scan_vars key vars)"

definition scopedUri :: "string \<Rightarrow> string \<Rightarrow> string" where
  "scopedUri search uri =
     (case getQueryValue search ''scope'' of
        None \<Rightarrow> uri
      | Some scope \<Rightarrow>
          let splitter = (if index_of CHR ''?'' uri = -1 then ''?'' else ''&'')
          in uri @ splitter @ ''scope='' @ scope)"

section \<open>Requests\<close>

text \<open>The options of a request; an option the code does not give is absent.\<close>

record ajax_request =
  verb :: "string option"
  url :: string
  dataType :: "string option"
  body :: "string option"
  contentType :: "string option"

text \<open>
  How a request ends: the text of a successful response, or the \<open>responseText\<close> of a failed
  one, which is missing when there was no response.
\<close>

datatype ajax_outcome = Success string | Failure "string option"

definition executeCase :: "string \<Rightarrow> jsv \<Rightarrow> string option \<Rightarrow> ajax_request" where
  "executeCase search json params =
     (let url = (case params of
          Some p \<Rightarrow> if p \<noteq> [] then ''/e'' @ ''?'' @ p else ''/e''
        | None \<Rightarrow> ''/e'')
      in \<lparr>verb = Some ''POST'', url = scopedUri search url, dataType = Some ''text'',
          body = JSON_stringify [] json, contentType = Some ''application/json''\<rparr>)"

text \<open>What \<open>setResult\<close> receives.\<close>

definition executeResult :: "ajax_outcome \<Rightarrow> string option" where
  "executeResult out = (case out of Success data1 \<Rightarrow> Some data1 | Failure text \<Rightarrow> text)"

section \<open>Splitting\<close>

lemma split_on_not_Nil [simp]: "split_on c s \<noteq> []"
  by (cases s) (auto split: list.split)

lemma split_on_absent: "c \<notin> set s \<Longrightarrow> split_on c s = [s]"
  by (induction s) auto

lemma split_on_append: "split_on c (xs @ c # ys) = split_on c xs @ split_on c ys"
proof (induction xs)
  case (Cons x xs)
  obtain z zs where z: "split_on c xs = z # zs" by (meson neq_Nil_conv split_on_not_Nil)
  with Cons show ?case by auto
qed simp

lemma split_on_first: "split_on c s = takeWhile (\<lambda>x. x \<noteq> c) s #
    (if c \<in> set s then split_on c (tl (dropWhile (\<lambda>x. x \<noteq> c) s)) else [])"
proof (cases "c \<in> set s")
  case True
  then obtain ys zs where s: "s = ys @ c # zs" "c \<notin> set ys" by (meson split_list_first)
  have "takeWhile (\<lambda>x. x \<noteq> c) s = ys" "dropWhile (\<lambda>x. x \<noteq> c) s = c # zs"
    using s by (auto simp: takeWhile_append dropWhile_append)
  with True s show ?thesis by (simp add: split_on_append split_on_absent)
next
  case False
  then have "takeWhile (\<lambda>x. x \<noteq> c) s = s" by (induction s) auto
  with False show ?thesis by (simp add: split_on_absent del: takeWhile_eq_all_conv)
qed

lemma split_on_pieces: "p \<in> set (split_on c s) \<Longrightarrow> c \<notin> set p"
proof (induction s arbitrary: p)
  case (Cons x xs)
  obtain z zs where "split_on c xs = z # zs" by (meson neq_Nil_conv split_on_not_Nil)
  with Cons show ?case by (auto split: if_splits)
qed simp

lemma split_on_set: "p \<in> set (split_on c s) \<Longrightarrow> set p \<subseteq> set s"
proof (induction s arbitrary: p)
  case (Cons x xs)
  obtain z zs where "split_on c xs = z # zs" by (meson neq_Nil_conv split_on_not_Nil)
  with Cons show ?case by (fastforce split: if_splits)
qed simp

lemma at_simps [simp]: "at [] i = None" "at (x # xs) 0 = Some x" "at (x # xs) (Suc i) = at xs i"
  by (simp_all add: at_def)

lemma at_in: "at xs i = Some x \<Longrightarrow> x \<in> set xs"
  by (auto simp: at_def split: if_splits)

section \<open>The query as a list of pairs\<close>

text \<open>A parameter as the reader sees it: its key, and the text between the first two \<open>=\<close>.\<close>

definition pair_of :: "string \<Rightarrow> string \<times> string option" where
  "pair_of v =
     (let rest = dropWhile (\<lambda>c. c \<noteq> CHR ''='') v
      in (takeWhile (\<lambda>c. c \<noteq> CHR ''='') v,
          if rest = [] then None else Some (takeWhile (\<lambda>c. c \<noteq> CHR ''='') (tl rest))))"

definition query_pairs :: "string \<Rightarrow> (string \<times> string option) list" where
  "query_pairs search = map pair_of (split_on CHR ''&'' (drop 1 search))"

lemma dropWhile_Nil_iff: "dropWhile (\<lambda>x. x \<noteq> c) s = [] \<longleftrightarrow> c \<notin> set s"
  by (auto simp: dropWhile_eq_Nil_conv)

lemma pair_of_split: "at (split_on CHR ''='' v) 0 = Some (fst (pair_of v))"
  "at (split_on CHR ''='' v) 1 = snd (pair_of v)"
proof -
  let ?r = "dropWhile (\<lambda>c. c \<noteq> CHR ''='') v"
  show "at (split_on CHR ''='' v) 0 = Some (fst (pair_of v))"
    by (subst split_on_first) (simp add: pair_of_def Let_def)
  show "at (split_on CHR ''='' v) 1 = snd (pair_of v)"
    using split_on_first [of "CHR ''=''" "tl ?r"] dropWhile_Nil_iff [of "CHR ''=''" v]
    by (subst split_on_first) (auto simp: pair_of_def Let_def)
qed

definition lookup :: "(string \<times> string option) list \<Rightarrow> string \<Rightarrow> string option" where
  "lookup ps k = (case map_of ps k of Some v \<Rightarrow> v | None \<Rightarrow> None)"

lemma scan_vars_lookup: "scan_vars key vars = lookup (map pair_of vars) key"
proof (induction vars)
  case (Cons v vars)
  then show ?case using pair_of_split [of v] by (cases "pair_of v") (auto simp: lookup_def Let_def)
qed (simp add: lookup_def)

lemma getQueryValue_lookup: "getQueryValue search key = lookup (query_pairs search) key"
  by (simp add: getQueryValue_def query_pairs_def scan_vars_lookup Let_def)

lemma lookup_append: "lookup (ps @ qs) k = (if k \<in> fst ` set ps then lookup ps k else lookup qs k)"
proof -
  have "k \<in> fst ` set ps \<longleftrightarrow> map_of ps k \<noteq> None" by (simp add: map_of_eq_None_iff)
  then show ?thesis by (auto simp: lookup_def map_add_def split: option.splits)
qed

lemma getQueryValue_chars:
  assumes "getQueryValue search key = Some v"
  shows "CHR ''&'' \<notin> set v \<and> CHR ''='' \<notin> set v"
proof -
  from assms have "map_of (query_pairs search) key = Some (Some v)"
    by (auto simp: getQueryValue_lookup lookup_def split: option.splits)
  then have "(key, Some v) \<in> set (query_pairs search)" by (rule map_of_SomeD)
  then obtain w where w: "w \<in> set (split_on CHR ''&'' (drop 1 search))" "pair_of w = (key, Some v)"
    unfolding query_pairs_def by auto
  have "at (split_on CHR ''='' w) 1 = Some v" unfolding pair_of_split(2) w(2) by (rule snd_conv)
  then have "v \<in> set (split_on CHR ''='' w)" by (rule at_in)
  then show ?thesis using split_on_pieces split_on_set split_on_pieces [OF w(1)] by (meson subsetD)
qed


section \<open>Carrying the scope\<close>

text \<open>
  How a server reads a query: what is in front of the fragment, from the first question mark
  on, in parameters that are not empty; the value of a parameter is everything behind its
  first equals sign.
\<close>

definition whole_pair :: "string \<Rightarrow> string \<times> string option" where
  "whole_pair p =
     (let rest = dropWhile (\<lambda>c. c \<noteq> CHR ''='') p
      in (takeWhile (\<lambda>c. c \<noteq> CHR ''='') p, if rest = [] then None else Some (tl rest)))"

definition read_query :: "string \<Rightarrow> (string \<times> string option) list" where
  "read_query q = map whole_pair (filter (\<lambda>p. p \<noteq> []) (split_on CHR ''&'' q))"

definition sent_params :: "string \<Rightarrow> (string \<times> string option) list" where
  "sent_params uri = read_query (drop 1 (dropWhile (\<lambda>c. c \<noteq> CHR ''?'') (takeWhile (\<lambda>c. c \<noteq> CHR ''#'') uri)))"

lemma read_query_Nil [simp]: "read_query [] = []"
  by (simp add: read_query_def)

lemma read_query_append: "read_query (q @ CHR ''&'' # w) = read_query q @ read_query w"
  by (simp add: read_query_def split_on_append)

lemma read_query_one: "CHR ''&'' \<notin> set p \<Longrightarrow> p \<noteq> [] \<Longrightarrow> read_query p = [whole_pair p]"
  by (simp add: read_query_def split_on_absent)

lemma dropWhile_found: "c \<in> set u \<Longrightarrow> dropWhile (\<lambda>x. x \<noteq> c) (u @ w) = dropWhile (\<lambda>x. x \<noteq> c) u @ w"
  by (induction u) auto

lemma dropWhile_fresh: "c \<notin> set u \<Longrightarrow> dropWhile (\<lambda>x. x \<noteq> c) (u @ c # w) = c # w"
  by (induction u) auto

text \<open>What the page's reader finds and what a server would: the same, up to a second equals sign.\<close>

lemma pair_of_whole: "pair_of p = (fst (whole_pair p), map_option (takeWhile (\<lambda>c. c \<noteq> CHR ''='')) (snd (whole_pair p)))"
proof (cases "dropWhile (\<lambda>c. c \<noteq> CHR ''='') p")
  case Nil
  then show ?thesis unfolding pair_of_def whole_pair_def Let_def Nil by simp
next
  case (Cons c r)
  then show ?thesis unfolding pair_of_def whole_pair_def Let_def Cons by simp
qed

lemma lookup_whole:
  assumes "k \<noteq> []"
  shows "lookup (map pair_of ps) k = (case map_of (map whole_pair (filter (\<lambda>p. p \<noteq> []) ps)) k of
    Some (Some v) \<Rightarrow> Some (takeWhile (\<lambda>c. c \<noteq> CHR ''='') v) | _ \<Rightarrow> None)"
proof (induction ps)
  case (Cons p ps)
  show ?case
  proof (cases "p = []")
    case True
    have "pair_of ([] :: string) = ([], None)" by (simp add: pair_of_def Let_def)
    then show ?thesis using Cons assms True by (simp add: lookup_def)
  next
    case False
    then show ?thesis using Cons by (auto simp: lookup_def pair_of_whole [of p] simp del: takeWhile_eq_all_conv split: option.splits)
  qed
qed (simp add: lookup_def)

lemma page_value:
  assumes "map_of (read_query (drop 1 search)) k = Some (Some v)" and "k \<noteq> []" and "CHR ''='' \<notin> set v"
  shows "getQueryValue search k = Some v"
proof -
  have "takeWhile (\<lambda>c. c \<noteq> CHR ''='') v = v" using assms(3) by (induction v) auto
  then show ?thesis
    using assms(1) lookup_whole [OF assms(2), of "split_on CHR ''&'' (drop 1 search)"]
    by (simp add: getQueryValue_lookup query_pairs_def read_query_def del: takeWhile_eq_all_conv)
qed

lemma whole_scope: "whole_pair (''scope='' @ v) = (''scope'', Some v)"
  by (simp add: whole_pair_def Let_def)

lemma without_fragment: "CHR ''#'' \<notin> set uri \<Longrightarrow> takeWhile (\<lambda>c. c \<noteq> CHR ''#'') uri = uri"
  by (induction uri) auto

text \<open>
  C8. The scope of the page reaches the server: if a server would read the scope \<open>v\<close> from the
  page's own query string, every address without a fragment is sent with the parameters it
  has, in their order, and the scope \<open>v\<close> behind them. The value must not hold an equals sign,
  at which the page cuts it (\<open>scope_value_truncated\<close>), nor a number sign, which a query string
  never does.
\<close>
theorem scope_is_carried:
  assumes "map_of (read_query (drop 1 search)) ''scope'' = Some (Some v)" and "CHR ''='' \<notin> set v"
    and "CHR ''#'' \<notin> set v" and "CHR ''#'' \<notin> set uri"
  shows "sent_params (scopedUri search uri) = sent_params uri @ [(''scope'', Some v)]"
proof -
  have g: "getQueryValue search ''scope'' = Some v" using page_value [OF assms(1) _ assms(2)] by simp
  then have amp: "CHR ''&'' \<notin> set v" using getQueryValue_chars by blast
  have u: "scopedUri search uri = uri @ (if CHR ''?'' \<in> set uri then CHR ''&'' else CHR ''?'') # ''scope='' @ v"
    using g by (simp add: scopedUri_def index_of_def)
  have "CHR ''#'' \<notin> set (scopedUri search uri)" using assms(3,4) by (simp add: u)
  then have f: "takeWhile (\<lambda>c. c \<noteq> CHR ''#'') (scopedUri search uri) = scopedUri search uri" by (rule without_fragment)
  have s: "read_query (''scope='' @ v) = [(''scope'', Some v)]" using amp whole_scope [of v] by (subst read_query_one) simp_all
  show ?thesis
  proof (cases "CHR ''?'' \<in> set uri")
    case True
    then have "\<exists>q. dropWhile (\<lambda>c. c \<noteq> CHR ''?'') uri = CHR ''?'' # q" by (induction uri) auto
    then obtain q where q: "dropWhile (\<lambda>c. c \<noteq> CHR ''?'') uri = CHR ''?'' # q" ..
    have "dropWhile (\<lambda>c. c \<noteq> CHR ''?'') (scopedUri search uri) = CHR ''?'' # q @ CHR ''&'' # ''scope='' @ v"
      unfolding u if_P [OF True] dropWhile_found [OF True] q by simp
    then show ?thesis
      unfolding sent_params_def f without_fragment [OF assms(4)] q using read_query_append [of q "''scope='' @ v"] s by simp
  next
    case False
    have d: "dropWhile (\<lambda>c. c \<noteq> CHR ''?'') (scopedUri search uri) = CHR ''?'' # ''scope='' @ v"
      unfolding u if_not_P [OF False] by (rule dropWhile_fresh [OF False])
    have e: "dropWhile (\<lambda>c. c \<noteq> CHR ''?'') uri = []" using False by (simp only: dropWhile_Nil_iff simp_thms)
    show ?thesis unfolding sent_params_def f without_fragment [OF assms(4)] d e using s by simp
  qed
qed

theorem scope_is_carried_witness:
  "sent_params (scopedUri ''?a=1&scope=dev'' ''/e?validate=true'') = [(''validate'', Some ''true''), (''scope'', Some ''dev'')]"
proof -
  have "map_of (read_query (drop 1 ''?a=1&scope=dev'')) ''scope'' = Some (Some ''dev'')" by code_simp
  moreover have "sent_params ''/e?validate=true'' = [(''validate'', Some ''true'')]" by code_simp
  ultimately show ?thesis using scope_is_carried [of "''?a=1&scope=dev''" "''dev''" "''/e?validate=true''"] by simp
qed

text \<open>Behind a number sign the scope is part of the fragment, which is never sent.\<close>

lemma scope_in_fragment: "sent_params (scopedUri ''?scope=dev'' (''/c/'' @ ''a#b'')) = []"
  by code_simp

text \<open>
  The loop over the query string finds the first parameter with the key and returns the
  text between its first two equals signs; a missing parameter, or one without an equals
  sign, gives \<open>undefined\<close>. So a value is cut at its second equals sign, and never holds one.
\<close>
theorem getQueryValue_first_pair:
  "getQueryValue search key =
    (case map_of (map pair_of (split_on CHR ''&'' (drop 1 search))) key of Some v \<Rightarrow> v | None \<Rightarrow> None) \<and>
   list_all (\<lambda>v. CHR ''='' \<notin> set v \<and> CHR ''&'' \<notin> set v) (case getQueryValue search key of Some v \<Rightarrow> [v] | None \<Rightarrow> [])"
  using getQueryValue_chars [of search key]
  by (simp add: getQueryValue_lookup lookup_def query_pairs_def split: option.split)

text \<open>The query string \<open>?scope=a=b\<close> loses the part of the value behind its own equals sign.\<close>

theorem scope_value_truncated: "getQueryValue ''?scope=a=b'' ''scope'' = Some ''a''"
  by code_simp

text \<open>
  A path is taken as it is: behind a question mark in the name of a case, the scope joins
  the query that the name starts.
\<close>

theorem case_name_with_query: "scopedUri ''?scope=dev'' (''/c/'' @ ''a?b'') = ''/c/a?b&scope=dev''"
  by code_simp

section \<open>The request that runs a case\<close>

text \<open>
  Running a case posts one JSON text to \<open>/e\<close>, with \<open>validate=true\<close> when asked for and
  the scope when the page has one, and the text parses to the posted value.
\<close>
theorem executeCase_request:
  assumes "wf_js json" and "json \<noteq> Undef"
  shows "verb (executeCase search json params) = Some ''POST'' \<and>
    contentType (executeCase search json params) = Some ''application/json'' \<and>
    url (executeCase search json params) = scopedUri search
      (case params of None \<Rightarrow> ''/e'' | Some p \<Rightarrow> if p = [] then ''/e'' else ''/e?'' @ p) \<and>
    map_option JSON_parse (body (executeCase search json params)) = Some (Inr (jsonify json))"
proof -
  have "JSON_stringify [] json = Some (json_print [] [] (jsonify json))"
    using assms(2) by (simp add: JSON_stringify_def)
  then show ?thesis
    using assms(1) by (auto simp: executeCase_def Let_def JSON_parse_print wf_js_jsonify split: option.split)
qed

theorem executeCase_request_witness:
  "url (executeCase ''?scope=dev'' (Obj [(''name'', Str ''a'')]) (Some ''validate=true'')) = ''/e?validate=true&scope=dev'' \<and>
    map_option JSON_parse (body (executeCase ''?scope=dev'' (Obj [(''name'', Str ''a'')]) (Some ''validate=true''))) =
      Some (Inr (Obj [(''name'', Str ''a'')]))"
proof -
  have "wf_js (Obj [(''name'', Str ''a'')])" by (simp add: props_wf_def)
  from executeCase_request [OF this _, of "''?scope=dev''" "Some ''validate=true''"]
  have u: "url (executeCase ''?scope=dev'' (Obj [(''name'', Str ''a'')]) (Some ''validate=true'')) = scopedUri ''?scope=dev'' ''/e?validate=true''"
    and b: "map_option JSON_parse (body (executeCase ''?scope=dev'' (Obj [(''name'', Str ''a'')]) (Some ''validate=true''))) =
      Some (Inr (jsonify (Obj [(''name'', Str ''a'')])))"
    by simp_all
  have "scopedUri ''?scope=dev'' ''/e?validate=true'' = ''/e?validate=true&scope=dev''" by code_simp
  moreover have "jsonify (Obj [(''name'', Str ''a'')]) = Obj [(''name'', Str ''a'')]" by code_simp
  ultimately show ?thesis using u b by simp
qed

end
