(* ===== verification/YamlTs.thy ===== *)
theory YamlTs
  imports JsonText
begin

text \<open>
  \<open>powerful-front/src/yaml.ts\<close>: the two calls into \<open>js-yaml\<close>. The library is not part of
  the program, so its \<open>dump\<close> and \<open>load\<close> are arguments; what the program relies on is the
  locale \<open>text_codec\<close>, that printing a document succeeds and reading the text gives the
  document back. The JSON printer and parser, whose texts are YAML too, satisfy it.
\<close>

section \<open>The two calls\<close>

record dump_options =
  noArrayIndent :: bool

definition yamlDumpOption :: dump_options where
  "yamlDumpOption = \<lparr>noArrayIndent = True\<rparr>"

definition toYaml :: "(jsv \<Rightarrow> dump_options \<Rightarrow> string result) \<Rightarrow> jsv \<Rightarrow> string result" where
  "toYaml dump data = dump data yamlDumpOption"

definition fromYaml :: "(string \<Rightarrow> jsv result) \<Rightarrow> string \<Rightarrow> jsv result" where
  "fromYaml load str = load str"

section \<open>Documents that YAML carries\<close>

text \<open>
  No object has a property named \<open>__proto__\<close>: reading such a mapping assigns the prototype
  instead of a property.
\<close>

fun proto_free :: "jsv \<Rightarrow> bool" where
  "proto_free (Arr xs) \<longleftrightarrow> list_all proto_free xs"
| "proto_free (Obj ps) \<longleftrightarrow> list_all (\<lambda>kv. fst kv \<noteq> ''__proto__'' \<and> proto_free (snd kv)) ps"
| "proto_free _ \<longleftrightarrow> True"

definition yaml_value :: "jsv \<Rightarrow> bool" where
  "yaml_value v \<longleftrightarrow> json_value v \<and> wf_js v \<and> proto_free v"

lemma proto_free_Obj: "proto_free (Obj ps) \<longleftrightarrow> (\<forall>(k, v)\<in>set ps. k \<noteq> ''__proto__'' \<and> proto_free v)"
  by (auto simp: list_all_iff)

declare proto_free.simps(2) [simp del]

lemma yaml_value_member: "yaml_value (Obj ps) \<Longrightarrow> map_of ps k = Some v \<Longrightarrow> yaml_value v"
  using json_value_member wf_js_member proto_free_Obj map_of_SomeD [of ps k v]
  unfolding yaml_value_def by blast

lemma yaml_value_own_put:
  assumes "yaml_value (Obj ps)" and "yaml_value v" and "k \<noteq> ''__proto__''"
  shows "yaml_value (Obj (own_put k v ps))"
proof -
  have "proto_free (Obj (own_put k v ps))"
    using assms set_own_put [of k v ps] unfolding proto_free_Obj yaml_value_def by blast
  with assms show ?thesis
    by (simp add: yaml_value_def wf_js_own_put json_value_own_put del: wf_js_Obj_iff json_value_Obj_iff)
qed

section \<open>The interface\<close>

locale text_codec =
  fixes print_text :: "'a \<Rightarrow> js_error + string"
    and read_text :: "string \<Rightarrow> js_error + 'a"
    and good :: "'a \<Rightarrow> bool"
  assumes print_ok: "good v \<Longrightarrow> is_ok (print_text v)"
    and read_print: "good v \<Longrightarrow> print_text v = Inr t \<Longrightarrow> read_text t = Inr v"
begin

lemma print_read: "good v \<Longrightarrow> rbind (print_text v) read_text = Inr v"
  using print_ok [of v] read_print [of v] by (cases "print_text v") auto

lemma print_inject: "good v \<Longrightarrow> good w \<Longrightarrow> print_text v = print_text w \<Longrightarrow> v = w"
  by (metis is_ok_iff print_ok read_print sum.inject(2))

lemma print_obtain:
  assumes "good v"
  obtains t where "print_text v = Inr t" and "read_text t = Inr v"
  using print_ok [OF assms] read_print [OF assms] unfolding is_ok_iff by blast

end

text \<open>What the program relies on of \<open>js-yaml\<close>.\<close>

abbreviation yaml_laws :: "(jsv \<Rightarrow> dump_options \<Rightarrow> string result) \<Rightarrow> (string \<Rightarrow> jsv result) \<Rightarrow> bool" where
  "yaml_laws dump load \<equiv> text_codec (toYaml dump) (fromYaml load) yaml_value"

section \<open>The JSON texts as a codec\<close>

definition json_text :: "jsv \<Rightarrow> string result" where
  "json_text v = (case JSON_stringify ''  '' v of Some t \<Rightarrow> Inr t | None \<Rightarrow> Inl SyntaxError)"

definition json_dump :: "jsv \<Rightarrow> dump_options \<Rightarrow> string result" where
  "json_dump v opts = (if json_value v then json_text v else Inl YamlError)"

text \<open>An empty text is an empty YAML stream, which is no JSON text; \<open>load\<close> gives \<open>undefined\<close>.\<close>

definition json_load :: "string \<Rightarrow> jsv result" where
  "json_load t = (if t = [] then Inr Undef else (case JSON_parse t of Inr v \<Rightarrow> Inr v | Inl e \<Rightarrow> Inl YamlError))"

lemma json_text_parse: "json_value v \<Longrightarrow> wf_js v \<Longrightarrow> \<exists>t. json_text v = Inr t \<and> JSON_parse t = Inr v"
  by (auto simp: json_text_def JSON_stringify_def JSON_parse_print is_ws_def jsonify_json_value
      dest: json_value_not_Undef)

interpretation json: text_codec json_text JSON_parse "\<lambda>v. json_value v \<and> wf_js v"
proof
  show "is_ok (json_text v)" if "json_value v \<and> wf_js v" for v
    using json_text_parse [of v] that by auto
  show "JSON_parse t = Inr v" if "json_value v \<and> wf_js v" "json_text v = Inr t" for v t
    using json_text_parse [of v] that by auto
qed

lemma JSON_parse_Nil: "JSON_parse [] = Inl SyntaxError"
  by code_simp

interpretation json_yaml: text_codec "toYaml json_dump" "fromYaml json_load" yaml_value
proof
  fix v assume v: "yaml_value v"
  then show "is_ok (toYaml json_dump v)"
    using json.print_ok [of v] by (simp add: toYaml_def json_dump_def yaml_value_def)
  fix t assume "toYaml json_dump v = Inr t"
  then have "JSON_parse t = Inr v"
    using v json.read_print [of v t] by (simp add: toYaml_def json_dump_def yaml_value_def)
  then show "fromYaml json_load t = Inr v"
    using JSON_parse_Nil by (auto simp: fromYaml_def json_load_def)
qed

end
