(* ===== verification/CarriedCases.thy ===== *)
theory CarriedCases
  imports FormCases YamlTs
begin

text \<open>
  The cases that travel between the form, the YAML text and the server: both conversions keep
  them free of \<open>__proto__\<close> properties, so a posted case is a document YAML carries.
\<close>

definition carried_form :: "jsv \<Rightarrow> bool" where
  "carried_form d \<longleftrightarrow> form_case d \<and> proto_free d"

definition carried_case :: "jsv \<Rightarrow> bool" where
  "carried_case v \<longleftrightarrow> text_case v \<and> proto_free v"

lemma carried_case_yaml: "carried_case v \<Longrightarrow> yaml_value v"
  by (simp add: carried_case_def text_case_def yaml_value_def)

lemma proto_free_own_put:
  "proto_free (Obj ps) \<Longrightarrow> proto_free v \<Longrightarrow> k \<noteq> ''__proto__'' \<Longrightarrow> proto_free (Obj (own_put k v ps))"
  using set_own_put [of k v ps] unfolding proto_free_Obj by blast

lemma proto_free_own_del: "proto_free (Obj ps) \<Longrightarrow> proto_free (Obj (own_del k ps))"
  unfolding proto_free_Obj own_del_def by auto

lemma proto_free_put_defined:
  "proto_free (Obj ps) \<Longrightarrow> proto_free v \<Longrightarrow> k \<noteq> ''__proto__'' \<Longrightarrow> proto_free (Obj (put_defined k v ps))"
  by (simp add: put_defined_def proto_free_own_put)

lemma proto_free_jsonify: "proto_free v \<Longrightarrow> proto_free (jsonify v)"
proof (induction v rule: jsv_induct)
  case (Obj ps)
  then show ?case
    unfolding jsonify_Obj proto_free_Obj jsonify_props_def defined_props_def by fastforce
qed (auto simp: list_all_iff)

lemma text_prop_proto_free: "text_prop (k, x) \<Longrightarrow> k \<noteq> ''__proto__'' \<and> proto_free x"
  by (auto simp: text_prop_def split: jsv.splits)

lemma text_rows_proto_free: "text_rows v \<Longrightarrow> proto_free v"
  by (cases v) (auto simp: text_rows_def proto_free_Obj list_all_iff dest: text_prop_proto_free)

lemma proto_free_base: "proto_free (Obj n) \<Longrightarrow> proto_free (Obj (base n))"
  unfolding base_def by (intro proto_free_own_del)

lemma proto_free_posted_node:
  "proto_free (Obj n) \<Longrightarrow> text_rows h \<Longrightarrow> text_rows q \<Longrightarrow> proto_free (Obj (posted_node n h q))"
  unfolding posted_node_def
  by (rule proto_free_put_defined [OF proto_free_put_defined [OF proto_free_base]]) (simp_all add: text_rows_proto_free)

lemma proto_free_member: "proto_free (Obj ps) \<Longrightarrow> map_of ps k = Some v \<Longrightarrow> proto_free v"
  unfolding proto_free_Obj by (drule map_of_SomeD) blast

lemma posted_proto_free:
  assumes "carried_form d" and "viewToPost d = Inr p"
  shows "proto_free p"
proof -
  have f: "form_case d" "proto_free d" using assms(1) by (simp_all add: carried_form_def)
  obtain ps xs where d: "d = Obj ps" "wf_js (Obj ps)" "map_of ps ''trace'' = Some (Arr xs)"
    and xs: "\<And>x. x \<in> set xs \<Longrightarrow> form_node x \<and> wf_js x"
    using form_caseE [OF f(1)] by blast
  have "distinct (map fst ps)" using d(2) by (simp add: props_wf_def)
  from assms(2) [unfolded d(1) viewToPost_Obj [OF d(3) this]]
  obtain ys where ys: "rmap post_node (map jsonify xs) = Inr ys"
    and p: "p = Obj (own_del ''validate'' (own_put ''trace'' (Arr ys) (jsonify_props ps)))"
    unfolding rbind_eq_Inr by blast
  have "proto_free (Arr xs)" using proto_free_member d(1,3) f(2) by blast
  then have px: "proto_free x" if "x \<in> set xs" for x using that by (simp add: list_all_iff)
  have "proto_free y" if "y \<in> set ys" for y
  proof -
    from rmap_set [OF ys that] obtain x where x: "x \<in> set xs" "post_node (jsonify x) = Inr y" by auto
    obtain m where m: "jsonify x = Obj m" "form_node (Obj m)"
      using form_nodeE xs [OF x(1)] by blast
    from post_form_node [OF m(2)] obtain h q where "y = Obj (posted_node m h q)" "text_rows h" "text_rows q"
      using x(2) m(1) by auto
    with px [OF x(1)] proto_free_jsonify [of x] m(1) show ?thesis by (simp add: proto_free_posted_node)
  qed
  then have "proto_free (Arr ys)" by (simp add: list_all_iff)
  moreover have "proto_free (Obj (jsonify_props ps))" using proto_free_jsonify [of d] f(2) d(1) by simp
  ultimately show ?thesis unfolding p by (intro proto_free_own_del proto_free_own_put) auto
qed

lemma carried_form_posted:
  assumes "carried_form d"
  obtains p where "viewToPost d = Inr p" and "carried_case p" and "reorder p = p"
proof -
  have "form_case d" using assms by (simp add: carried_form_def)
  then obtain p where p: "viewToPost d = Inr p" "text_case p" "reorder p = p" using form_case_posted by blast
  with posted_proto_free [OF assms p(1)] that show ?thesis by (simp add: carried_case_def)
qed

lemma proto_free_objToArray: "text_rows v \<Longrightarrow> proto_free (objToArray v)"
proof (cases v)
  case (Obj rs)
  assume "text_rows v"
  then have "proto_free x" if "(k, x) \<in> set rs" for k x
    using that text_prop_proto_free [of k x] by (auto simp: Obj text_rows_def list_all_iff)
  then show ?thesis
    by (auto simp: Obj objToArray_Obj row_def proto_free_Obj list_all_iff)
qed (simp_all add: objToArray_def text_rows_def)

lemma proto_free_view_props:
  "text_node (Obj n) \<Longrightarrow> proto_free (Obj n) \<Longrightarrow> proto_free (Obj (view_props n))"
  unfolding view_props_def
  by (intro proto_free_own_put proto_free_objToArray) (simp_all add: text_node_def)

lemma carried_case_shown:
  assumes "carried_case v"
  obtains d where "postToView v = Inr d" and "carried_form d"
proof -
  have f: "text_case v" "proto_free v" using assms by (simp_all add: carried_case_def)
  obtain ps nodes where v: "v = Obj ps" and t: "map_of ps ''trace'' = Some (Arr (map Obj nodes))"
    and j: "json_value (Obj ps)" and n: "\<And>n. n \<in> set nodes \<Longrightarrow> text_node (Obj n)"
    using text_caseE [OF f(1)] by blast
  obtain d where d: "postToView v = Inr d" "form_case d" using text_case_shown [OF f(1)] by blast
  have "proto_free (Arr (map Obj nodes))" using proto_free_member t f(2) v by blast
  then have "proto_free (Obj (view_props n))" if "n \<in> set nodes" for n
    using proto_free_view_props [OF n [OF that]] that by (simp add: list_all_iff)
  then have "proto_free (Arr (map (\<lambda>n. Obj (view_props n)) nodes))" by (simp add: list_all_iff)
  then have "proto_free (Obj (own_put ''trace'' (Arr (map (\<lambda>n. Obj (view_props n)) nodes)) ps))"
    using f(2) v by (intro proto_free_own_put) auto
  then have "proto_free d"
    using d(1) f(2) unfolding v postToView_Obj [OF j t] by (auto split: if_splits)
  with d that show ?thesis by (simp add: carried_form_def)
qed

end
