(* ===== verification/ClipboardTs.thy ===== *)
theory ClipboardTs
  imports Prelude
begin

text \<open>
  \<open>powerful-front/src/clipboard.ts\<close>: copying a text, with the asynchronous clipboard where the
  browser has one and through a temporary text area where it has not. The state is what the
  code touches of the browser: the children of the body, the focused element and its
  selection, the clipboard, the promises under way and the console.
\<close>

section \<open>The browser\<close>

text \<open>An element of the body: one the page rendered, or a text area the code created.\<close>

datatype element = Rendered string | TextArea nat

record text_area =
  value_of :: string
  fixed :: bool

record browser =
  children :: "element list"
  areas :: "nat \<Rightarrow> text_area"
  fresh :: nat
  focused :: "element option"
  selected :: bool
  clip :: string
  writing :: "string list"
  console :: "string list"

text \<open>What the browser does when asked to copy: \<open>execCommand\<close> returns a flag or throws.\<close>

datatype copy_policy = Permits | Refuses | Throws

definition createTextArea :: "browser \<Rightarrow> nat \<times> browser" where
  "createTextArea b = (fresh b, b\<lparr>areas := (areas b)(fresh b := \<lparr>value_of = [], fixed = False\<rparr>), fresh := fresh b + 1\<rparr>)"

definition appendChild :: "element \<Rightarrow> browser \<Rightarrow> browser" where
  "appendChild e b = b\<lparr>children := filter (\<lambda>x. x \<noteq> e) (children b) @ [e]\<rparr>"

text \<open>Removing an element takes the focus away from it.\<close>

definition removeChild :: "element \<Rightarrow> browser \<Rightarrow> browser" where
  "removeChild e b = b\<lparr>children := filter (\<lambda>x. x \<noteq> e) (children b),
     focused := (if focused b = Some e then None else focused b),
     selected := (if focused b = Some e then False else selected b)\<rparr>"

definition log_line :: "string \<Rightarrow> browser \<Rightarrow> browser" where
  "log_line s b = b\<lparr>console := console b @ [s]\<rparr>"

definition execCopy :: "copy_policy \<Rightarrow> browser \<Rightarrow> bool option \<times> browser" where
  "execCopy policy b = (case policy of
      Throws \<Rightarrow> (None, b)
    | Refuses \<Rightarrow> (Some False, b)
    | Permits \<Rightarrow> (case focused b of
        Some (TextArea n) \<Rightarrow> if selected b then (Some True, b\<lparr>clip := value_of (areas b n)\<rparr>) else (Some False, b)
      | _ \<Rightarrow> (Some False, b)))"

section \<open>Copying\<close>

definition fallbackCopyTextToClipboard :: "copy_policy \<Rightarrow> string \<Rightarrow> browser \<Rightarrow> browser" where
  "fallbackCopyTextToClipboard policy text b0 =
     (let (n, b) = createTextArea b0;
          b = b\<lparr>areas := (areas b)(n := (areas b n)\<lparr>value_of := text\<rparr>)\<rparr>;
          b = b\<lparr>areas := (areas b)(n := (areas b n)\<lparr>fixed := True\<rparr>)\<rparr>;
          b = appendChild (TextArea n) b;
          b = b\<lparr>focused := Some (TextArea n), selected := False\<rparr>;
          b = b\<lparr>selected := True\<rparr>;
          (successful, b) = execCopy policy b;
          b = (case successful of
              Some ok \<Rightarrow> log_line (''Fallback: Copying text command was '' @ (if ok then ''successful'' else ''unsuccessful'')) b
            | None \<Rightarrow> log_line ''Fallback: Oops, unable to copy'' b)
      in removeChild (TextArea n) b)"

text \<open>\<open>navigator.clipboard\<close> exists on secure pages only.\<close>

definition copyTextToClipboard :: "bool \<Rightarrow> copy_policy \<Rightarrow> string \<Rightarrow> browser \<Rightarrow> browser" where
  "copyTextToClipboard has_clipboard policy text b =
     (if \<not> has_clipboard then fallbackCopyTextToClipboard policy text b
      else b\<lparr>writing := writing b @ [text]\<rparr>)"

text \<open>The oldest promise of \<open>writeText\<close> settles: fulfilled, or rejected.\<close>

definition settleWrite :: "bool \<Rightarrow> browser \<Rightarrow> browser" where
  "settleWrite fulfilled b = (case writing b of
      [] \<Rightarrow> b
    | text # rest \<Rightarrow>
        if fulfilled then log_line ''Async: Copying to clipboard was successful!'' (b\<lparr>writing := rest, clip := text\<rparr>)
        else log_line ''Async: Could not copy text: '' (b\<lparr>writing := rest\<rparr>))"

section \<open>What copying leaves behind\<close>

text \<open>Text areas are numbered in the order of their creation.\<close>

definition browser_wf :: "browser \<Rightarrow> bool" where
  "browser_wf b \<longleftrightarrow> list_all (\<lambda>e. case e of TextArea n \<Rightarrow> n < fresh b | _ \<Rightarrow> True) (children b)"

lemma fresh_area: "browser_wf b \<Longrightarrow> filter (\<lambda>x. x \<noteq> TextArea (fresh b)) (children b) = children b"
  unfolding browser_wf_def by (intro filter_True) (auto simp: list_all_iff)

lemma fallback_effect:
  assumes "browser_wf b"
  shows "children (fallbackCopyTextToClipboard policy text b) = children b \<and>
    clip (fallbackCopyTextToClipboard policy text b) = (if policy = Permits then text else clip b) \<and>
    writing (fallbackCopyTextToClipboard policy text b) = writing b \<and>
    focused (fallbackCopyTextToClipboard policy text b) = None \<and>
    fresh (fallbackCopyTextToClipboard policy text b) = fresh b + 1 \<and>
    console (fallbackCopyTextToClipboard policy text b) = console b @ [case policy of
        Permits \<Rightarrow> ''Fallback: Copying text command was successful''
      | Refuses \<Rightarrow> ''Fallback: Copying text command was unsuccessful''
      | Throws \<Rightarrow> ''Fallback: Oops, unable to copy'']"
  using fresh_area [OF assms]
  by (cases policy) (simp_all add: fallbackCopyTextToClipboard_def createTextArea_def appendChild_def
      removeChild_def execCopy_def log_line_def Let_def)

lemma settle_effect:
  assumes "writing b = []"
  shows "clip (settleWrite ok (copyTextToClipboard True policy text b)) = (if ok then text else clip b) \<and>
    children (settleWrite ok (copyTextToClipboard True policy text b)) = children b \<and>
    writing (settleWrite ok (copyTextToClipboard True policy text b)) = []"
  using assms by (simp add: copyTextToClipboard_def settleWrite_def log_line_def)

text \<open>
  Copying through the text area puts the text on the clipboard exactly when the browser
  permits it and leaves the clipboard alone otherwise; whether the command succeeds, is
  refused or throws, the text area is gone from the page afterwards, one line is logged, and
  the element that had the focus has lost it.
\<close>
theorem fallback_copy:
  assumes "browser_wf b"
  shows "children (copyTextToClipboard False policy text b) = children b \<and>
    clip (copyTextToClipboard False policy text b) = (if policy = Permits then text else clip b) \<and>
    focused (copyTextToClipboard False policy text b) = None \<and>
    length (console (copyTextToClipboard False policy text b)) = Suc (length (console b)) \<and>
    browser_wf (copyTextToClipboard False policy text b)"
proof -
  have "browser_wf (fallbackCopyTextToClipboard policy text b)"
    using assms fallback_effect [OF assms, of policy "text"]
    by (auto simp: browser_wf_def list_all_iff less_Suc_eq split: element.splits)
  then show ?thesis
    using fallback_effect [OF assms, of policy "text"] by (simp add: copyTextToClipboard_def)
qed

definition page :: browser where
  "page = \<lparr>children = [Rendered ''root''], areas = (\<lambda>_. \<lparr>value_of = [], fixed = False\<rparr>), fresh = 0,
     focused = Some (Rendered ''root''), selected = False, clip = ''old'', writing = [], console = []\<rparr>"

theorem fallback_copy_witness:
  "children (copyTextToClipboard False Refuses ''new'' page) = [Rendered ''root''] \<and>
    clip (copyTextToClipboard False Refuses ''new'' page) = ''old'' \<and>
    clip (copyTextToClipboard False Permits ''new'' page) = ''new''"
proof -
  have "browser_wf page" by (simp add: browser_wf_def page_def)
  moreover have "children page = [Rendered ''root'']" "clip page = ''old''" by (simp_all add: page_def)
  ultimately show ?thesis
    using fallback_copy [of page Refuses "''new''"] fallback_copy [of page Permits "''new''"] by simp
qed

end
