(* ===== verification/SaveToolsTsx.thy ===== *)
theory SaveToolsTsx
  imports FormCases YamlTs ClipboardTs
begin

text \<open>
  \<open>powerful-front/src/SaveTools.tsx\<close>: the cases saved in the browser. All of them live in one
  YAML text under one key of the local storage, a document \<open>{cases: {name: case, ...}}\<close>.
  Every operation is a definition on the component's state; the second half shows that the
  text behaves as a map from names to posted cases.
\<close>

section \<open>Local storage\<close>

type_synonym storage = "string \<Rightarrow> string option"

definition removeItem :: "string \<Rightarrow> storage \<Rightarrow> storage" where
  "removeItem k m = m(k := None)"

definition putItem :: "string \<Rightarrow> string \<Rightarrow> storage \<Rightarrow> storage" where
  "putItem k v m = m(k \<mapsto> v)"

text \<open>\<open>setItem\<close> throws when the entry does not fit.\<close>

definition setItem :: "(storage \<Rightarrow> bool) \<Rightarrow> string \<Rightarrow> string \<Rightarrow> storage \<Rightarrow> storage result" where
  "setItem fits k v m = (if fits (putItem k v m) then Inr (putItem k v m) else Inl QuotaExceeded)"

interpretation storage: kv_store Map.empty "\<lambda>m. m" putItem removeItem "\<lambda>_. True"
  by unfold_locales (auto simp: putItem_def removeItem_def)

section \<open>The component\<close>

text \<open>
  The field of the name, what the component last passed to \<open>setDisplayString\<close> (the console of
  the application, which holds \<open>undefined\<close> after a request without a response), the storage
  and the browser tab.
\<close>

record tools =
  saveName :: string
  displayString :: "string option"
  local_storage :: storage
  tab :: browser

definition cacheKey :: string where
  "cacheKey = ''powerful-cases''"

definition showCache :: "tools \<Rightarrow> tools" where
  "showCache s = s\<lparr>displayString := Some (case local_storage s cacheKey of None \<Rightarrow> [] | Some str \<Rightarrow> str)\<rparr>"

text \<open>The document \<open>saveToCache\<close> writes: \<open>data.cases[name] = viewToPost(displayData)\<close>.\<close>

definition add_case :: "string \<Rightarrow> jsv \<Rightarrow> jsv \<Rightarrow> jsv result" where
  "add_case name displayData data =
     rbind (get_member data ''cases'') (\<lambda>cases.
     rbind (viewToPost displayData) (\<lambda>posted.
     rbind (set_member cases name posted) (\<lambda>cases.
     set_member data ''cases'' cases)))"

definition saveToCache ::
  "(storage \<Rightarrow> bool) \<Rightarrow> (jsv \<Rightarrow> dump_options \<Rightarrow> string result) \<Rightarrow> (string \<Rightarrow> jsv result) \<Rightarrow>
    jsv \<Rightarrow> string \<Rightarrow> tools \<Rightarrow> tools result" where
  "saveToCache fits dump load displayData name s =
     (if name = [] then Inr s
      else let cache = local_storage s cacheKey
        in rbind (case cache of None \<Rightarrow> Inr (Obj [(''cases'', Obj [])]) | Some c \<Rightarrow> fromYaml load c) (\<lambda>data.
           rbind (add_case name displayData data) (\<lambda>data.
           rbind (toYaml dump data) (\<lambda>str.
           rbind (setItem fits cacheKey str (local_storage s)) (\<lambda>m.
           Inr (showCache (s\<lparr>local_storage := m\<rparr>)))))))"

definition copyToClipboard :: "bool \<Rightarrow> copy_policy \<Rightarrow> tools \<Rightarrow> tools" where
  "copyToClipboard has_clipboard policy s =
     (let s = (case local_storage s cacheKey of
          None \<Rightarrow> s
        | Some data \<Rightarrow> s\<lparr>tab := copyTextToClipboard has_clipboard policy data (tab s)\<rparr>)
      in s\<lparr>displayString := Some ''Successfully copied to clipboard.''\<rparr>)"

definition clearCache :: "tools \<Rightarrow> tools" where
  "clearCache s = showCache (s\<lparr>local_storage := removeItem cacheKey (local_storage s)\<rparr>)"

text \<open>The name field and the four buttons. A button whose handler throws changes nothing.\<close>

datatype tools_event = TypeName string | ClickSave | ClickShow | ClickCopy | ClickClear

definition tools_step ::
  "(storage \<Rightarrow> bool) \<Rightarrow> (jsv \<Rightarrow> dump_options \<Rightarrow> string result) \<Rightarrow> (string \<Rightarrow> jsv result) \<Rightarrow>
    bool \<Rightarrow> copy_policy \<Rightarrow> jsv \<Rightarrow> tools_event \<Rightarrow> tools \<Rightarrow> tools" where
  "tools_step fits dump load has_clipboard policy displayData e s = (case e of
      TypeName name \<Rightarrow> s\<lparr>saveName := name\<rparr>
    | ClickSave \<Rightarrow> (case saveToCache fits dump load displayData (saveName s) s of Inr s' \<Rightarrow> s' | Inl _ \<Rightarrow> s)
    | ClickShow \<Rightarrow> showCache s
    | ClickCopy \<Rightarrow> copyToClipboard has_clipboard policy s
    | ClickClear \<Rightarrow> clearCache s)"

section \<open>The saved cases as a map\<close>

text \<open>The document in the cache, and the case saved under a name.\<close>

definition cache_doc :: "(string \<Rightarrow> jsv result) \<Rightarrow> storage \<Rightarrow> jsv result" where
  "cache_doc load m = (case m cacheKey of None \<Rightarrow> Inr (Obj [(''cases'', Obj [])]) | Some c \<Rightarrow> fromYaml load c)"

definition cases_doc :: "props \<Rightarrow> jsv" where
  "cases_doc cs = Obj [(''cases'', Obj cs)]"

definition cache_ok :: "(string \<Rightarrow> jsv result) \<Rightarrow> storage \<Rightarrow> bool" where
  "cache_ok load m \<longleftrightarrow> (case cache_doc load m of
      Inr doc \<Rightarrow> (case member_of doc ''cases'' of
          Obj cs \<Rightarrow> doc = cases_doc cs \<and> yaml_value (Obj cs)
        | _ \<Rightarrow> False)
    | Inl _ \<Rightarrow> False)"

definition saved :: "(string \<Rightarrow> jsv result) \<Rightarrow> storage \<Rightarrow> string \<Rightarrow> jsv option" where
  "saved load m name = (case cache_doc load m of
      Inr doc \<Rightarrow> (case member_of doc ''cases'' of Obj cs \<Rightarrow> map_of cs name | _ \<Rightarrow> None)
    | Inl _ \<Rightarrow> None)"

lemma cache_okE:
  assumes "cache_ok load m"
  obtains cs where "cache_doc load m = Inr (cases_doc cs)" and "yaml_value (Obj cs)"
    and "saved load m = map_of cs"
proof -
  from assms obtain cs where cs: "cache_doc load m = Inr (cases_doc cs)" "yaml_value (Obj cs)"
    unfolding cache_ok_def by (auto split: sum.splits jsv.splits)
  moreover from cs have "saved load m = map_of cs"
    by (simp add: saved_def fun_eq_iff cases_doc_def member_of_def)
  ultimately show ?thesis using that by blast
qed

lemma cache_okI:
  "cache_doc load m = Inr (cases_doc cs) \<Longrightarrow> yaml_value (Obj cs) \<Longrightarrow> cache_ok load m \<and> saved load m = map_of cs"
  by (simp add: cache_ok_def cases_doc_def saved_def fun_eq_iff member_of_def)

lemma yaml_cases_doc: "yaml_value (Obj cs) \<Longrightarrow> yaml_value (cases_doc cs)"
  by (simp add: yaml_value_def cases_doc_def props_wf_def del: wf_js_Obj_iff json_value_Obj_iff)
    (simp add: props_wf_def proto_free_Obj)

lemma cache_ok_empty: "m cacheKey = None \<Longrightarrow> cache_ok load m \<and> saved load m = Map.empty"
  using cache_okI [of load m "[]"] by (simp add: cache_doc_def cases_doc_def yaml_value_def proto_free_Obj)

lemma add_case_doc:
  assumes "viewToPost d = Inr p" and "name \<noteq> ''__proto__''"
  shows "add_case name d (cases_doc cs) = Inr (cases_doc (own_put name p cs))"
  using assms by (simp add: add_case_def cases_doc_def set_member_Obj own_put_def has_own_def)

lemma saveToCache_saves:
  assumes laws: "yaml_laws dump load" and ok: "cache_ok load (local_storage s)"
    and p: "viewToPost d = Inr p" "yaml_value p" and name: "name \<noteq> []" "name \<noteq> ''__proto__''"
    and fits: "\<forall>m. fits m"
  shows "\<exists>s'. saveToCache fits dump load d name s = Inr s' \<and> cache_ok load (local_storage s') \<and>
    saved load (local_storage s') = (saved load (local_storage s))(name \<mapsto> p) \<and>
    local_storage s' cacheKey = displayString s' \<and>
    (\<forall>k. k \<noteq> cacheKey \<longrightarrow> local_storage s' k = local_storage s k)"
proof -
  obtain cs where cs: "cache_doc load (local_storage s) = Inr (cases_doc cs)" "yaml_value (Obj cs)"
    "saved load (local_storage s) = map_of cs"
    using cache_okE [OF ok] .
  define doc where "doc = own_put name p cs"
  have y: "yaml_value (Obj doc)" unfolding doc_def by (rule yaml_value_own_put [OF cs(2) p(2) name(2)])
  obtain t where t: "toYaml dump (cases_doc doc) = Inr t" "fromYaml load t = Inr (cases_doc doc)"
    using text_codec.print_obtain [OF laws yaml_cases_doc [OF y]] by blast
  define m where "m = putItem cacheKey t (local_storage s)"
  have m: "m cacheKey = Some t" "\<And>k. k \<noteq> cacheKey \<Longrightarrow> m k = local_storage s k"
    unfolding m_def using storage.get_put_same storage.get_put_other by blast+
  then have "cache_doc load m = Inr (cases_doc doc)" using t(2) by (simp add: cache_doc_def)
  then have "cache_ok load m" "saved load m = (map_of cs)(name \<mapsto> p)"
    using cache_okI [OF _ y] by (auto simp: doc_def own_simps)
  moreover have "saveToCache fits dump load d name s = Inr (showCache (s\<lparr>local_storage := m\<rparr>))"
    using cs(1) add_case_doc [OF p(1) name(2), of cs] t(1) name(1) fits
    by (simp add: saveToCache_def cache_doc_def setItem_def m_def doc_def Let_def)
  ultimately show ?thesis using m cs(3) by (simp add: showCache_def)
qed

section \<open>A session with the tools\<close>

text \<open>Events with the form's state at the time, and the map a session is meant to build.\<close>

definition tools_run ::
  "(storage \<Rightarrow> bool) \<Rightarrow> (jsv \<Rightarrow> dump_options \<Rightarrow> string result) \<Rightarrow> (string \<Rightarrow> jsv result) \<Rightarrow>
    bool \<Rightarrow> copy_policy \<Rightarrow> (jsv \<times> tools_event) list \<Rightarrow> tools \<Rightarrow> tools" where
  "tools_run fits dump load has_clipboard policy es s =
     foldl (\<lambda>s (d, e). tools_step fits dump load has_clipboard policy d e s) s es"

definition spec_step :: "string \<times> (string \<Rightarrow> jsv option) \<Rightarrow> jsv \<times> tools_event \<Rightarrow> string \<times> (string \<Rightarrow> jsv option)" where
  "spec_step a ev = (case (a, ev) of ((name, m), (d, e)) \<Rightarrow> (case e of
      TypeName x \<Rightarrow> (x, m)
    | ClickSave \<Rightarrow> (name, if name = [] then m else (case viewToPost d of Inr p \<Rightarrow> m(name \<mapsto> p) | Inl _ \<Rightarrow> m))
    | ClickClear \<Rightarrow> (name, Map.empty)
    | _ \<Rightarrow> a))"

text \<open>Names YAML can carry, and a form whose posted case it can carry.\<close>

definition usable :: "jsv \<times> tools_event \<Rightarrow> bool" where
  "usable ev = (case ev of (d, e) \<Rightarrow> (case e of
      TypeName x \<Rightarrow> x \<noteq> ''__proto__''
    | ClickSave \<Rightarrow> (case viewToPost d of Inr p \<Rightarrow> yaml_value p | Inl _ \<Rightarrow> True)
    | _ \<Rightarrow> True))"

definition tools_inv :: "(string \<Rightarrow> jsv result) \<Rightarrow> tools \<Rightarrow> bool" where
  "tools_inv load s \<longleftrightarrow> cache_ok load (local_storage s) \<and> saveName s \<noteq> ''__proto__''"

definition abs_tools :: "(string \<Rightarrow> jsv result) \<Rightarrow> tools \<Rightarrow> string \<times> (string \<Rightarrow> jsv option)" where
  "abs_tools load s = (saveName s, saved load (local_storage s))"

lemma saveToCache_name: "saveToCache fits dump load d name s = Inr s' \<Longrightarrow> saveName s' = saveName s"
  by (auto simp: saveToCache_def rbind_eq_Inr showCache_def Let_def split: if_splits)

lemma saveToCache_no_form:
  assumes "cache_ok load (local_storage s)" and "viewToPost d = Inl e" and "name \<noteq> []"
  shows "saveToCache fits dump load d name s = Inl e"
proof -
  obtain cs where "cache_doc load (local_storage s) = Inr (cases_doc cs)" using cache_okE [OF assms(1)] .
  then show ?thesis
    using assms(2,3) by (simp add: saveToCache_def cache_doc_def add_case_def cases_doc_def Let_def)
qed

lemma tools_step_refines:
  assumes laws: "yaml_laws dump load" and fits: "\<forall>m. fits m" and inv: "tools_inv load s" and ev: "usable (d, e)"
  shows "tools_inv load (tools_step fits dump load hc policy d e s) \<and>
    abs_tools load (tools_step fits dump load hc policy d e s) = spec_step (abs_tools load s) (d, e)"
proof (cases e)
  case ClickSave
  show ?thesis
  proof (cases "saveName s = []")
    case True
    then show ?thesis using inv ClickSave
      by (simp add: tools_step_def saveToCache_def spec_step_def abs_tools_def)
  next
    case False
    show ?thesis
    proof (cases "viewToPost d")
      case (Inl x)
      with False inv saveToCache_no_form [of load s d x "saveName s"] ClickSave show ?thesis
        by (simp add: tools_step_def spec_step_def abs_tools_def tools_inv_def)
    next
      case (Inr p)
      then have y: "yaml_value p" using ev ClickSave by (simp add: usable_def)
      have c: "cache_ok load (local_storage s)" "saveName s \<noteq> ''__proto__''" using inv by (simp_all add: tools_inv_def)
      from saveToCache_saves [OF laws c(1) Inr y False c(2) fits]
      obtain s' where s': "saveToCache fits dump load d (saveName s) s = Inr s'" "cache_ok load (local_storage s')"
        "saved load (local_storage s') = (saved load (local_storage s))(saveName s \<mapsto> p)"
        by blast
      have step: "tools_step fits dump load hc policy d e s = s'"
        by (simp add: tools_step_def ClickSave s'(1))
      have name: "saveName s' = saveName s" by (rule saveToCache_name [OF s'(1)])
      have spec: "spec_step (n, m) (d, e) = (n, m(n \<mapsto> p))" if "n \<noteq> []" for n m
        using that by (simp add: spec_step_def ClickSave Inr)
      from \<open>saveName s \<noteq> ''__proto__''\<close> show ?thesis
        unfolding step tools_inv_def abs_tools_def name s'(3) spec [OF False] using s'(2) by (intro conjI refl)
    qed
  qed
next
  case ClickClear
  define m where "m = removeItem cacheKey (local_storage s)"
  have "m cacheKey = None" by (simp add: m_def removeItem_def)
  then have "cache_ok load m \<and> saved load m = Map.empty" by (rule cache_ok_empty)
  with inv ClickClear show ?thesis
    by (simp add: tools_step_def clearCache_def showCache_def spec_step_def abs_tools_def tools_inv_def m_def)
next
  case ClickCopy
  with inv show ?thesis
    by (simp add: tools_step_def copyToClipboard_def spec_step_def abs_tools_def tools_inv_def Let_def
        split: option.split)
qed (use inv ev in \<open>simp_all add: tools_step_def showCache_def spec_step_def abs_tools_def tools_inv_def usable_def\<close>)

text \<open>
  C6. The saved-cases tools implement a map from names to posted cases, whatever YAML library
  reads back what it prints, as long as the storage takes every text and neither a name nor a
  member of a saved case is \<open>__proto__\<close> (\<open>proto_case_lost\<close>): after a session of typing names,
  saving, showing, copying and clearing, in any order, the text in the local storage denotes
  exactly the map that adding the posted case under its name on every save with a non-empty
  name, and emptying it on every clear, gives; a save without a name or of a form that cannot
  be posted leaves it alone.
\<close>
theorem tools_implement_map:
  assumes "yaml_laws dump load" and "\<forall>m. fits m" and "tools_inv load s" and "list_all usable es"
  shows "tools_inv load (tools_run fits dump load hc policy es s) \<and>
    abs_tools load (tools_run fits dump load hc policy es s) = foldl spec_step (abs_tools load s) es"
  using assms(3,4)
proof (induction es arbitrary: s)
  case (Cons ev es)
  obtain d e where ev: "ev = (d, e)" by (cases ev)
  define s1 where "s1 = tools_step fits dump load hc policy d e s"
  have "usable (d, e)" using Cons.prems ev by simp
  then have s1: "tools_inv load s1" "abs_tools load s1 = spec_step (abs_tools load s) ev"
    unfolding s1_def ev using tools_step_refines [OF assms(1,2) Cons.prems(1)] by blast+
  have "tools_run fits dump load hc policy (ev # es) s = tools_run fits dump load hc policy es s1"
    by (simp add: tools_run_def ev s1_def)
  with Cons.IH [OF s1(1)] Cons.prems(2) s1(2) show ?case by simp
qed (simp add: tools_run_def)

definition new_tools :: tools where
  "new_tools = \<lparr>saveName = [], displayString = Some [], local_storage = Map.empty, tab = page\<rparr>"

lemma new_tools_inv: "tools_inv load new_tools \<and> abs_tools load new_tools = ([], Map.empty)"
  using cache_ok_empty [of "local_storage new_tools" load]
  by (simp add: new_tools_def tools_inv_def abs_tools_def)

definition example_session :: "(jsv \<times> tools_event) list" where
  "example_session = [(Undef, TypeName ''one''), (example_form, ClickSave), (Undef, ClickSave), (Undef, ClickShow)]"

definition example_posted :: jsv where
  "example_posted = Obj [(''name'', Str ''demo''), (''trace'', Arr [
     Obj [(''method'', Str ''GET''), (''headers'', Obj [(''host'', Str ''a.b'')])]])]"

lemma viewToPost_example: "viewToPost example_form = Inr example_posted"
  by code_simp

lemma yaml_value_example: "yaml_value example_posted"
  by code_simp

theorem tools_implement_map_witness:
  "saved json_load (local_storage (tools_run (\<lambda>_. True) json_dump json_load True Permits example_session new_tools)) =
    [''one'' \<mapsto> example_posted]"
proof -
  have u: "viewToPost Undef = Inl SyntaxError" by code_simp
  have "list_all usable example_session"
    by (simp add: example_session_def usable_def viewToPost_example yaml_value_example u)
  with tools_implement_map [OF json_yaml.text_codec_axioms, of "\<lambda>_. True" new_tools example_session True Permits]
  have "abs_tools json_load (tools_run (\<lambda>_. True) json_dump json_load True Permits example_session new_tools) =
      foldl spec_step ([], Map.empty) example_session"
    using new_tools_inv by simp
  moreover have "foldl spec_step ([], Map.empty) example_session = (''one'', [''one'' \<mapsto> example_posted])"
    by (simp add: example_session_def spec_step_def viewToPost_example u)
  ultimately show ?thesis by (simp add: abs_tools_def)
qed

section \<open>What the buttons show\<close>

lemma copy_tab: "tab (copyToClipboard hc policy s) = (case local_storage s cacheKey of
    None \<Rightarrow> tab s | Some data \<Rightarrow> copyTextToClipboard hc policy data (tab s))"
  by (simp add: copyToClipboard_def Let_def split: option.split)

lemma copy_state: "displayString (copyToClipboard hc policy s) = Some ''Successfully copied to clipboard.''"
  "local_storage (copyToClipboard hc policy s) = local_storage s"
  by (simp_all add: copyToClipboard_def Let_def split: option.split)

text \<open>
  Copying the saved cases through the text area: the clipboard receives the stored text
  exactly when there is one and the browser permits it, the page and the storage stay as they
  are, and the console claims success in every case, also when nothing was saved or the
  browser refused.
\<close>
theorem copy_saved_cases:
  assumes "browser_wf (tab s)"
  shows "clip (tab (copyToClipboard False policy s)) = (case local_storage s cacheKey of
        Some t \<Rightarrow> if policy = Permits then t else clip (tab s) | None \<Rightarrow> clip (tab s)) \<and>
    children (tab (copyToClipboard False policy s)) = children (tab s) \<and>
    local_storage (copyToClipboard False policy s) = local_storage s \<and>
    displayString (copyToClipboard False policy s) = Some ''Successfully copied to clipboard.''"
  using fallback_effect [OF assms, of policy]
  by (simp add: copy_tab copy_state copyTextToClipboard_def split: option.split)

theorem copy_saved_cases_witness:
  "clip (tab (copyToClipboard False Permits new_tools)) = ''old'' \<and>
    displayString (copyToClipboard False Permits new_tools) = Some ''Successfully copied to clipboard.''"
proof -
  have "browser_wf (tab new_tools)" by (simp add: new_tools_def page_def browser_wf_def)
  moreover have "local_storage new_tools cacheKey = None" "clip (tab new_tools) = ''old''"
    by (simp_all add: new_tools_def page_def)
  ultimately show ?thesis using copy_saved_cases [of new_tools Permits] by simp
qed

text \<open>
  Saving a case of the form keeps the console, the storage and the earlier saves in step:
  the case is stored under its name as it would be posted, the console shows the stored text,
  earlier saves under other names and the other entries of the storage are unchanged.
\<close>
theorem save_keeps_others:
  assumes "yaml_laws dump load" and "tools_inv load s" and "viewToPost d = Inr p" and "yaml_value p"
    and "saveName s \<noteq> []" and "\<forall>m. fits m"
  shows "\<exists>s'. saveToCache fits dump load d (saveName s) s = Inr s' \<and>
    saved load (local_storage s') = (saved load (local_storage s))(saveName s \<mapsto> p) \<and>
    local_storage s' cacheKey = displayString s' \<and>
    (\<forall>k. k \<noteq> cacheKey \<longrightarrow> local_storage s' k = local_storage s k)"
  using saveToCache_saves [OF assms(1) _ assms(3,4,5) _ assms(6)] assms(2) by (auto simp: tools_inv_def)

theorem save_keeps_others_witness:
  "\<exists>s'. saveToCache (\<lambda>_. True) json_dump json_load example_form ''one'' (new_tools\<lparr>saveName := ''one''\<rparr>) = Inr s' \<and>
    saved json_load (local_storage s') ''one'' = Some example_posted"
proof -
  have "tools_inv json_load (new_tools\<lparr>saveName := ''one''\<rparr>)"
    using new_tools_inv [of json_load] by (simp add: tools_inv_def)
  from save_keeps_others [OF json_yaml.text_codec_axioms this viewToPost_example yaml_value_example, of "\<lambda>_. True"]
  show ?thesis by auto
qed

text \<open>A case saved under the name \<open>__proto__\<close> is lost: the assignment replaces the prototype.\<close>

theorem proto_case_lost:
  "add_case ''__proto__'' example_form (Obj [(''cases'', Obj [])]) = Inr (Obj [(''cases'', Obj [])])"
  by (simp add: add_case_def viewToPost_example set_member_def) (simp add: has_own_def own_put_def)

end
