(* ===== verification/AppTsx.thy ===== *)
theory AppTsx
  imports SaveToolsTsx UriTs
begin

text \<open>
  \<open>powerful-front/src/App.tsx\<close>, the application: its React state, the effects that run when
  the displayed case is another object, the event handlers, the requests it sends and what it
  does with their responses, and the menu it renders. Events are atomic: a handler runs, React
  renders the new state and then runs the effects whose dependencies changed. Responses may
  arrive in any order. Identity matters in one place, the dependency \<open>[displayData]\<close> of the
  effects, so the displayed value carries the number of the object it is.
\<close>

section \<open>State\<close>

datatype request_kind = CaseList | CaseText | Run

record env =
  dump :: "jsv \<Rightarrow> dump_options \<Rightarrow> string result"
  load :: "string \<Rightarrow> jsv result"
  search :: string
  fits :: "storage \<Rightarrow> bool"
  has_clipboard :: bool
  policy :: copy_policy

text \<open>
  The six React states, the module variable \<open>init\<close>, the tools with the state they keep
  themselves (whose \<open>displayString\<close> is the application's \<open>consoleData\<close>: it passes
  \<open>setConsoleData\<close>), the data of the Redux store, the requests sent so far with those
  answered, and whether an exception in rendering or in an effect has unmounted the page.
\<close>

record app =
  displayDataAsString :: "string option"
  displayData :: "nat \<times> jsv"
  cases :: jsv
  yamlStr :: string
  yamlTextFocused :: bool
  init :: bool
  tools_state :: tools
  store :: jsv
  sent :: "(request_kind \<times> ajax_request) list"
  answered :: "nat list"
  objects :: nat
  effects_for :: "nat option"
  crashed :: bool

abbreviation consoleData :: "app \<Rightarrow> string option" where
  "consoleData s \<equiv> displayString (tools_state s)"

abbreviation displayed :: "app \<Rightarrow> jsv" where
  "displayed s \<equiv> snd (displayData s)"

definition setConsoleData :: "string option \<Rightarrow> app \<Rightarrow> app" where
  "setConsoleData t s = s\<lparr>tools_state := (tools_state s)\<lparr>displayString := t\<rparr>\<rparr>"

text \<open>\<open>setDisplayData\<close> with a new object.\<close>

definition setDisplayData :: "jsv \<Rightarrow> app \<Rightarrow> app" where
  "setDisplayData v s = s\<lparr>displayData := (objects s, v), objects := objects s + 1\<rparr>"

definition send :: "request_kind \<Rightarrow> ajax_request \<Rightarrow> app \<Rightarrow> app" where
  "send k r s = s\<lparr>sent := sent s @ [(k, r)]\<rparr>"

section \<open>The store\<close>

text \<open>Lodash \<open>get\<close> along a path of names: \<open>undefined\<close> as soon as a step is missing.\<close>

fun get_path :: "jsv \<Rightarrow> string list \<Rightarrow> jsv" where
  "get_path v [] = v"
| "get_path v (k # ks) = get_path (member_of v k) ks"

definition getDataAsStringFromStore :: "jsv option \<Rightarrow> string option" where
  "getDataAsStringFromStore st = (case st of
      Some state \<Rightarrow> JSON_stringify ''  '' (get_path state [''jsonforms'', ''core'', ''data''])
    | None \<Rightarrow> Some [])"

definition updateStringData :: "app \<Rightarrow> app" where
  "updateStringData s = s\<lparr>displayDataAsString := getDataAsStringFromStore (Some (store s))\<rparr>"

section \<open>Rendering\<close>

text \<open>React renders texts, numbers and lists; it ignores flags and missing values, and throws on an object.\<close>

fun renderable :: "jsv \<Rightarrow> bool" where
  "renderable (Obj _) \<longleftrightarrow> False"
| "renderable (Arr xs) \<longleftrightarrow> list_all renderable xs"
| "renderable _ \<longleftrightarrow> True"

text \<open>The menu: \<open>cases.map(grp => ... grp.group ... grp.cases.map(c => ...))\<close>.\<close>

definition menu_group :: "jsv \<Rightarrow> (jsv \<times> jsv list) result" where
  "menu_group grp =
     rbind (get_member grp ''group'') (\<lambda>group.
     rbind (get_member grp ''cases'') (\<lambda>cs.
     rbind (array_items cs) (\<lambda>names.
     if renderable group \<and> list_all renderable names then Inr (group, names) else Inl TypeError)))"

definition menu :: "jsv \<Rightarrow> (jsv \<times> jsv list) list result" where
  "menu cs = rbind (array_items cs) (rmap menu_group)"

definition caseList_request :: "env \<Rightarrow> ajax_request" where
  "caseList_request env = \<lparr>verb = None, url = scopedUri (search env) ''/caseList'', dataType = None, body = None, contentType = None\<rparr>"

text \<open>The body of the component: the first rendering ever requests the menu.\<close>

definition render :: "env \<Rightarrow> app \<Rightarrow> app" where
  "render env s0 =
     (let s = (if \<not> init s0 then (send CaseList (caseList_request env) s0)\<lparr>init := True\<rparr> else s0)
      in case menu (cases s) of Inr _ \<Rightarrow> s | Inl _ \<Rightarrow> s\<lparr>crashed := True\<rparr>)"

section \<open>Effects\<close>

definition displayData_effects :: "env \<Rightarrow> app \<Rightarrow> app" where
  "displayData_effects env s0 =
     (let s = s0\<lparr>displayDataAsString := JSON_stringify ''  '' (displayed s0), effects_for := Some (fst (displayData s0))\<rparr>
      in if \<not> yamlTextFocused s
         then (case rbind (viewToPost (displayed s)) (toYaml (dump env)) of
             Inr t \<Rightarrow> s\<lparr>yamlStr := t\<rparr>
           | Inl _ \<Rightarrow> s\<lparr>crashed := True\<rparr>)
         else s)"

definition commit :: "env \<Rightarrow> app \<Rightarrow> app" where
  "commit env s0 =
     (let s = render env s0
      in if \<not> crashed s \<and> effects_for s \<noteq> Some (fst (displayData s)) then displayData_effects env s else s)"

section \<open>Handlers\<close>

definition getCase_request :: "env \<Rightarrow> string \<Rightarrow> ajax_request" where
  "getCase_request env name = \<lparr>verb = Some ''Post'', url = scopedUri (search env) (''/c/'' @ name), dataType = None, body = None, contentType = None\<rparr>"

definition getCase :: "env \<Rightarrow> jsv \<Rightarrow> app \<Rightarrow> app" where
  "getCase env name s = (case to_str name of
      Inr n \<Rightarrow> send CaseText (getCase_request env n) s
    | Inl _ \<Rightarrow> s)"

text \<open>The success callback of \<open>getCase\<close>.\<close>

definition receiveCase :: "jsv \<Rightarrow> app \<Rightarrow> app" where
  "receiveCase data1 s = (case rbind (rbind (to_str data1) JSON_parse) postToView of
      Inr d \<Rightarrow> setDisplayData d s
    | Inl _ \<Rightarrow> s)"

definition submit :: "env \<Rightarrow> app \<Rightarrow> app" where
  "submit env s0 =
     (let s = setConsoleData (Some ''loading...'') s0
      in case rbind (fromYaml (load env) (yamlStr s)) (\<lambda>json. rbind (get_member (displayed s) ''expect'') (\<lambda>expect.
          Inr (executeCase (search env) json (if truthy expect then Some ''validate=true'' else None)))) of
        Inr r \<Rightarrow> send Run r s
      | Inl _ \<Rightarrow> s)"

text \<open>\<open>trace.indexOf(null)\<close>: in a list the first element that is \<open>null\<close>, in a text the word.\<close>

fun null_from :: "nat \<Rightarrow> jsv list \<Rightarrow> int" where
  "null_from i [] = -1"
| "null_from i (x # xs) = (if x = Null then int i else null_from (i + 1) xs)"

fun word_from :: "nat \<Rightarrow> string \<Rightarrow> int" where
  "word_from i [] = -1"
| "word_from i (c # cs) = (if take 4 (c # cs) = ''null'' then int i else word_from (i + 1) cs)"

definition indexOf_null :: "jsv \<Rightarrow> int result" where
  "indexOf_null v = (case v of
      Arr xs \<Rightarrow> Inr (null_from 0 xs)
    | Str t \<Rightarrow> Inr (word_from 0 t)
    | _ \<Rightarrow> Inl TypeError)"

text \<open>
  The guarded part of \<open>editYaml\<close>: what it displays, if anything. The object it stores over
  the \<open>null\<close> belongs to a document that is dropped.
\<close>

definition parse_edit :: "env \<Rightarrow> string \<Rightarrow> jsv option result" where
  "parse_edit env content =
     rbind (fromYaml (load env) content) (\<lambda>obj.
     if truthy obj
     then rbind (get_member obj ''trace'') (\<lambda>trace.
       rbind (indexOf_null trace) (\<lambda>nul.
       if nul = -1 then rbind (postToView obj) (\<lambda>d. Inr (Some d))
       else rbind (set_member trace (nat_str (nat nul)) (Obj [])) (\<lambda>_. Inr None)))
     else Inr None)"

definition editYaml :: "env \<Rightarrow> string \<Rightarrow> app \<Rightarrow> app" where
  "editYaml env content s0 =
     (let s = s0\<lparr>yamlStr := content\<rparr>
      in case parse_edit env content of Inr (Some d) \<Rightarrow> setDisplayData d s | _ \<Rightarrow> s)"

text \<open>
  \<open>onChange\<close> of the form, which reports the object it was given or a new one. An empty
  template name is deleted from the reported object itself; reporting the displayed object is
  no new state for React, but the deletion shows in it.
\<close>

datatype report = Same | New jsv

definition drop_template :: "jsv \<Rightarrow> jsv result" where
  "drop_template data =
     rbind (get_member data ''traceNodeTmpl'') (\<lambda>t. if t = Str [] then del_member data ''traceNodeTmpl'' else Inr data)"

definition onChange :: "report \<Rightarrow> app \<Rightarrow> app" where
  "onChange r s = (case r of
      Same \<Rightarrow> (case drop_template (displayed s) of
          Inr d \<Rightarrow> s\<lparr>displayData := (fst (displayData s), d)\<rparr>
        | Inl _ \<Rightarrow> s\<lparr>crashed := True\<rparr>)
    | New v \<Rightarrow> (case drop_template v of
          Inr d \<Rightarrow> setDisplayData d s
        | Inl _ \<Rightarrow> s\<lparr>crashed := True\<rparr>))"

section \<open>Events\<close>

datatype event =
    ClickCase jsv
  | ClickSubmit
  | Type string
  | FocusYaml
  | BlurYaml
  | FormChange report
  | StoreChange jsv
  | Tools tools_event
  | MenuArrives nat jsv
  | CaseArrives nat jsv
  | ResultArrives nat ajax_outcome
  | RequestFails nat

definition answer :: "nat \<Rightarrow> app \<Rightarrow> app" where
  "answer i s = s\<lparr>answered := i # answered s\<rparr>"

definition handle :: "env \<Rightarrow> event \<Rightarrow> app \<Rightarrow> app" where
  "handle env e s = (case e of
      ClickCase c \<Rightarrow> getCase env c s
    | ClickSubmit \<Rightarrow> submit env s
    | Type content \<Rightarrow> editYaml env content s
    | FocusYaml \<Rightarrow> s\<lparr>yamlTextFocused := True\<rparr>
    | BlurYaml \<Rightarrow> s\<lparr>yamlTextFocused := False\<rparr>
    | FormChange r \<Rightarrow> onChange r s
    | StoreChange st \<Rightarrow> updateStringData (s\<lparr>store := st\<rparr>)
    | Tools te \<Rightarrow> s\<lparr>tools_state := tools_step (fits env) (dump env) (load env) (has_clipboard env) (policy env)
        (displayed s) te (tools_state s)\<rparr>
    | MenuArrives i data1 \<Rightarrow> (answer i s)\<lparr>cases := data1\<rparr>
    | CaseArrives i data1 \<Rightarrow> receiveCase data1 (answer i s)
    | ResultArrives i out \<Rightarrow> setConsoleData (executeResult out) (answer i s)
    | RequestFails i \<Rightarrow> answer i s)"

definition pending :: "app \<Rightarrow> nat \<Rightarrow> request_kind \<Rightarrow> bool" where
  "pending s i k \<longleftrightarrow> i < length (sent s) \<and> i \<notin> set (answered s) \<and> fst (sent s ! i) = k"

text \<open>
  Which events can happen: the menu offers the rendered names, the text field reports typing
  while it has the focus, responses answer a request that is under way, and a failed request
  that runs a case has its own callback.
\<close>

definition enabled :: "app \<Rightarrow> event \<Rightarrow> bool" where
  "enabled s e \<longleftrightarrow> \<not> crashed s \<and> (case e of
      ClickCase c \<Rightarrow> (case menu (cases s) of Inr m \<Rightarrow> c \<in> set (concat (map snd m)) | Inl _ \<Rightarrow> False)
    | Type _ \<Rightarrow> yamlTextFocused s
    | MenuArrives i _ \<Rightarrow> pending s i CaseList
    | CaseArrives i _ \<Rightarrow> pending s i CaseText
    | ResultArrives i _ \<Rightarrow> pending s i Run
    | RequestFails i \<Rightarrow> pending s i CaseList \<or> pending s i CaseText
    | _ \<Rightarrow> True)"

definition next_app :: "env \<Rightarrow> event \<Rightarrow> app \<Rightarrow> app" where
  "next_app env e s = commit env (handle env e s)"

section \<open>The first rendering\<close>

definition initial_case :: jsv where
  "initial_case = Obj [(''trace'', Arr [Obj []])]"

definition initial_cases :: jsv where
  "initial_cases = Arr [Obj [(''group'', Str ''grp1''), (''cases'', Arr [Str ''a'', Str ''b''])]]"

definition initial_app :: "jsv \<Rightarrow> storage \<Rightarrow> browser \<Rightarrow> app" where
  "initial_app st m b = \<lparr>displayDataAsString = Some [], displayData = (0, initial_case), cases = initial_cases,
     yamlStr = [], yamlTextFocused = False, init = False,
     tools_state = \<lparr>saveName = [], displayString = Some [], local_storage = m, tab = b\<rparr>,
     store = st, sent = [], answered = [], objects = 1, effects_for = None, crashed = False\<rparr>"

text \<open>Mounting renders, runs the store's effect (subscribe and read once) and then the other two.\<close>

definition mount :: "env \<Rightarrow> jsv \<Rightarrow> storage \<Rightarrow> browser \<Rightarrow> app" where
  "mount env st m b = displayData_effects env (updateStringData (render env (initial_app st m b)))"

inductive reachable :: "env \<Rightarrow> (app \<Rightarrow> event \<Rightarrow> bool) \<Rightarrow> app \<Rightarrow> bool"
  for env :: env and allowed :: "app \<Rightarrow> event \<Rightarrow> bool" where
  start: "reachable env allowed (mount env st m b)"
| step: "reachable env allowed s \<Longrightarrow> enabled s e \<Longrightarrow> allowed s e \<Longrightarrow> reachable env allowed (next_app env e s)"

end
