(* ===== verification/AppSteps.thy ===== *)
theory AppSteps
  imports AppTsx CarriedCases
begin

text \<open>
  What each step of the application touches, and the invariants of every run: the menu is
  requested once, every request is answered at most once, the effects have run for the
  displayed object.
\<close>

section \<open>What the steps touch\<close>

lemma setter_frame [simp]:
  "sent (setConsoleData t s) = sent s" "answered (setConsoleData t s) = answered s" "init (setConsoleData t s) = init s"
  "displayData (setConsoleData t s) = displayData s" "yamlStr (setConsoleData t s) = yamlStr s"
  "yamlTextFocused (setConsoleData t s) = yamlTextFocused s" "cases (setConsoleData t s) = cases s"
  "effects_for (setConsoleData t s) = effects_for s" "crashed (setConsoleData t s) = crashed s" "objects (setConsoleData t s) = objects s"
  "consoleData (setConsoleData t s) = t"
  by (simp_all add: setConsoleData_def)

lemma display_frame [simp]:
  "sent (setDisplayData v s) = sent s" "answered (setDisplayData v s) = answered s" "init (setDisplayData v s) = init s"
  "displayData (setDisplayData v s) = (objects s, v)" "yamlStr (setDisplayData v s) = yamlStr s"
  "yamlTextFocused (setDisplayData v s) = yamlTextFocused s" "cases (setDisplayData v s) = cases s"
  "effects_for (setDisplayData v s) = effects_for s" "crashed (setDisplayData v s) = crashed s"
  "objects (setDisplayData v s) = objects s + 1" "tools_state (setDisplayData v s) = tools_state s"
  by (simp_all add: setDisplayData_def)

lemma send_frame [simp]:
  "sent (send k r s) = sent s @ [(k, r)]" "answered (send k r s) = answered s" "init (send k r s) = init s"
  "displayData (send k r s) = displayData s" "yamlStr (send k r s) = yamlStr s" "tools_state (send k r s) = tools_state s"
  "yamlTextFocused (send k r s) = yamlTextFocused s" "cases (send k r s) = cases s"
  "effects_for (send k r s) = effects_for s" "crashed (send k r s) = crashed s" "objects (send k r s) = objects s"
  by (simp_all add: send_def)

lemma answer_frame [simp]:
  "sent (answer i s) = sent s" "answered (answer i s) = i # answered s" "init (answer i s) = init s"
  "displayData (answer i s) = displayData s" "yamlStr (answer i s) = yamlStr s" "tools_state (answer i s) = tools_state s"
  "yamlTextFocused (answer i s) = yamlTextFocused s" "cases (answer i s) = cases s"
  "effects_for (answer i s) = effects_for s" "crashed (answer i s) = crashed s" "objects (answer i s) = objects s"
  by (simp_all add: answer_def)

lemma effects_frame:
  "sent (displayData_effects env s) = sent s" "answered (displayData_effects env s) = answered s"
  "init (displayData_effects env s) = init s" "displayData (displayData_effects env s) = displayData s"
  "tools_state (displayData_effects env s) = tools_state s" "cases (displayData_effects env s) = cases s"
  "yamlTextFocused (displayData_effects env s) = yamlTextFocused s" "objects (displayData_effects env s) = objects s"
  "effects_for (displayData_effects env s) = Some (fst (displayData s))"
  by (simp_all add: displayData_effects_def Let_def split: sum.split)

lemma render_init: "init s \<Longrightarrow> render env s = (if is_ok (menu (cases s)) then s else s\<lparr>crashed := True\<rparr>)"
  by (simp add: render_def Let_def is_ok_def split: sum.split)

text \<open>A commit of a state whose menu renders: the effects run if the displayed object is new.\<close>

lemma commit_cases:
  assumes "init s"
  shows "commit env s = (if crashed s \<or> \<not> is_ok (menu (cases s)) then s\<lparr>crashed := True\<rparr>
    else if effects_for s \<noteq> Some (fst (displayData s)) then displayData_effects env s else s)"
proof -
  have "s\<lparr>crashed := True\<rparr> = s" if "crashed s" using that by (cases s) simp
  with assms show ?thesis by (auto simp: commit_def render_init Let_def)
qed

lemma commit_frame:
  assumes "init s"
  shows "sent (commit env s) = sent s" "answered (commit env s) = answered s" "init (commit env s)"
    "displayData (commit env s) = displayData s" "tools_state (commit env s) = tools_state s"
    "cases (commit env s) = cases s" "yamlTextFocused (commit env s) = yamlTextFocused s" "objects (commit env s) = objects s"
    "\<not> crashed (commit env s) \<Longrightarrow> effects_for (commit env s) = Some (fst (displayData s))"
  using commit_cases [OF assms, of env] assms by (simp_all add: effects_frame split: if_splits)

lemma getCase_cases: "getCase env c s = s \<or> (\<exists>n. to_str c = Inr n \<and> getCase env c s = send CaseText (getCase_request env n) s)"
  by (simp add: getCase_def split: sum.split)

lemma receiveCase_cases: "receiveCase d s = s \<or> (\<exists>v. receiveCase d s = setDisplayData v s)"
  by (auto simp: receiveCase_def split: sum.split)

lemma submit_cases: "\<exists>t. submit env s = setConsoleData t s \<or> (\<exists>r. submit env s = send Run r (setConsoleData t s))"
  by (auto simp: submit_def Let_def split: sum.split)

lemma editYaml_cases:
  "editYaml env c s = s\<lparr>yamlStr := c\<rparr> \<or> (\<exists>d. editYaml env c s = setDisplayData d (s\<lparr>yamlStr := c\<rparr>))"
  by (auto simp: editYaml_def Let_def split: sum.split option.split)

lemma onChange_cases:
  "onChange r s = s\<lparr>crashed := True\<rparr> \<or> (\<exists>d. onChange r s = s\<lparr>displayData := (fst (displayData s), d)\<rparr>) \<or>
    (\<exists>d. onChange r s = setDisplayData d s)"
  by (cases r) (auto simp: onChange_def split: sum.split)

text \<open>Handlers send no menu request and keep the displayed object's number below the counter.\<close>

definition keeps :: "app \<Rightarrow> app \<Rightarrow> bool" where
  "keeps s s' \<longleftrightarrow> init s' = init s \<and> effects_for s' = effects_for s \<and> answered s' = answered s \<and>
     (\<exists>xs. sent s' = sent s @ xs \<and> filter (\<lambda>r. fst r = CaseList) xs = []) \<and>
     (fst (displayData s) < objects s \<longrightarrow> fst (displayData s') < objects s')"

lemma keeps_handlers:
  "keeps s (getCase env c s)" "keeps s (receiveCase d s)" "keeps s (submit env s)" "keeps s (editYaml env t s)"
  "keeps s (onChange r s)" "keeps s (setConsoleData x s)" "keeps s (updateStringData (s\<lparr>store := v\<rparr>))"
  "keeps s (s\<lparr>yamlTextFocused := b\<rparr>)" "keeps s (s\<lparr>tools_state := ts\<rparr>)" "keeps s (s\<lparr>cases := m\<rparr>)" "keeps s s"
proof -
  show "keeps s (getCase env c s)" using getCase_cases [of env c s] by (auto simp: keeps_def)
  show "keeps s (receiveCase d s)" using receiveCase_cases [of d s] by (auto simp: keeps_def)
  show "keeps s (submit env s)" using submit_cases [of env s] by (auto simp: keeps_def)
  show "keeps s (editYaml env t s)" using editYaml_cases [of env t s] by (auto simp: keeps_def)
  show "keeps s (onChange r s)" using onChange_cases [of r s] by (auto simp: keeps_def)
qed (simp_all add: keeps_def updateStringData_def)

text \<open>The request an event answers.\<close>

definition answers :: "event \<Rightarrow> nat option" where
  "answers e = (case e of
      MenuArrives i _ \<Rightarrow> Some i | CaseArrives i _ \<Rightarrow> Some i | ResultArrives i _ \<Rightarrow> Some i
    | RequestFails i \<Rightarrow> Some i | _ \<Rightarrow> None)"

lemma handle_keeps: "keeps (case answers e of Some i \<Rightarrow> answer i s | None \<Rightarrow> s) (handle env e s)"
  by (cases e) (simp_all add: handle_def answers_def keeps_handlers)

lemma answers_pending: "enabled s e \<Longrightarrow> answers e = Some i \<Longrightarrow> \<exists>k. pending s i k"
  by (cases e) (auto simp: enabled_def answers_def)

section \<open>Invariants of every run\<close>

definition app_inv :: "app \<Rightarrow> bool" where
  "app_inv s \<longleftrightarrow> init s \<and> length (filter (\<lambda>r. fst r = CaseList) (sent s)) = 1 \<and>
     distinct (answered s) \<and> (\<forall>i\<in>set (answered s). i < length (sent s)) \<and>
     fst (displayData s) < objects s \<and>
     (\<not> crashed s \<longrightarrow> effects_for s = Some (fst (displayData s)))"

lemma mount_inv: "app_inv (mount env st m b)"
  by (simp add: mount_def app_inv_def effects_frame updateStringData_def render_def initial_app_def send_def
      Let_def split: sum.split)

lemma next_inv:
  assumes "app_inv s" and "enabled s e"
  shows "app_inv (next_app env e s)"
proof -
  define a where "a = (case answers e of Some i \<Rightarrow> answer i s | None \<Rightarrow> s)"
  define h where "h = handle env e s"
  have a: "init a" "sent a = sent s" "effects_for a = effects_for s" "displayData a = displayData s"
    "objects a = objects s" "distinct (answered a)" "\<And>i. i \<in> set (answered a) \<Longrightarrow> i < length (sent s)"
    using assms(1) answers_pending [OF assms(2)]
    by (auto simp: a_def app_inv_def pending_def split: option.splits)
  have k: "keeps a h" unfolding a_def h_def by (rule handle_keeps)
  then obtain xs where xs: "sent h = sent s @ xs" "filter (\<lambda>r. fst r = CaseList) xs = []" and h: "answered h = answered a"
    "fst (displayData h) < objects h" and i: "init h"
    using a assms(1) by (auto simp: keeps_def app_inv_def)
  have "i < length (sent h)" if "i \<in> set (answered h)" for i
    using a(7) that h(1) xs(1) by fastforce
  with h xs a(6) assms(1) show ?thesis
    by (simp add: app_inv_def next_app_def h_def [symmetric] commit_frame [OF i])
qed

lemma reachable_inv: "reachable env allowed s \<Longrightarrow> app_inv s"
  by (induction rule: reachable.induct) (auto intro: mount_inv next_inv)

end
