(* ===== verification/AppProps.thy ===== *)
theory AppProps
  imports AppSteps
begin

text \<open>
  The properties of the application as a whole: the form and the YAML text denote the same
  case, so what Submit sends is what the form shows; the page never dies on the events a
  browser, the form library and the server produce; and what goes wrong outside of them.
\<close>

section \<open>The form and the text agree\<close>

text \<open>
  Whenever the text is one the editor accepts, it denotes a case, and that is the case the
  form would post, up to the place of headers and queries in its nodes.
\<close>

definition agree :: "env \<Rightarrow> app \<Rightarrow> bool" where
  "agree env s = (case parse_edit env (yamlStr s) of
      Inr (Some _) \<Rightarrow> (case (fromYaml (load env) (yamlStr s), viewToPost (displayed s)) of
          (Inr c, Inr p) \<Rightarrow> carried_case c \<and> same_case c p
        | _ \<Rightarrow> False)
    | _ \<Rightarrow> True)"

text \<open>
  The events of an ordinary session: typing a text that is either not accepted or a case,
  form reports and cases from the server of the form the schema and the server give, neither
  of them while the text field has the focus, and a menu that is one.
\<close>

definition careful :: "env \<Rightarrow> app \<Rightarrow> event \<Rightarrow> bool" where
  "careful env s e = (case e of
      Type t \<Rightarrow> (case parse_edit env t of
          Inr (Some _) \<Rightarrow> (case fromYaml (load env) t of Inr c \<Rightarrow> carried_case c | Inl _ \<Rightarrow> False)
        | _ \<Rightarrow> True)
    | FormChange Same \<Rightarrow> drop_template (displayed s) = Inr (displayed s)
    | FormChange (New v) \<Rightarrow> \<not> yamlTextFocused s \<and> carried_form v
    | CaseArrives i data1 \<Rightarrow> \<not> yamlTextFocused s \<and> (case rbind (to_str data1) JSON_parse of
          Inr c \<Rightarrow> carried_case c | Inl _ \<Rightarrow> True)
    | MenuArrives i data1 \<Rightarrow> is_ok (menu data1)
    | _ \<Rightarrow> True)"

definition calm :: "env \<Rightarrow> app \<Rightarrow> bool" where
  "calm env s \<longleftrightarrow> \<not> crashed s \<and> carried_form (displayed s) \<and> is_ok (menu (cases s)) \<and> agree env s"

lemma same_case_posted: "carried_case p \<Longrightarrow> reorder p = p \<Longrightarrow> same_case p p"
  using same_case_reorder [of p] by (simp add: carried_case_def text_case_clean)

lemma text_written_agrees:
  assumes laws: "yaml_laws (dump env) (load env)" and d: "carried_form (displayed s)"
  shows "\<exists>t. rbind (viewToPost (displayed s)) (toYaml (dump env)) = Inr t \<and> agree env (s\<lparr>yamlStr := t\<rparr>)"
proof -
  obtain p where p: "viewToPost (displayed s) = Inr p" "carried_case p" "reorder p = p"
    using carried_form_posted [OF d] by blast
  obtain t where t: "toYaml (dump env) p = Inr t" "fromYaml (load env) t = Inr p"
    using text_codec.print_obtain [OF laws carried_case_yaml [OF p(2)]] by blast
  have "agree env (s\<lparr>yamlStr := t\<rparr>)"
    using p t same_case_posted by (simp add: agree_def split: sum.split option.split)
  with p(1) t(1) show ?thesis by auto
qed

lemma agree_cong:
  "yamlStr s = yamlStr s' \<Longrightarrow> displayed s = displayed s' \<Longrightarrow> agree env s = agree env s'"
  unfolding agree_def by (simp only:)

lemma effects_calm:
  assumes laws: "yaml_laws (dump env) (load env)" and d: "carried_form (displayed s)"
    and ok: "\<not> crashed s" "is_ok (menu (cases s))" and f: "yamlTextFocused s \<Longrightarrow> agree env s"
  shows "calm env (displayData_effects env s)"
proof (cases "yamlTextFocused s")
  case True
  then have e: "displayData_effects env s = s\<lparr>displayDataAsString := JSON_stringify ''  '' (displayed s),
      effects_for := Some (fst (displayData s))\<rparr>"
    by (simp add: displayData_effects_def Let_def)
  have "agree env (displayData_effects env s)" using agree_cong [of "displayData_effects env s" s] f [OF True] e by simp
  with e d ok show ?thesis by (simp add: calm_def)
next
  case False
  obtain t where t: "rbind (viewToPost (displayed s)) (toYaml (dump env)) = Inr t" "agree env (s\<lparr>yamlStr := t\<rparr>)"
    using text_written_agrees [OF laws d] by blast
  from False t(1) have e: "displayData_effects env s = s\<lparr>displayDataAsString := JSON_stringify ''  '' (displayed s),
      effects_for := Some (fst (displayData s)), yamlStr := t\<rparr>"
    by (simp add: displayData_effects_def Let_def)
  have "agree env (displayData_effects env s)"
    using agree_cong [of "displayData_effects env s" "s\<lparr>yamlStr := t\<rparr>"] t(2) e by simp
  with e d ok show ?thesis by (simp add: calm_def)
qed

lemma commit_calm:
  assumes "yaml_laws (dump env) (load env)" and "init s" and "carried_form (displayed s)"
    and "\<not> crashed s" "is_ok (menu (cases s))"
    and "yamlTextFocused s \<or> effects_for s = Some (fst (displayData s)) \<Longrightarrow> agree env s"
  shows "calm env (commit env s)"
  using assms effects_calm [of env s] by (auto simp: commit_cases) (simp add: calm_def)

section \<open>Every event keeps them in agreement\<close>

lemma parse_edit_Some:
  assumes "parse_edit env t = Inr (Some d)"
  obtains c where "fromYaml (load env) t = Inr c" and "postToView c = Inr d"
  using assms by (auto simp: parse_edit_def rbind_eq_Inr split: if_splits)

lemma edit_agrees:
  assumes "parse_edit env t = Inr (Some d)" and "fromYaml (load env) t = Inr c" and "carried_case c"
  shows "carried_form d \<and> agree env (setDisplayData d (s\<lparr>yamlStr := t\<rparr>))"
proof -
  have d: "postToView c = Inr d" using assms(1,2) by (auto elim: parse_edit_Some)
  moreover have f: "carried_form d" using carried_case_shown [OF assms(3)] d by auto
  have clean: "clean_case c" using assms(3) by (simp add: carried_case_def text_case_clean)
  have "viewToPost d = Inr (reorder c)" using clean_case_round_trip [OF clean] d by simp
  with assms same_case_reorder [OF clean] f show ?thesis by (simp add: agree_def)
qed

lemma carried_own_del:
  assumes "carried_form (Obj ps)" and "k \<noteq> ''trace''"
  shows "carried_form (Obj (own_del k ps))"
proof -
  have "mem (own_del k ps) ''trace'' = mem ps ''trace''" using assms(2) by (simp add: mem_def own_simps)
  with assms(1) show ?thesis
    by (simp add: carried_form_def form_case_def proto_free_own_del wf_js_own_del del: wf_js_Obj_iff)
qed

lemma carried_drop_template:
  assumes "carried_form v"
  shows "\<exists>d. drop_template v = Inr d \<and> carried_form d"
proof -
  obtain ps where "v = Obj ps" using form_caseE assms by (auto simp: carried_form_def)
  with assms show ?thesis by (auto simp: drop_template_def carried_own_del)
qed

text \<open>Before the commit: the state a handler leaves, when it is not the text field's.\<close>

definition ready :: "env \<Rightarrow> app \<Rightarrow> bool" where
  "ready env s \<longleftrightarrow> init s \<and> carried_form (displayed s) \<and> \<not> crashed s \<and> is_ok (menu (cases s)) \<and>
     (yamlTextFocused s \<or> effects_for s = Some (fst (displayData s)) \<longrightarrow> agree env s)"

lemma ready_same:
  assumes "app_inv s" and "calm env s" and "displayData s' = displayData s" and "yamlStr s' = yamlStr s"
    and "init s' = init s" and "crashed s' = crashed s" and "is_ok (menu (cases s'))"
  shows "ready env s'"
  using assms agree_cong [of s s' env] by (simp add: ready_def app_inv_def calm_def)

lemma ready_new:
  assumes "app_inv s" and "calm env s" and "carried_form d" and "\<not> yamlTextFocused s"
  shows "ready env (setDisplayData d s)"
  using assms by (auto simp: ready_def app_inv_def calm_def)

lemma calm_fields: "calm env s \<Longrightarrow> is_ok (menu (cases s))"
  by (simp add: calm_def)

lemma ready_submit:
  assumes "app_inv s" and "calm env s"
  shows "ready env (submit env s)"
  using submit_cases [of env s] ready_same [OF assms] calm_fields [OF assms(2)] by auto

lemma ready_edit:
  assumes "app_inv s" and "calm env s" and "careful env s (Type t)"
  shows "ready env (editYaml env t s)"
proof (cases "\<exists>d. parse_edit env t = Inr (Some d)")
  case True
  then obtain d where d: "parse_edit env t = Inr (Some d)" by blast
  then obtain c where c: "fromYaml (load env) t = Inr c" by (rule parse_edit_Some)
  then have "carried_case c" using assms(3) d by (simp add: careful_def)
  from edit_agrees [OF d c this, of s] d assms(1,2) show ?thesis
    by (simp add: editYaml_def ready_def app_inv_def calm_def)
next
  case False
  then have "editYaml env t s = s\<lparr>yamlStr := t\<rparr>" "agree env (s\<lparr>yamlStr := t\<rparr>)"
    by (auto simp: editYaml_def agree_def Let_def split: sum.split option.split)
  with assms(1,2) show ?thesis by (simp add: ready_def app_inv_def calm_def)
qed

lemma ready_change:
  assumes "app_inv s" and "calm env s" and "careful env s (FormChange r)"
  shows "ready env (onChange r s)"
proof (cases r)
  case Same
  with assms(3) have "drop_template (displayed s) = Inr (displayed s)" by (simp add: careful_def)
  with Same have "onChange r s = s\<lparr>displayData := (fst (displayData s), displayed s)\<rparr>" by (simp add: onChange_def)
  with ready_same [OF assms(1,2), of "onChange r s"] calm_fields [OF assms(2)] show ?thesis by simp
next
  case (New v)
  with assms(3) have v: "carried_form v" "\<not> yamlTextFocused s" by (simp_all add: careful_def)
  obtain d where d: "drop_template v = Inr d" "carried_form d" using carried_drop_template [OF v(1)] by blast
  with New ready_new [OF assms(1,2) d(2) v(2)] show ?thesis by (simp add: onChange_def)
qed

lemma ready_answer: "ready env s \<Longrightarrow> ready env (answer i s)"
  using agree_cong [of s "answer i s" env] by (simp add: ready_def)

lemma receive_answer: "receiveCase d (answer i s) = answer i (receiveCase d s)"
  by (simp add: receiveCase_def answer_def setDisplayData_def split: sum.split)

lemma ready_case:
  assumes "app_inv s" and "calm env s" and "careful env s (CaseArrives i data1)"
  shows "ready env (receiveCase data1 s)"
proof (cases "rbind (to_str data1) JSON_parse")
  case (Inl e)
  then show ?thesis using ready_same [OF assms(1,2)] calm_fields [OF assms(2)] by (simp add: receiveCase_def)
next
  case (Inr c)
  with assms(3) have c: "carried_case c" "\<not> yamlTextFocused s" by (simp_all add: careful_def)
  obtain d where "postToView c = Inr d" "carried_form d" using carried_case_shown [OF c(1)] by blast
  with Inr ready_new [OF assms(1,2) _ c(2)] show ?thesis by (simp add: receiveCase_def)
qed

lemma handle_ready:
  assumes "app_inv s" and "calm env s" and "careful env s e"
  shows "ready env (handle env e s)"
proof (cases e)
  case (ClickCase c)
  then show ?thesis
    using getCase_cases [of env c s] ready_same [OF assms(1,2)] calm_fields [OF assms(2)] by (auto simp: handle_def)
next
  case (MenuArrives i m)
  then show ?thesis using assms(3) ready_same [OF assms(1,2)] by (simp add: handle_def careful_def)
qed (use assms ready_submit ready_edit ready_change ready_answer ready_case receive_answer
    ready_same [OF assms(1,2)] calm_fields [OF assms(2)] in \<open>simp_all add: handle_def updateStringData_def\<close>)

lemma next_calm:
  assumes "yaml_laws (dump env) (load env)" and "app_inv s" and "calm env s" and "careful env s e"
  shows "calm env (next_app env e s)"
  using handle_ready [OF assms(2,3,4)] unfolding next_app_def ready_def by (intro commit_calm assms(1)) blast+

section \<open>Every run\<close>

lemma menu_initial: "is_ok (menu initial_cases)"
  by code_simp

lemma carried_initial: "carried_form initial_case"
  by code_simp

lemma mount_calm:
  assumes "yaml_laws (dump env) (load env)"
  shows "calm env (mount env st m b)"
proof -
  have ok: "\<exists>x. menu initial_cases = Inr x" using menu_initial by (simp add: is_ok_iff)
  define s where "s = updateStringData (render env (initial_app st m b))"
  have "displayed s = initial_case" "\<not> crashed s" "cases s = initial_cases" "\<not> yamlTextFocused s"
    using ok by (auto simp: s_def updateStringData_def render_def initial_app_def send_def Let_def)
  then have "calm env (displayData_effects env s)"
    using carried_initial menu_initial by (intro effects_calm [OF assms]) simp_all
  then show ?thesis by (simp add: mount_def s_def)
qed

lemma reachable_calm:
  assumes "reachable env (careful env) s" and "yaml_laws (dump env) (load env)"
  shows "calm env s"
  using assms(1)
proof (induction rule: reachable.induct)
  case (step s e)
  then show ?case using next_calm [OF assms(2)] reachable_inv by blast
qed (rule mount_calm [OF assms(2)])

text \<open>
  C2. In every session of careful events, in any order and with the responses in any order,
  the page does not die, the form keeps a state its schema allows, and whenever the text in
  the YAML field is one the editor accepts it denotes the case the form would post.
\<close>
theorem text_and_form_agree:
  assumes "yaml_laws (dump env) (load env)" and "reachable env (careful env) s"
  shows "\<not> crashed s \<and> carried_form (displayed s) \<and> agree env s"
  using reachable_calm [OF assms(2,1)] by (simp add: calm_def)

definition demo_env :: env where
  "demo_env = \<lparr>dump = json_dump, load = json_load, search = ''?scope=dev'', fits = (\<lambda>_. True),
     has_clipboard = True, policy = Permits\<rparr>"

definition demo_start :: app where
  "demo_start = mount demo_env Undef Map.empty page"

definition demo_form :: app where
  "demo_form = next_app demo_env (FormChange (New example_form)) demo_start"

lemma demo_laws: "yaml_laws (dump demo_env) (load demo_env)"
  using json_yaml.text_codec_axioms by (simp add: demo_env_def)

lemma carried_example: "carried_form example_form"
  by code_simp

lemma demo_start_state: "reachable demo_env allowed demo_start" "\<not> crashed demo_start" "\<not> yamlTextFocused demo_start"
proof -
  show "reachable demo_env allowed demo_start" unfolding demo_start_def by (rule reachable.start)
  show "\<not> crashed demo_start" using mount_calm [OF demo_laws] by (simp add: demo_start_def calm_def)
  show "\<not> yamlTextFocused demo_start"
    by (simp add: demo_start_def mount_def effects_frame updateStringData_def render_def initial_app_def send_def
        Let_def split: sum.split)
qed

lemma demo_form_reachable: "reachable demo_env (careful demo_env) demo_form"
  unfolding demo_form_def
proof (rule reachable.step)
  show "enabled demo_start (FormChange (New example_form))" using demo_start_state by (simp add: enabled_def)
  show "careful demo_env demo_start (FormChange (New example_form))"
    using demo_start_state carried_example by (simp add: careful_def)
qed (rule demo_start_state)

lemma demo_form_displayed: "displayed demo_form = example_form"
proof -
  have i: "init demo_start" using reachable_inv [OF demo_start_state(1)] by (simp add: app_inv_def)
  have "drop_template example_form = Inr example_form" by code_simp
  then show ?thesis
    using i by (simp add: demo_form_def next_app_def handle_def onChange_def commit_frame)
qed

theorem text_and_form_agree_witness: "\<not> crashed demo_form \<and> agree demo_env demo_form \<and> displayed demo_form = example_form"
  using text_and_form_agree [OF demo_laws demo_form_reachable] demo_form_displayed by simp

text \<open>
  C1. Submit sends what the form shows: in every session of careful events, if the text is
  one the editor accepts, clicking Submit sends exactly one request, a \<open>POST\<close> to \<open>/e\<close> with
  the page's scope, asking for validation exactly when the displayed case has an expectation,
  whose body parses to the case the form would post.
\<close>
theorem submit_posts_the_form:
  assumes "yaml_laws (dump env) (load env)" and "reachable env (careful env) s"
    and "parse_edit env (yamlStr s) = Inr (Some d)"
  shows "\<exists>r c p. sent (next_app env ClickSubmit s) = sent s @ [(Run, r)] \<and>
    viewToPost (displayed s) = Inr p \<and> same_case c p \<and>
    verb r = Some ''POST'' \<and> map_option JSON_parse (body r) = Some (Inr c) \<and>
    url r = scopedUri (search env) (if truthy (member_of (displayed s) ''expect'') then ''/e?validate=true'' else ''/e'')"
proof -
  have c: "calm env s" "app_inv s" using reachable_calm [OF assms(2,1)] reachable_inv [OF assms(2)] by simp_all
  then obtain c p where t: "fromYaml (load env) (yamlStr s) = Inr c" and p: "viewToPost (displayed s) = Inr p"
    and cc: "carried_case c" "same_case c p"
    using assms(3) by (auto simp: calm_def agree_def split: sum.splits)
  have j: "json_value c" "wf_js c" using carried_case_yaml [OF cc(1)] by (simp_all add: yaml_value_def)
  then have u: "c \<noteq> Undef" "jsonify c = c" by (auto simp: jsonify_json_value)
  have "form_case (displayed s)" using c(1) by (simp add: calm_def carried_form_def)
  then obtain ps where "displayed s = Obj ps" by (rule form_caseE)
  then have e: "get_member (displayed s) ''expect'' = Inr (member_of (displayed s) ''expect'')"
    by (simp add: member_of_def)
  define r where "r = executeCase (search env) c (if truthy (member_of (displayed s) ''expect'') then Some ''validate=true'' else None)"
  have "body r = Some (json_print [] [] c)"
    using u by (simp add: r_def executeCase_def JSON_stringify_def Let_def)
  moreover have "submit env s = send Run r (setConsoleData (Some ''loading...'') s)"
    using t e by (simp add: submit_def r_def)
  ultimately show ?thesis
    using p cc(2) JSON_parse_print [OF j, of "[]"] c(2)
    by (intro exI [of _ r] exI [of _ c] exI [of _ p])
      (simp add: next_app_def handle_def commit_frame app_inv_def r_def executeCase_def Let_def)
qed

text \<open>What the effects leave in the text field when they run outside of it.\<close>

lemma commit_text:
  assumes "init s" and "effects_for s \<noteq> Some (fst (displayData s))" and "\<not> yamlTextFocused s"
    and "\<not> crashed (commit env s)"
  shows "rbind (viewToPost (displayed s)) (toYaml (dump env)) = Inr (yamlStr (commit env s))"
  using assms by (auto simp: commit_cases displayData_effects_def Let_def split: sum.splits if_splits)

lemma demo_form_text: "\<exists>d. parse_edit demo_env (yamlStr demo_form) = Inr (Some d)"
proof -
  define s where "s = setDisplayData example_form demo_start"
  have inv: "app_inv demo_start" using reachable_inv [OF demo_start_state(1)] .
  have "drop_template example_form = Inr example_form" by code_simp
  then have c: "demo_form = commit demo_env s"
    by (simp add: demo_form_def next_app_def handle_def onChange_def s_def)
  have "rbind (viewToPost (displayed s)) (toYaml (dump demo_env)) = Inr (yamlStr (commit demo_env s))"
  proof (rule commit_text)
    show "init s" "effects_for s \<noteq> Some (fst (displayData s))" "\<not> yamlTextFocused s"
      using inv demo_start_state(2,3) by (auto simp: s_def app_inv_def)
    show "\<not> crashed (commit demo_env s)"
      using reachable_calm [OF demo_form_reachable demo_laws] c by (simp add: calm_def)
  qed
  then have "toYaml (dump demo_env) example_posted = Inr (yamlStr demo_form)"
    using viewToPost_example c by (simp add: s_def)
  then have "fromYaml (load demo_env) (yamlStr demo_form) = Inr example_posted"
    using text_codec.read_print [OF demo_laws yaml_value_example] by blast
  moreover have "truthy example_posted" "get_member example_posted ''trace'' = Inr (Arr [Obj [(''method'', Str ''GET''), (''headers'', Obj [(''host'', Str ''a.b'')])]])"
    by (simp_all add: example_posted_def)
  moreover have "is_ok (postToView example_posted)" by code_simp
  ultimately show ?thesis by (auto simp: parse_edit_def indexOf_null_def is_ok_iff)
qed

theorem submit_posts_the_form_witness:
  "\<exists>r. sent (next_app demo_env ClickSubmit demo_form) = sent demo_form @ [(Run, r)] \<and>
    (\<exists>c. same_case c example_posted \<and> map_option JSON_parse (body r) = Some (Inr c)) \<and> url r = ''/e?scope=dev''"
proof -
  obtain d where "parse_edit demo_env (yamlStr demo_form) = Inr (Some d)" using demo_form_text by blast
  from submit_posts_the_form [OF demo_laws demo_form_reachable this]
  obtain r c p where r: "sent (next_app demo_env ClickSubmit demo_form) = sent demo_form @ [(Run, r)]"
    "viewToPost example_form = Inr p" "same_case c p" "map_option JSON_parse (body r) = Some (Inr c)"
    "url r = scopedUri (search demo_env) (if truthy (member_of example_form ''expect'') then ''/e?validate=true'' else ''/e'')"
    unfolding demo_form_displayed by blast
  moreover have "\<not> truthy (member_of example_form ''expect'')" by code_simp
  moreover have "scopedUri ''?scope=dev'' ''/e'' = ''/e?scope=dev''" by code_simp
  ultimately show ?thesis using viewToPost_example by (auto simp: demo_env_def)
qed

end
