(* ===== verification/AppErrors.thy ===== *)
theory AppErrors
  imports AppProps
begin

text \<open>
  The properties that hold for every event, not only the careful ones, and what the
  application does outside of an ordinary session: unreadable texts, malformed menus, cases
  that arrive while the text field has the focus or in another order than they were asked for.
\<close>

section \<open>Requests\<close>

text \<open>
  Whatever happens, the menu is requested exactly once, and every request is answered at
  most once.
\<close>
theorem menu_requested_once:
  assumes "reachable env allowed s"
  shows "length (filter (\<lambda>r. fst r = CaseList) (sent s)) = 1 \<and> distinct (answered s) \<and>
    list_all (\<lambda>i. i < length (sent s)) (answered s)"
  using reachable_inv [OF assms] by (simp add: app_inv_def list_all_iff)

theorem menu_requested_once_witness: "length (filter (\<lambda>r. fst r = CaseList) (sent demo_form)) = 1"
  using menu_requested_once [OF demo_form_reachable] by simp

text \<open>The state a commit leaves when the handler displayed nothing new.\<close>

lemma commit_same:
  assumes "app_inv s" and "\<not> crashed s" and "init s' = init s" and "effects_for s' = effects_for s"
    and "fst (displayData s') = fst (displayData s)" and "crashed s' = crashed s"
  shows "commit env s' = (if is_ok (menu (cases s')) then s' else s'\<lparr>crashed := True\<rparr>)"
  using assms by (simp add: commit_cases app_inv_def)

section \<open>States for the examples\<close>

definition demo_focus :: app where
  "demo_focus = next_app demo_env FocusYaml demo_start"

lemma demo_start_menu: "is_ok (menu (cases demo_start))"
  using mount_calm [OF demo_laws] by (simp add: demo_start_def calm_def)

lemma demo_focus_eq: "demo_focus = demo_start\<lparr>yamlTextFocused := True\<rparr>"
  using commit_same [OF reachable_inv [OF demo_start_state(1)] demo_start_state(2), of "demo_start\<lparr>yamlTextFocused := True\<rparr>"]
    demo_start_menu by (simp add: demo_focus_def next_app_def handle_def)

lemma demo_focus_state: "reachable demo_env (\<lambda>_ _. True) demo_focus" "\<not> crashed demo_focus" "yamlTextFocused demo_focus"
  "is_ok (menu (cases demo_focus))"
proof -
  show "reachable demo_env (\<lambda>_ _. True) demo_focus"
    unfolding demo_focus_def using demo_start_state by (intro reachable.step) (simp_all add: enabled_def)
qed (simp_all add: demo_focus_eq demo_start_state demo_start_menu)

lemma demo_start_text: "toYaml json_dump initial_case = Inr (yamlStr demo_start)"
proof -
  define s where "s = updateStringData (render demo_env (initial_app Undef Map.empty page))"
  have s: "demo_start = displayData_effects demo_env s" by (simp add: demo_start_def mount_def s_def)
  have d: "displayed s = initial_case" "\<not> yamlTextFocused s"
    by (simp_all add: s_def updateStringData_def render_def initial_app_def send_def Let_def split: sum.split)
  have "viewToPost initial_case = Inr initial_case" by code_simp
  moreover have "\<exists>t. toYaml json_dump initial_case = Inr t"
    using json_yaml.print_ok [of initial_case] by (simp add: is_ok_iff initial_case_def yaml_value_def props_wf_def proto_free_Obj)
  ultimately show ?thesis
    using d by (auto simp: s displayData_effects_def demo_env_def Let_def)
qed

lemma demo_focus_text: "fromYaml (load demo_env) (yamlStr demo_focus) = Inr initial_case"
proof -
  have "yaml_value initial_case" by code_simp
  then show ?thesis
    using json_yaml.read_print [OF _ demo_start_text] by (simp add: demo_focus_eq demo_env_def)
qed

lemma demo_text:
  assumes "yaml_value v"
  obtains t where "fromYaml (load demo_env) t = Inr v" and "JSON_parse t = Inr v"
proof -
  have "json_value v \<and> wf_js v" using assms by (simp add: yaml_value_def)
  then obtain t where t: "JSON_parse t = Inr v" using json.print_obtain by blast
  then have "fromYaml (load demo_env) t = Inr v"
    using JSON_parse_Nil by (auto simp: demo_env_def fromYaml_def json_load_def)
  with t that show ?thesis by blast
qed

text \<open>
  A text YAML cannot read is never sent: Submit sends nothing, and the console keeps
  saying that the request is under way.
\<close>
theorem unreadable_text_not_sent:
  assumes "reachable env allowed s" and "fromYaml (load env) (yamlStr s) = Inl e"
  shows "sent (next_app env ClickSubmit s) = sent s \<and>
    consoleData (next_app env ClickSubmit s) = Some ''loading...''"
proof -
  have "init s" using reachable_inv [OF assms(1)] by (simp add: app_inv_def)
  moreover have "handle env ClickSubmit s = setConsoleData (Some ''loading...'') s"
    using assms(2) by (simp add: handle_def submit_def)
  ultimately show ?thesis by (simp add: next_app_def commit_frame)
qed

definition demo_broken :: app where
  "demo_broken = next_app demo_env (Type ''{'') demo_focus"

lemma demo_broken_text: "yamlStr demo_broken = ''{''" "fromYaml (load demo_env) ''{'' = Inl YamlError"
proof -
  have e: "json_load ''{'' = Inl YamlError" by code_simp
  then show f: "fromYaml (load demo_env) ''{'' = Inl YamlError" by (simp add: demo_env_def fromYaml_def)
  then have "handle demo_env (Type ''{'') demo_focus = demo_focus\<lparr>yamlStr := ''{''\<rparr>"
    by (simp add: handle_def editYaml_def parse_edit_def)
  with commit_same [OF reachable_inv [OF demo_focus_state(1)] demo_focus_state(2), of "demo_focus\<lparr>yamlStr := ''{''\<rparr>"]
    demo_focus_state(4)
  show "yamlStr demo_broken = ''{''" by (simp add: demo_broken_def next_app_def)
qed

theorem unreadable_text_not_sent_witness:
  "sent (next_app demo_env ClickSubmit demo_broken) = sent demo_broken \<and>
    consoleData (next_app demo_env ClickSubmit demo_broken) = Some ''loading...''"
proof (rule unreadable_text_not_sent)
  show "reachable demo_env (\<lambda>_ _. True) demo_broken"
    unfolding demo_broken_def using demo_focus_state by (intro reachable.step) (simp_all add: enabled_def)
  show "fromYaml (load demo_env) (yamlStr demo_broken) = Inl YamlError"
    unfolding demo_broken_text(1) by (rule demo_broken_text(2))
qed

section \<open>Displaying\<close>

lemma display_handlers:
  "init (receiveCase v s) = init s" "effects_for (receiveCase v s) = effects_for s"
  "yamlTextFocused (receiveCase v s) = yamlTextFocused s"
  "init (onChange r s) = init s" "effects_for (onChange r s) = effects_for s"
  "yamlTextFocused (onChange r s) = yamlTextFocused s"
  by (simp_all add: receiveCase_def onChange_def split: sum.split report.split)

text \<open>
  Every time another case is displayed while the text field has no focus, whether it comes
  from the form or from the server, the text becomes exactly the YAML of the case the form
  would post; a case that cannot be posted or printed takes the page down.
\<close>
theorem text_rewritten:
  assumes "reachable env allowed s" and "\<not> yamlTextFocused s" and "\<not> crashed s"
    and "e = FormChange (New v) \<or> (\<exists>i. e = CaseArrives i v)"
    and "fst (displayData (next_app env e s)) \<noteq> fst (displayData s)"
    and "\<not> crashed (next_app env e s)"
  shows "rbind (viewToPost (displayed (next_app env e s))) (toYaml (dump env)) = Inr (yamlStr (next_app env e s))"
proof -
  define h where "h = handle env e s"
  have inv: "app_inv s" using reachable_inv [OF assms(1)] .
  have f: "init h" "effects_for h = effects_for s" "\<not> yamlTextFocused h"
    using assms(2,4) inv by (auto simp: h_def handle_def app_inv_def display_handlers)
  have d: "displayData (commit env h) = displayData h" by (rule commit_frame [OF f(1)])
  have "effects_for h \<noteq> Some (fst (displayData h))"
    using inv assms(3,5) f(2) d by (simp add: app_inv_def next_app_def h_def)
  from commit_text [OF f(1) this f(3)] assms(6) d show ?thesis by (simp add: next_app_def h_def)
qed

theorem text_rewritten_witness:
  "rbind (viewToPost (displayed demo_form)) (toYaml json_dump) = Inr (yamlStr demo_form)"
proof -
  have n: "fst (displayData demo_form) \<noteq> fst (displayData demo_start)"
  proof -
    have inv: "app_inv demo_start" using reachable_inv [OF demo_start_state(1)] .
    moreover have "drop_template example_form = Inr example_form" by code_simp
    ultimately show ?thesis
      by (simp add: demo_form_def next_app_def handle_def onChange_def commit_frame app_inv_def)
  qed
  have "\<not> crashed demo_form" using reachable_calm [OF demo_form_reachable demo_laws] by (simp add: calm_def)
  from text_rewritten [OF demo_start_state(1,3,2), of "FormChange (New example_form)" example_form, folded demo_form_def,
      OF _ n this]
  show ?thesis by (simp add: demo_env_def)
qed

text \<open>
  Typing a text whose trace has an empty entry leaves the form, the requests and the
  console as they are: the object the code puts in the place of the \<open>null\<close> is never displayed.
\<close>
theorem null_entry_not_displayed:
  assumes "reachable env allowed s" and "\<not> crashed s" and "is_ok (menu (cases s))"
    and "fromYaml (load env) t = Inr (Obj ps)" and "mem ps ''trace'' = Arr xs" and "Null \<in> set xs"
  shows "next_app env (Type t) s = s\<lparr>yamlStr := t\<rparr>"
proof -
  have pos: "null_from i ys \<ge> 0" if "Null \<in> set ys" for i and ys :: "jsv list"
    using that by (induction ys arbitrary: i) auto
  have "null_from 0 xs \<noteq> -1" using pos [OF assms(6), of 0] by linarith
  moreover have "get_member (Obj ps) ''trace'' = Inr (Arr xs)" using assms(5) by (simp add: mem_def)
  ultimately have "parse_edit env t = Inr None \<or> (\<exists>e. parse_edit env t = Inl e)"
    using assms(4) by (cases "set_member (Arr xs) (nat_str (nat (null_from 0 xs))) (Obj [])")
      (simp_all add: parse_edit_def indexOf_null_def)
  then have "handle env (Type t) s = s\<lparr>yamlStr := t\<rparr>" by (auto simp: handle_def editYaml_def)
  moreover have "commit env (s\<lparr>yamlStr := t\<rparr>) = s\<lparr>yamlStr := t\<rparr>"
    using commit_same [OF reachable_inv [OF assms(1)] assms(2), of "s\<lparr>yamlStr := t\<rparr>"] assms(3) by simp
  ultimately show ?thesis by (simp add: next_app_def)
qed

theorem null_entry_not_displayed_witness:
  "\<exists>t. fromYaml (load demo_env) t = Inr (Obj [(''trace'', Arr [Obj [], Null])]) \<and>
    next_app demo_env (Type t) demo_focus = demo_focus\<lparr>yamlStr := t\<rparr>"
proof -
  have "yaml_value (Obj [(''trace'', Arr [Obj [], Null])])" by code_simp
  then obtain t where t: "fromYaml (load demo_env) t = Inr (Obj [(''trace'', Arr [Obj [], Null])])"
    by (rule demo_text)
  have "next_app demo_env (Type t) demo_focus = demo_focus\<lparr>yamlStr := t\<rparr>"
    by (rule null_entry_not_displayed [OF demo_focus_state(1,2,4) t, of "[Obj [], Null]"]) (simp_all add: mem_def)
  with t show ?thesis by blast
qed

text \<open>
  C30. A case that arrives while the text field has the focus is displayed in the form, but the
  text stays what it was, also after the field has lost the focus; Submit then sends the case
  of the text, not the one the form shows.
\<close>
theorem late_case_not_submitted:
  assumes "reachable env allowed s" and "yamlTextFocused s" and "\<not> crashed s" and "is_ok (menu (cases s))"
    and "rbind (rbind (to_str data1) JSON_parse) postToView = Inr (Obj ps)"
    and "fromYaml (load env) (yamlStr s) = Inr c"
  shows "let s' = next_app env BlurYaml (next_app env (CaseArrives i data1) s) in
    displayed s' = Obj ps \<and> yamlStr s' = yamlStr s \<and>
    sent (next_app env ClickSubmit s') =
      sent s @ [(Run, executeCase (search env) c (if truthy (mem ps ''expect'') then Some ''validate=true'' else None))]"
proof -
  have inv: "app_inv s" using reachable_inv [OF assms(1)] .
  define s1 where "s1 = setDisplayData (Obj ps) (answer i s)"
  define s2 where "s2 = next_app env (CaseArrives i data1) s"
  have "handle env (CaseArrives i data1) s = s1"
    using assms(5) by (simp add: handle_def receiveCase_def s1_def)
  moreover have "init s1" "effects_for s1 \<noteq> Some (fst (displayData s1))" "yamlTextFocused s1" "\<not> crashed s1"
    using inv assms(2,3) by (auto simp: s1_def app_inv_def)
  ultimately have s2: "s2 = displayData_effects env s1"
    using assms(4) by (simp add: s2_def next_app_def commit_cases) (simp add: s1_def)
  have fields: "displayed s2 = Obj ps" "yamlStr s2 = yamlStr s" "sent s2 = sent s" "init s2" "\<not> crashed s2"
    "effects_for s2 = Some (fst (displayData s2))" "is_ok (menu (cases s2))"
    using \<open>init s1\<close> \<open>\<not> crashed s1\<close> \<open>yamlTextFocused s1\<close> assms(4)
    by (simp_all add: s2 effects_frame s1_def displayData_effects_def Let_def)
  define s3 where "s3 = next_app env BlurYaml s2"
  have s3: "s3 = s2\<lparr>yamlTextFocused := False\<rparr>"
    using fields by (simp add: s3_def next_app_def handle_def commit_cases)
  have "submit env s3 = send Run (executeCase (search env) c (if truthy (mem ps ''expect'') then Some ''validate=true'' else None))
      (setConsoleData (Some ''loading...'') s3)"
    using fields assms(6) by (simp add: submit_def s3 mem_def)
  then have "sent (next_app env ClickSubmit s3) = sent s3 @ [(Run, executeCase (search env) c (if truthy (mem ps ''expect'') then Some ''validate=true'' else None))]"
    using fields s3 by (simp add: next_app_def handle_def commit_frame)
  with fields s3 show ?thesis by (simp add: Let_def s3_def s2_def)
qed

theorem late_case_not_submitted_witness:
  "\<exists>t d. let s' = next_app demo_env BlurYaml (next_app demo_env (CaseArrives 1 (Str t)) demo_focus) in
    postToView example_posted = Inr d \<and> displayed s' = d \<and>
    sent (next_app demo_env ClickSubmit s') = sent demo_focus @ [(Run, executeCase ''?scope=dev'' initial_case None)]"
proof -
  obtain t where t: "JSON_parse t = Inr example_posted" using demo_text [OF yaml_value_example] by blast
  have "postToView example_posted = Inr (Obj [(''name'', Str ''demo''), (''trace'', Arr [Obj
      [(''method'', Str ''GET''), (''headers'', Arr [row ''host'' (Str ''a.b'')]), (''queries'', Undef)]])])"
    by code_simp
  moreover from this t have "rbind (rbind (to_str (Str t)) JSON_parse) postToView = Inr (Obj [(''name'', Str ''demo''), (''trace'', Arr [Obj
      [(''method'', Str ''GET''), (''headers'', Arr [row ''host'' (Str ''a.b'')]), (''queries'', Undef)]])])"
    by simp
  note late_case_not_submitted [OF demo_focus_state(1,3,2,4) this demo_focus_text, of 1]
  ultimately show ?thesis
    by (intro exI [of _ t] exI) (simp add: Let_def mem_def demo_env_def)
qed

text \<open>
  When the form reports the displayed object itself, deleting its empty template name changes
  the form's case but neither the text nor anything else.
\<close>

lemma template_deleted_in_place:
  assumes "reachable env allowed s" and "\<not> crashed s" and "is_ok (menu (cases s))"
    and "drop_template (displayed s) = Inr d"
  shows "next_app env (FormChange Same) s = s\<lparr>displayData := (fst (displayData s), d)\<rparr>"
proof -
  have h: "handle env (FormChange Same) s = s\<lparr>displayData := (fst (displayData s), d)\<rparr>"
    using assms(4) by (simp add: handle_def onChange_def)
  then show ?thesis
    using commit_same [OF reachable_inv [OF assms(1)] assms(2), of "handle env (FormChange Same) s"] assms(3)
    by (simp add: next_app_def)
qed

section \<open>Answers\<close>

text \<open>Answers to case requests, one after the other.\<close>

definition deliver :: "env \<Rightarrow> (nat \<times> jsv) list \<Rightarrow> app \<Rightarrow> app" where
  "deliver env rs s = foldl (\<lambda>s (i, data1). next_app env (CaseArrives i data1) s) s rs"

definition shows_as :: "jsv \<Rightarrow> jsv result" where
  "shows_as data1 = rbind (rbind (to_str data1) JSON_parse) postToView"

lemma deliver_snoc: "deliver env (rs @ [(i, x)]) s = next_app env (CaseArrives i x) (deliver env rs s)"
  by (simp add: deliver_def)

lemma next_case:
  assumes "init s"
  shows "init (next_app env (CaseArrives i x) s)"
    "displayed (next_app env (CaseArrives i x) s) = (case shows_as x of Inr d \<Rightarrow> d | Inl _ \<Rightarrow> displayed s)"
proof -
  have i: "init (handle env (CaseArrives i x) s)" using assms by (simp add: handle_def display_handlers)
  show "init (next_app env (CaseArrives i x) s)" unfolding next_app_def by (rule commit_frame [OF i])
  show "displayed (next_app env (CaseArrives i x) s) = (case shows_as x of Inr d \<Rightarrow> d | Inl _ \<Rightarrow> displayed s)"
    unfolding next_app_def commit_frame(4) [OF i]
    by (simp add: handle_def receiveCase_def shows_as_def split: sum.split)
qed

lemma deliver_init: "init s \<Longrightarrow> init (deliver env rs s)"
  by (induction rs rule: rev_induct) (auto simp: deliver_snoc next_case(1), simp add: deliver_def)

text \<open>
  C9. When several cases have been asked for, the form ends with the one whose answer arrived
  last among those it can show, whatever the order in which they were clicked; answers it
  cannot read or show are skipped.
\<close>
theorem last_answer_displayed:
  assumes "reachable env allowed s"
  shows "displayed (deliver env rs s) =
    last (displayed s # map projr (filter is_ok (map (\<lambda>(i, x). shows_as x) rs)))"
proof -
  have i: "init s" using reachable_inv [OF assms] by (simp add: app_inv_def)
  show ?thesis
  proof (induction rs rule: rev_induct)
    case (snoc r rs)
    obtain j x where "r = (j, x)" by (cases r)
    with snoc next_case(2) [OF deliver_init [OF i], of env j x env rs] show ?case
      by (cases "shows_as x") (auto simp: deliver_snoc)
  qed (simp add: deliver_def)
qed

theorem last_answer_displayed_witness:
  "\<exists>t. displayed (deliver demo_env [(2, Str t), (1, Str ''{'')] demo_start) =
    projr (postToView example_posted)"
proof -
  obtain t where t: "JSON_parse t = Inr example_posted" using demo_text [OF yaml_value_example] by blast
  have "is_ok (postToView example_posted)" by code_simp
  with t have "shows_as (Str t) = postToView example_posted" "is_ok (shows_as (Str t))" by (simp_all add: shows_as_def)
  moreover have "\<not> is_ok (shows_as (Str ''{''))" by code_simp
  ultimately show ?thesis
    using last_answer_displayed [OF demo_start_state(1), where rs = "[(2, Str t), (1, Str ''{'')]"]
    by (intro exI [of _ t]) simp
qed

text \<open>
  The menu is rendered as the server sends it: an answer that is not a list of groups with
  a renderable title and a list of renderable names, such as a text, takes the whole page
  down, and any other answer leaves the form, the text and the console as they are.
\<close>
theorem menu_answer:
  assumes "reachable env allowed s" and "\<not> crashed s"
  shows "crashed (next_app env (MenuArrives i m) s) = (\<not> is_ok (menu m)) \<and>
    displayData (next_app env (MenuArrives i m) s) = displayData s \<and>
    yamlStr (next_app env (MenuArrives i m) s) = yamlStr s \<and>
    consoleData (next_app env (MenuArrives i m) s) = consoleData s"
  using commit_same [OF reachable_inv [OF assms(1)] assms(2), of "handle env (MenuArrives i m) s"] assms(2)
  by (simp add: next_app_def handle_def)

theorem menu_answer_witness:
  "crashed (next_app demo_env (MenuArrives 0 (Str ''<html>'')) demo_start)"
proof -
  have "\<not> is_ok (menu (Str ''<html>''))" by (simp add: menu_def array_items_def)
  then show ?thesis using menu_answer [OF demo_start_state(1,2), where i = 0 and m = "Str ''<html>''"] by simp
qed

text \<open>
  The answer of a run goes to the console, the response text of a success as of a failure,
  and touches neither the form nor the text; without a response the console becomes empty.
\<close>
theorem run_result_shown:
  assumes "reachable env allowed s" and "enabled s (ResultArrives i out)" and "is_ok (menu (cases s))"
  shows "consoleData (next_app env (ResultArrives i out) s) =
      (case out of Success t \<Rightarrow> Some t | Failure t \<Rightarrow> t) \<and>
    displayData (next_app env (ResultArrives i out) s) = displayData s \<and>
    yamlStr (next_app env (ResultArrives i out) s) = yamlStr s \<and>
    \<not> pending (next_app env (ResultArrives i out) s) i Run"
proof -
  have "\<not> crashed s" using assms(2) by (simp add: enabled_def)
  from commit_same [OF reachable_inv [OF assms(1)] this, of "handle env (ResultArrives i out) s"] assms(3)
  have "next_app env (ResultArrives i out) s = setConsoleData (executeResult out) (answer i s)"
    by (simp add: next_app_def handle_def)
  then show ?thesis by (simp add: executeResult_def pending_def)
qed

definition demo_sent :: app where
  "demo_sent = next_app demo_env ClickSubmit demo_start"

lemma demo_sent_state: "reachable demo_env (\<lambda>_ _. True) demo_sent" "enabled demo_sent (ResultArrives 1 out)"
  "is_ok (menu (cases demo_sent))"
proof -
  show "reachable demo_env (\<lambda>_ _. True) demo_sent"
    unfolding demo_sent_def using demo_start_state by (intro reachable.step) (simp_all add: enabled_def)
  have t: "fromYaml (load demo_env) (yamlStr demo_start) = Inr initial_case"
    using demo_focus_text by (simp add: demo_focus_eq)
  have d: "displayed demo_start = initial_case" "sent demo_start = [(CaseList, caseList_request demo_env)]" "answered demo_start = []"
    by (simp_all add: demo_start_def mount_def effects_frame updateStringData_def render_def initial_app_def send_def
        Let_def split: sum.split)
  have e: "get_member initial_case ''expect'' = Inr Undef" by (simp add: initial_case_def)
  define h where "h = submit demo_env demo_start"
  have h: "h = send Run (executeCase (search demo_env) initial_case None) (setConsoleData (Some ''loading...'') demo_start)"
    using t d(1) e by (simp add: h_def submit_def)
  have sent: "demo_sent = h"
    using commit_same [OF reachable_inv [OF demo_start_state(1)] demo_start_state(2), of h demo_env] demo_start_menu
    by (simp add: demo_sent_def next_app_def handle_def h_def [symmetric]) (simp add: h)
  show "enabled demo_sent (ResultArrives 1 out)" "is_ok (menu (cases demo_sent))"
    unfolding sent h using d demo_start_menu demo_start_state(2) by (simp_all add: enabled_def pending_def)
qed

theorem run_result_shown_witness:
  "consoleData (next_app demo_env (ResultArrives 1 (Success ''ok'')) demo_sent) = Some ''ok''"
  using run_result_shown [OF demo_sent_state(1,2,3), where out = "Success ''ok''"] by simp

end
