(* ===== verification/Regex.thy ===== *)
theory Regex
  imports JsNumber
begin

text \<open>
  The fragment of regular expressions the program uses: characters of a class, sequence,
  choice, optional parts and repetition. A match is decided by derivatives; \<open>lang\<close> says what
  it means, and the two are proved to agree.
\<close>

datatype regex =
    Never
  | Empty
  | Class "char \<Rightarrow> bool"
  | Seq regex regex
  | Alt regex regex
  | Star regex

text \<open>Building blocks: a literal, a range \<open>[a-b]\<close>, \<open>[^...]\<close>, \<open>r?\<close>, \<open>r+\<close>, \<open>r{n}\<close>.\<close>

definition chr :: "char \<Rightarrow> regex" where
  "chr c = Class (\<lambda>x. x = c)"

definition range_of :: "char \<Rightarrow> char \<Rightarrow> regex" where
  "range_of a b = Class (\<lambda>x. (of_char a :: nat) \<le> of_char x \<and> (of_char x :: nat) \<le> of_char b)"

definition none_of :: "string \<Rightarrow> regex" where
  "none_of cs = Class (\<lambda>x. x \<notin> set cs)"

fun lit :: "string \<Rightarrow> regex" where
  "lit [] = Empty"
| "lit (c # cs) = Seq (chr c) (lit cs)"

definition opt :: "regex \<Rightarrow> regex" where
  "opt r = Alt r Empty"

definition plus_of :: "regex \<Rightarrow> regex" where
  "plus_of r = Seq r (Star r)"

primrec times_of :: "nat \<Rightarrow> regex \<Rightarrow> regex" where
  "times_of 0 r = Empty"
| "times_of (Suc n) r = Seq r (times_of n r)"

section \<open>Matching\<close>

fun nullable :: "regex \<Rightarrow> bool" where
  "nullable Never \<longleftrightarrow> False"
| "nullable Empty \<longleftrightarrow> True"
| "nullable (Class p) \<longleftrightarrow> False"
| "nullable (Seq r s) \<longleftrightarrow> nullable r \<and> nullable s"
| "nullable (Alt r s) \<longleftrightarrow> nullable r \<or> nullable s"
| "nullable (Star r) \<longleftrightarrow> True"

fun deriv :: "char \<Rightarrow> regex \<Rightarrow> regex" where
  "deriv c Never = Never"
| "deriv c Empty = Never"
| "deriv c (Class p) = (if p c then Empty else Never)"
| "deriv c (Seq r s) = (if nullable r then Alt (Seq (deriv c r) s) (deriv c s) else Seq (deriv c r) s)"
| "deriv c (Alt r s) = Alt (deriv c r) (deriv c s)"
| "deriv c (Star r) = Seq (deriv c r) (Star r)"

definition full_match :: "regex \<Rightarrow> string \<Rightarrow> bool" where
  "full_match r s = nullable (foldl (\<lambda>r c. deriv c r) r s)"

text \<open>\<open>/^r$/\<close>, \<open>/^r/\<close> and \<open>/r$/\<close>, as \<open>match\<close> and \<open>test\<close> search for them.\<close>

definition matches_all :: "regex \<Rightarrow> string \<Rightarrow> bool" where
  "matches_all r s = full_match r s"

definition matches_start :: "regex \<Rightarrow> string \<Rightarrow> bool" where
  "matches_start r s = full_match (Seq r (Star (Class (\<lambda>_. True)))) s"

definition matches_end :: "regex \<Rightarrow> string \<Rightarrow> bool" where
  "matches_end r s = full_match (Seq (Star (Class (\<lambda>_. True))) r) s"

section \<open>What a match means\<close>

fun lang :: "regex \<Rightarrow> string set" where
  "lang Never = {}"
| "lang Empty = {[]}"
| "lang (Class p) = {[c] | c. p c}"
| "lang (Seq r s) = {u @ v | u v. u \<in> lang r \<and> v \<in> lang s}"
| "lang (Alt r s) = lang r \<union> lang s"
| "lang (Star r) = {concat us | us. set us \<subseteq> lang r}"

lemma nullable_lang: "nullable r \<longleftrightarrow> [] \<in> lang r"
  by (induction r) (auto intro: exI [of _ "[]"])

lemma star_Cons: "c # s \<in> lang (Star r) \<longleftrightarrow> (\<exists>u v. s = u @ v \<and> c # u \<in> lang r \<and> v \<in> lang (Star r))"
proof
  assume "c # s \<in> lang (Star r)"
  then obtain us where "c # s = concat us" "set us \<subseteq> lang r" by auto
  then show "\<exists>u v. s = u @ v \<and> c # u \<in> lang r \<and> v \<in> lang (Star r)"
  proof (induction us)
    case (Cons w us)
    show ?case
    proof (cases w)
      case Nil
      with Cons show ?thesis by auto
    next
      case (Cons d u)
      with Cons.prems have "s = u @ concat us" "c # u \<in> lang r" "concat us \<in> lang (Star r)" by auto
      then show ?thesis by blast
    qed
  qed simp
next
  assume "\<exists>u v. s = u @ v \<and> c # u \<in> lang r \<and> v \<in> lang (Star r)"
  then obtain u us where "s = u @ concat us" "c # u \<in> lang r" "set us \<subseteq> lang r" by auto
  then have "c # s = concat ((c # u) # us)" "set ((c # u) # us) \<subseteq> lang r" by auto
  then show "c # s \<in> lang (Star r)" unfolding lang.simps by blast
qed

lemma seq_Cons: "c # s \<in> lang (Seq r t) \<longleftrightarrow>
    (\<exists>u v. s = u @ v \<and> c # u \<in> lang r \<and> v \<in> lang t) \<or> ([] \<in> lang r \<and> c # s \<in> lang t)"
  by (auto simp: Cons_eq_append_conv)

lemma deriv_lang: "s \<in> lang (deriv c r) \<longleftrightarrow> c # s \<in> lang r"
proof (induction r arbitrary: s)
  case (Seq r t)
  then show ?case unfolding seq_Cons by (auto simp: nullable_lang)
next
  case (Star r)
  then show ?case unfolding star_Cons by auto
qed auto

theorem full_match_lang: "full_match r s \<longleftrightarrow> s \<in> lang r"
proof -
  have "nullable (foldl (\<lambda>r c. deriv c r) r s) \<longleftrightarrow> s \<in> lang r"
    by (induction s arbitrary: r) (simp_all add: nullable_lang deriv_lang)
  then show ?thesis by (simp add: full_match_def)
qed

lemma lang_star_none: "lang (Star (none_of cs)) = {s. set s \<inter> set cs = {}}"
proof -
  have "s \<in> lang (Star (none_of cs)) \<longleftrightarrow> set s \<inter> set cs = {}" for s
  proof (induction s)
    case Nil
    show ?case by (auto intro: exI [of _ "[]"])
  next
    case (Cons c s)
    have "c # s \<in> lang (Star (none_of cs)) \<longleftrightarrow> c \<notin> set cs \<and> s \<in> lang (Star (none_of cs))"
      unfolding star_Cons by (auto simp: none_of_def)
    with Cons show ?case by auto
  qed
  then show ?thesis by blast
qed

lemma lang_anything: "lang (Star (Class (\<lambda>_. True))) = UNIV"
  using lang_star_none [of "[]"] by (simp add: none_of_def)

lemma matches_start_lang: "matches_start r s \<longleftrightarrow> (\<exists>u v. s = u @ v \<and> u \<in> lang r)"
  unfolding matches_start_def full_match_lang lang.simps(4) lang_anything by auto

lemma matches_end_lang: "matches_end r s \<longleftrightarrow> (\<exists>u v. s = u @ v \<and> v \<in> lang r)"
  unfolding matches_end_def full_match_lang lang.simps(4) lang_anything by auto

lemma lang_lit: "lang (lit cs) = {cs}"
  by (induction cs) (auto simp: chr_def)

lemma lang_range_digit:
  assumes "is_digit a" and "is_digit b"
  shows "lang (range_of a b) = {[c] | c. is_digit c \<and> digit_val a \<le> digit_val c \<and> digit_val c \<le> digit_val b}"
  using assms by (auto simp: range_of_def is_digit_def digit_val_def)

lemma lang_times: "lang (times_of n r) = {concat us | us. length us = n \<and> set us \<subseteq> lang r}"
proof (induction n)
  case (Suc n)
  have "u @ concat us = concat (u # us)" for u :: string and us by simp
  with Suc show ?case
    by (auto simp: length_Suc_conv) (metis concat.simps(2) insert_subset list.simps(15), blast)
qed auto

text \<open>Membership, one character class at a time.\<close>

lemma lang_single: "s \<in> lang (Class p) \<longleftrightarrow> (\<exists>c. s = [c] \<and> p c)"
  by auto

lemma lang_seq_class: "s \<in> lang (Seq (Class p) r) \<longleftrightarrow> (\<exists>c t. s = c # t \<and> p c \<and> t \<in> lang r)"
  using append_Cons append_Nil by (auto, metis)

lemma lang_seq_assoc: "lang (Seq (Seq q r) t) = lang (Seq q (Seq r t))"
proof -
  have "s \<in> lang (Seq (Seq q r) t) \<longleftrightarrow> s \<in> lang (Seq q (Seq r t))" for s
    by (auto simp: append_assoc) (metis append_assoc)+
  then show ?thesis by blast
qed

lemma lang_seq_empty: "lang (Seq Empty r) = lang r"
  by auto

lemma lang_seq_opt: "lang (Seq (opt q) r) = lang (Seq q r) \<union> lang r"
  by (auto simp: opt_def)

lemma lang_opt: "lang (opt r) = lang r \<union> {[]}"
  by (auto simp: opt_def)

end
