(* ===== verification/RegisterServiceWorker.thy ===== *)
theory RegisterServiceWorker
  imports Regex UriTs
begin

text \<open>
  \<open>powerful-front/src/registerServiceWorker.js\<close>: which hosts count as local, and the state
  machine of registering, checking and unregistering the service worker. The promises of the
  browser are tasks that an event completes; an event that completes no task is not enabled.
\<close>

section \<open>Local hosts\<close>

text \<open>\<open>25[0-5]|2[0-4][0-9]|[01]?[0-9][0-9]?\<close>\<close>

definition octet_re :: regex where
  "octet_re =
     Alt (Seq (lit ''25'') (range_of CHR ''0'' CHR ''5''))
    (Alt (Seq (lit ''2'') (Seq (range_of CHR ''0'' CHR ''4'') (range_of CHR ''0'' CHR ''9'')))
         (Seq (opt (range_of CHR ''0'' CHR ''1'')) (Seq (range_of CHR ''0'' CHR ''9'') (opt (range_of CHR ''0'' CHR ''9'')))))"

definition loopback_re :: regex where
  "loopback_re = Seq (lit ''127'') (times_of 3 (Seq (chr CHR ''.'') octet_re))"

definition isLocalhost :: "string \<Rightarrow> bool" where
  "isLocalhost hostname \<longleftrightarrow> hostname = ''localhost'' \<or> hostname = ''[::1]'' \<or> matches_all loopback_re hostname"

section \<open>The page\<close>

record page_env =
  production :: bool
  has_serviceWorker :: bool
  public_url :: string
  public_origin :: string
  page_origin :: string
  hostname :: string

text \<open>
  The promises under way: fetching the script, registering it, waiting for an active
  registration and unregistering it, the last two with what follows (\<open>True\<close>: a reload).
\<close>

datatype task = Fetching string | Registering string | AwaitReady bool | Unregistering bool

record sw_state =
  load_listener :: bool
  tasks :: "task list"
  registered :: bool
  controlled :: bool
  update_handler :: bool
  state_handler :: bool
  reloads :: nat
  messages :: "string list"

record response =
  status :: nat
  content_type :: "string option"

definition start_task :: "task \<Rightarrow> sw_state \<Rightarrow> sw_state" where
  "start_task t s = s\<lparr>tasks := tasks s @ [t]\<rparr>"

definition message :: "string \<Rightarrow> sw_state \<Rightarrow> sw_state" where
  "message m s = s\<lparr>messages := messages s @ [m]\<rparr>"

section \<open>Operations\<close>

definition registerValidSW :: "string \<Rightarrow> sw_state \<Rightarrow> sw_state" where
  "registerValidSW swUrl s = start_task (Registering swUrl) s"

definition checkValidServiceWorker :: "string \<Rightarrow> sw_state \<Rightarrow> sw_state" where
  "checkValidServiceWorker swUrl s = start_task (Fetching swUrl) s"

definition register :: "page_env \<Rightarrow> sw_state \<Rightarrow> sw_state" where
  "register env s =
     (if production env \<and> has_serviceWorker env
      then if public_origin env \<noteq> page_origin env then s else s\<lparr>load_listener := True\<rparr>
      else s)"

definition on_load :: "page_env \<Rightarrow> sw_state \<Rightarrow> sw_state" where
  "on_load env s =
     (let swUrl = public_url env @ ''/service-worker.js''
      in if isLocalhost (hostname env) then checkValidServiceWorker swUrl s else registerValidSW swUrl s)"

definition unregister :: "page_env \<Rightarrow> sw_state \<Rightarrow> sw_state" where
  "unregister env s = (if has_serviceWorker env then start_task (AwaitReady False) s else s)"

text \<open>\<open>s.indexOf(p) !== -1\<close>\<close>

fun occurs :: "string \<Rightarrow> string \<Rightarrow> bool" where
  "occurs p [] \<longleftrightarrow> p = []"
| "occurs p (c # cs) \<longleftrightarrow> take (length p) (c # cs) = p \<or> occurs p cs"

text \<open>
  The response to the check. Without a \<open>content-type\<close> header, \<open>get\<close> gives \<open>null\<close>, reading
  its \<open>indexOf\<close> throws, and the \<open>catch\<close> of the promise takes it for a failed request.
\<close>

definition offline :: string where
  "offline = ''No internet connection found. App is running in offline mode.''"

definition fetched :: "string \<Rightarrow> response \<Rightarrow> sw_state \<Rightarrow> sw_state" where
  "fetched swUrl r s =
     (if status r = 404 then start_task (AwaitReady True) s
      else case content_type r of
          None \<Rightarrow> message offline s
        | Some t \<Rightarrow> if \<not> occurs ''javascript'' t then start_task (AwaitReady True) s else registerValidSW swUrl s)"

definition state_changed :: "string \<Rightarrow> sw_state \<Rightarrow> sw_state" where
  "state_changed st s =
     (if st = ''installed''
      then if controlled s then message ''New content is available; please refresh.'' s
           else message ''Content is cached for offline use.'' s
      else s)"

section \<open>Steps\<close>

datatype sw_event =
    PageLoads
  | FetchAnswers string response
  | FetchFails string
  | RegisterDone string
  | RegisterFails string
  | WorkerReady bool
  | UnregisterDone bool
  | UpdateFound
  | StateChanges string
  | TakesControl

definition finish :: "task \<Rightarrow> sw_state \<Rightarrow> sw_state" where
  "finish t s = s\<lparr>tasks := remove1 t (tasks s)\<rparr>"

definition sw_handle :: "page_env \<Rightarrow> sw_event \<Rightarrow> sw_state \<Rightarrow> sw_state" where
  "sw_handle env e s = (case e of
      PageLoads \<Rightarrow> on_load env (s\<lparr>load_listener := False\<rparr>)
    | FetchAnswers u r \<Rightarrow> fetched u r (finish (Fetching u) s)
    | FetchFails u \<Rightarrow> message offline (finish (Fetching u) s)
    | RegisterDone u \<Rightarrow> (finish (Registering u) s)\<lparr>registered := True, update_handler := True\<rparr>
    | RegisterFails u \<Rightarrow> message ''Error during service worker registration:'' (finish (Registering u) s)
    | WorkerReady b \<Rightarrow> start_task (Unregistering b) (finish (AwaitReady b) s)
    | UnregisterDone b \<Rightarrow> (finish (Unregistering b) s)\<lparr>registered := False, reloads := (if b then reloads s + 1 else reloads s)\<rparr>
    | UpdateFound \<Rightarrow> s\<lparr>state_handler := True\<rparr>
    | StateChanges st \<Rightarrow> state_changed st s
    | TakesControl \<Rightarrow> s\<lparr>controlled := True\<rparr>)"

definition sw_enabled :: "sw_state \<Rightarrow> sw_event \<Rightarrow> bool" where
  "sw_enabled s e = (case e of
      PageLoads \<Rightarrow> load_listener s
    | FetchAnswers u r \<Rightarrow> Fetching u \<in> set (tasks s)
    | FetchFails u \<Rightarrow> Fetching u \<in> set (tasks s)
    | RegisterDone u \<Rightarrow> Registering u \<in> set (tasks s)
    | RegisterFails u \<Rightarrow> Registering u \<in> set (tasks s)
    | WorkerReady b \<Rightarrow> AwaitReady b \<in> set (tasks s) \<and> registered s
    | UnregisterDone b \<Rightarrow> Unregistering b \<in> set (tasks s)
    | UpdateFound \<Rightarrow> update_handler s
    | StateChanges st \<Rightarrow> state_handler s
    | TakesControl \<Rightarrow> registered s)"

inductive sw_steps :: "page_env \<Rightarrow> sw_state \<Rightarrow> sw_state \<Rightarrow> bool" for env :: page_env and s0 :: sw_state where
  sw_refl: "sw_steps env s0 s0"
| sw_step: "sw_steps env s0 s \<Longrightarrow> sw_enabled s e \<Longrightarrow> sw_steps env s0 (sw_handle env e s)"

section \<open>The octets of a loopback address\<close>

text \<open>One to three digits that denote a number up to 255; leading zeros are allowed.\<close>

definition octet :: "string \<Rightarrow> bool" where
  "octet s \<longleftrightarrow> list_all is_digit s \<and> 1 \<le> length s \<and> length s \<le> 3 \<and> nat_val s \<le> 255"

definition digit_between :: "nat \<Rightarrow> nat \<Rightarrow> char \<Rightarrow> bool" where
  "digit_between i j c \<longleftrightarrow> is_digit c \<and> i \<le> digit_val c \<and> digit_val c \<le> j"

lemma digit_ranges:
  "range_of CHR ''0'' CHR ''1'' = Class (digit_between 0 1)" "range_of CHR ''0'' CHR ''4'' = Class (digit_between 0 4)"
  "range_of CHR ''0'' CHR ''5'' = Class (digit_between 0 5)" "range_of CHR ''0'' CHR ''9'' = Class (digit_between 0 9)"
  by (auto simp: range_of_def digit_between_def is_digit_def digit_val_def fun_eq_iff)

lemma digit_literals:
  "lit ''25'' = Seq (Class (digit_between 2 2)) (Seq (Class (digit_between 5 5)) Empty)"
  "lit ''2'' = Seq (Class (digit_between 2 2)) Empty"
proof -
  have "(\<lambda>x. x = CHR ''2'') = digit_between 2 2" "(\<lambda>x. x = CHR ''5'') = digit_between 5 5"
    using digit_val_inject [of _ "CHR ''2''"] digit_val_inject [of _ "CHR ''5''"]
    by (auto simp: digit_between_def fun_eq_iff is_digit_def digit_val_def)
  then show "lit ''25'' = Seq (Class (digit_between 2 2)) (Seq (Class (digit_between 5 5)) Empty)"
    "lit ''2'' = Seq (Class (digit_between 2 2)) Empty"
    by (simp_all add: chr_def)
qed

lemma octet_lang: "s \<in> lang octet_re \<longleftrightarrow>
    (\<exists>a b c. s = [a, b, c] \<and> digit_between 2 2 a \<and> digit_between 5 5 b \<and> digit_between 0 5 c)
  \<or> (\<exists>a b c. s = [a, b, c] \<and> digit_between 2 2 a \<and> digit_between 0 4 b \<and> digit_between 0 9 c)
  \<or> (\<exists>a b c. s = [a, b, c] \<and> digit_between 0 1 a \<and> digit_between 0 9 b \<and> digit_between 0 9 c)
  \<or> (\<exists>b c. s = [b, c] \<and> digit_between 0 9 b \<and> digit_between 0 9 c) \<or> (\<exists>b. s = [b] \<and> digit_between 0 9 b)"
  unfolding octet_re_def digit_literals digit_ranges lang.simps(5) Un_iff lang_seq_assoc lang_seq_empty lang_seq_opt
    lang_seq_class lang_single lang_opt by auto (auto simp: digit_between_def)

lemma octet_match: "s \<in> lang octet_re \<longleftrightarrow> octet s"
proof
  assume "s \<in> lang octet_re"
  then show "octet s"
    unfolding octet_lang octet_def by (auto simp: digit_between_def nat_val_Cons)
next
  assume o: "octet s"
  have nine: "digit_val x \<le> 9" if "is_digit x" for x using digit_val_less [OF that] by simp
  from o consider b where "s = [b]" | b c where "s = [b, c]" | a b c where "s = [a, b, c]"
    by (auto simp: octet_def le_Suc_eq length_Suc_conv numeral_3_eq_3)
  then show "s \<in> lang octet_re"
  proof cases
    case 1
    with o nine show ?thesis unfolding octet_lang by (auto simp: octet_def digit_between_def)
  next
    case 2
    with o nine show ?thesis unfolding octet_lang by (auto simp: octet_def digit_between_def)
  next
    case 3
    have d: "is_digit a" "is_digit b" "is_digit c" and v: "100 * digit_val a + 10 * digit_val b + digit_val c \<le> 255"
      using o 3 by (simp_all add: octet_def nat_val_Cons)
    then have "digit_val a \<le> 1 \<or> digit_val a = 2 \<and> digit_val b \<le> 4 \<or> digit_val a = 2 \<and> digit_val b = 5 \<and> digit_val c \<le> 5"
      by linarith
    with d nine 3 show ?thesis unfolding octet_lang by (auto simp: digit_between_def)
  qed
qed

lemma join_split: "join_with [c] (split_on c s) = s"
proof (induction s)
  case (Cons x xs)
  obtain z zs where z: "split_on c xs = z # zs" by (meson neq_Nil_conv split_on_not_Nil)
  with Cons show ?case by (cases zs) auto
qed simp

text \<open>\<open>127\<close> and three octets, separated by dots.\<close>

definition loopback :: "string \<Rightarrow> bool" where
  "loopback s = (case split_on CHR ''.'' s of
      [a, b, c, d] \<Rightarrow> a = ''127'' \<and> octet b \<and> octet c \<and> octet d
    | _ \<Rightarrow> False)"

lemma octet_no_dot: "octet s \<Longrightarrow> CHR ''.'' \<notin> set s"
proof
  assume "octet s" "CHR ''.'' \<in> set s"
  then have "is_digit CHR ''.''" unfolding octet_def list_all_iff by blast
  then show False by (simp add: is_digit_def)
qed

lemma split_dotted:
  assumes "c \<notin> set w" "c \<notin> set x" "c \<notin> set y" "c \<notin> set z"
  shows "split_on c (w @ c # x @ c # y @ c # z) = [w, x, y, z]"
  using assms by (simp add: split_on_append split_on_absent)

lemma loopback_iff: "loopback s \<longleftrightarrow> (\<exists>x y z. s = ''127'' @ CHR ''.'' # x @ CHR ''.'' # y @ CHR ''.'' # z \<and> octet x \<and> octet y \<and> octet z)"
proof
  assume "loopback s"
  then obtain x y z where sp: "split_on CHR ''.'' s = [''127'', x, y, z]" and o: "octet x" "octet y" "octet z"
    unfolding loopback_def by (auto split: list.splits)
  have "s = join_with [CHR ''.''] [''127'', x, y, z]" unfolding sp [symmetric] join_split ..
  with o show "\<exists>x y z. s = ''127'' @ CHR ''.'' # x @ CHR ''.'' # y @ CHR ''.'' # z \<and> octet x \<and> octet y \<and> octet z"
    by (intro exI [of _ x] exI [of _ y] exI [of _ z]) (simp only: join_with.simps append_Cons append_Nil simp_thms)
next
  assume "\<exists>x y z. s = ''127'' @ CHR ''.'' # x @ CHR ''.'' # y @ CHR ''.'' # z \<and> octet x \<and> octet y \<and> octet z"
  then obtain x y z where s: "s = ''127'' @ CHR ''.'' # x @ CHR ''.'' # y @ CHR ''.'' # z"
    and o: "octet x" "octet y" "octet z" by blast
  have "CHR ''.'' \<notin> set ''127''" by simp
  from split_dotted [OF this octet_no_dot [OF o(1)] octet_no_dot [OF o(2)] octet_no_dot [OF o(3)]]
  have "split_on CHR ''.'' s = [''127'', x, y, z]" unfolding s .
  with o show "loopback s" by (simp only: loopback_def list.case simp_thms)
qed

lemma lang_three: "s \<in> lang (times_of 3 (Seq (chr d) r)) \<longleftrightarrow>
    (\<exists>x y z. s = d # x @ d # y @ d # z \<and> x \<in> lang r \<and> y \<in> lang r \<and> z \<in> lang r)"
proof -
  have c: "u \<in> lang (Seq (chr d) r) \<longleftrightarrow> (\<exists>x. u = d # x \<and> x \<in> lang r)" for u
    unfolding chr_def lang_seq_class by blast
  have t: "u \<in> lang (times_of (Suc n) (Seq (chr d) r)) \<longleftrightarrow>
      (\<exists>x v. u = d # x @ v \<and> x \<in> lang r \<and> v \<in> lang (times_of n (Seq (chr d) r)))" for u n
  proof -
    have "u \<in> lang (times_of (Suc n) (Seq (chr d) r)) \<longleftrightarrow>
        (\<exists>w v. u = w @ v \<and> w \<in> lang (Seq (chr d) r) \<and> v \<in> lang (times_of n (Seq (chr d) r)))"
      unfolding times_of.simps lang.simps(4) [of "Seq (chr d) r"] by blast
    then show ?thesis unfolding c by (metis append_Cons)
  qed
  have "u \<in> lang (times_of 0 (Seq (chr d) r)) \<longleftrightarrow> u = []" for u by simp
  then have "s \<in> lang (times_of 3 (Seq (chr d) r)) \<longleftrightarrow>
      (\<exists>x v. s = d # x @ v \<and> x \<in> lang r \<and> (\<exists>y w. v = d # y @ w \<and> y \<in> lang r \<and> (\<exists>z. w = d # z \<and> z \<in> lang r)))"
    unfolding numeral_3_eq_3 t by simp
  then show ?thesis by blast
qed

lemma loopback_match: "matches_all loopback_re s \<longleftrightarrow> loopback s"
proof -
  have "matches_all loopback_re s \<longleftrightarrow> (\<exists>v. s = ''127'' @ v \<and> v \<in> lang (times_of 3 (Seq (chr CHR ''.'') octet_re)))"
    unfolding matches_all_def full_match_lang loopback_re_def lang.simps(4) lang_lit by blast
  then show ?thesis
    unfolding lang_three octet_match loopback_iff by blast
qed

text \<open>
  C31. The hosts that count as local are \<open>localhost\<close>, \<open>[::1]\<close> and exactly the dotted addresses
  127.x.y.z whose parts are one to three digits and at most 255: the regular expression
  accepts no other text and misses none of them.
\<close>
theorem isLocalhost_hosts: "isLocalhost h = (h = ''localhost'' \<or> h = ''[::1]'' \<or> loopback h)"
  by (simp only: isLocalhost_def loopback_match)

section \<open>Runs\<close>

text \<open>A page before any call: no listener, no promise, no handler.\<close>

definition sw_idle :: "sw_state \<Rightarrow> bool" where
  "sw_idle s \<longleftrightarrow> \<not> load_listener s \<and> tasks s = [] \<and> \<not> update_handler s \<and> \<not> state_handler s"

text \<open>What a page that only unregisters can have under way.\<close>

definition leaving :: "sw_state \<Rightarrow> sw_state \<Rightarrow> bool" where
  "leaving s0 s \<longleftrightarrow> \<not> load_listener s \<and> \<not> update_handler s \<and> \<not> state_handler s \<and>
     set (tasks s) \<subseteq> {AwaitReady False, Unregistering False} \<and>
     reloads s = reloads s0 \<and> messages s = messages s0 \<and> (registered s \<longrightarrow> registered s0)"

lemma leaving_step:
  assumes "leaving s0 s" and "sw_enabled s e"
  shows "leaving s0 (sw_handle env e s)"
proof -
  have f: "set (remove1 t (tasks s)) \<subseteq> {AwaitReady False, Unregistering False}" for t
    using assms(1) set_remove1_subset [of t "tasks s"] unfolding leaving_def by blast
  show ?thesis
    using assms f by (cases e) (auto simp: sw_enabled_def sw_handle_def leaving_def finish_def start_task_def)
qed

text \<open>
  The page starts by unregistering (\<open>index.tsx\<close> calls nothing else): whatever the browser
  does then, it is never reloaded, logs nothing, never gains a registration and has nothing
  under way but waiting for the old registration and removing it.
\<close>
theorem unregister_is_quiet:
  assumes "sw_idle s0" and "sw_steps env (unregister env s0) s"
  shows "leaving s0 s"
  using assms(2)
proof (induction rule: sw_steps.induct)
  case sw_refl
  show ?case using assms(1) by (auto simp: unregister_def leaving_def sw_idle_def start_task_def)
qed (rule leaving_step)

definition idle_page :: sw_state where
  "idle_page = \<lparr>load_listener = False, tasks = [], registered = True, controlled = True, update_handler = False,
     state_handler = False, reloads = 0, messages = []\<rparr>"

definition example_env :: page_env where
  "example_env = \<lparr>production = True, has_serviceWorker = True, public_url = [], public_origin = ''http://h'',
     page_origin = ''http://h'', hostname = ''h''\<rparr>"

definition unregistered_page :: sw_state where
  "unregistered_page = sw_handle example_env (UnregisterDone False)
     (sw_handle example_env (WorkerReady False) (unregister example_env idle_page))"

lemma unregistered_page_reached: "sw_steps example_env (unregister example_env idle_page) unregistered_page"
  unfolding unregistered_page_def
  by (intro sw_steps.intros)
    (simp_all add: sw_enabled_def unregister_def example_env_def idle_page_def start_task_def sw_handle_def finish_def)

theorem unregister_is_quiet_witness: "leaving idle_page unregistered_page"
proof (rule unregister_is_quiet [OF _ unregistered_page_reached])
  show "sw_idle idle_page" by (simp add: sw_idle_def idle_page_def)
qed

section \<open>A page that registers\<close>

definition is_remote_task :: "task \<Rightarrow> bool" where
  "is_remote_task t = (case t of Registering _ \<Rightarrow> True | _ \<Rightarrow> False)"

definition staying :: "page_env \<Rightarrow> sw_state \<Rightarrow> sw_state \<Rightarrow> bool" where
  "staying env s0 s \<longleftrightarrow> list_all is_remote_task (tasks s) \<and> reloads s = reloads s0 \<and>
     (registered s0 \<longrightarrow> registered s) \<and>
     (\<not> (production env \<and> has_serviceWorker env \<and> public_origin env = page_origin env) \<longrightarrow>
       \<not> load_listener s \<and> tasks s = [] \<and> \<not> update_handler s \<and> \<not> state_handler s \<and> messages s = messages s0)"

lemma staying_step:
  assumes "\<not> isLocalhost (hostname env)" and "staying env s0 s" and "sw_enabled s e"
  shows "staying env s0 (sw_handle env e s)"
proof -
  have f: "list_all is_remote_task (remove1 t (tasks s))" for t
    using assms(2) set_remove1_subset [of t "tasks s"] unfolding staying_def list_all_iff by blast
  have r: "is_remote_task t" if "t \<in> set (tasks s)" for t
    using assms(2) that by (simp add: staying_def list_all_iff)
  show ?thesis
  proof (cases e)
    case (FetchAnswers u x)
    then show ?thesis using assms(3) r [of "Fetching u"] by (simp add: sw_enabled_def is_remote_task_def)
  next
    case (FetchFails u)
    then show ?thesis using assms(3) r [of "Fetching u"] by (simp add: sw_enabled_def is_remote_task_def)
  next
    case (WorkerReady b)
    then show ?thesis using assms(3) r [of "AwaitReady b"] by (simp add: sw_enabled_def is_remote_task_def)
  next
    case (UnregisterDone b)
    then show ?thesis using assms(3) r [of "Unregistering b"] by (simp add: sw_enabled_def is_remote_task_def)
  qed (use assms f in \<open>auto simp: sw_enabled_def sw_handle_def staying_def finish_def start_task_def on_load_def
      registerValidSW_def is_remote_task_def message_def state_changed_def Let_def\<close>)
qed

text \<open>
  On a host that is not local, a page that calls \<open>register\<close> is never reloaded by it and
  never loses a registration; and outside production, without service workers or with the
  assets on another origin, the call has no effect at all, whatever happens afterwards.
\<close>
theorem remote_register:
  assumes "\<not> isLocalhost (hostname env)" and "sw_idle s0" and "sw_steps env (register env s0) s"
  shows "staying env s0 s"
  using assms(3)
proof (induction rule: sw_steps.induct)
  case sw_refl
  show ?case using assms(2) by (auto simp: register_def staying_def sw_idle_def)
qed (rule staying_step [OF assms(1)])

theorem remote_register_witness:
  "staying example_env idle_page (sw_handle example_env PageLoads (register example_env idle_page))"
proof (rule remote_register)
  show "\<not> isLocalhost (hostname example_env)" by (simp add: isLocalhost_def) code_simp
  show "sw_idle idle_page" by (simp add: sw_idle_def idle_page_def)
  show "sw_steps example_env (register example_env idle_page) (sw_handle example_env PageLoads (register example_env idle_page))"
    by (intro sw_steps.intros) (simp add: sw_enabled_def register_def example_env_def idle_page_def)
qed

text \<open>A script without a content type is taken for a missing connection.\<close>

theorem missing_content_type:
  "status r \<noteq> 404 \<Longrightarrow> content_type r = None \<Longrightarrow> fetched u r s = message offline s"
  by (simp add: fetched_def)

end
