(* ===== verification/IndexTsx.thy ===== *)
theory IndexTsx
  imports AppProps RegisterServiceWorker
begin

text \<open>
  \<open>powerful-front/src/index.tsx\<close>, the start of the page: the Redux store with its sample data,
  the first rendering of the application, and the call that removes the service worker. The
  reducer and the action creator of the form library are arguments, as are the schemas, the
  cells and the renderers it is given.
\<close>

definition index_data :: jsv where
  "index_data = Obj [(''name'', Str ''Send email to Adrian''),
     (''description'', Str (''Confirm if you have passed the subject'' @ [CHR 0x0A] @ ''Hereby ...'')),
     (''done'', Bool True), (''recurrence'', Str ''Daily''), (''rating'', Num (js_nat 3))]"

definition initState :: "jsv \<Rightarrow> jsv \<Rightarrow> jsv" where
  "initState materialCells materialRenderers =
     Obj [(''jsonforms'', Obj [(''cells'', materialCells), (''renderers'', materialRenderers)])]"

text \<open>\<open>combineReducers\<close> with the one slice.\<close>

definition rootReducer :: "(jsv \<Rightarrow> jsv \<Rightarrow> jsv) \<Rightarrow> jsv \<Rightarrow> jsv \<Rightarrow> jsv" where
  "rootReducer jsonformsReducer state action = Obj [(''jsonforms'', jsonformsReducer (member_of state ''jsonforms'') action)]"

text \<open>The store after its creation, which runs the reducer once, and the first action.\<close>

definition start_store ::
  "(jsv \<Rightarrow> jsv \<Rightarrow> jsv) \<Rightarrow> (jsv \<Rightarrow> jsv \<Rightarrow> jsv \<Rightarrow> jsv) \<Rightarrow> jsv \<Rightarrow> jsv \<Rightarrow> jsv \<Rightarrow> jsv \<Rightarrow> jsv" where
  "start_store jsonformsReducer init_action materialCells materialRenderers schema uischema =
     (let st = rootReducer jsonformsReducer (initState materialCells materialRenderers) (Obj [(''type'', Str ''@@redux/INIT'')])
      in rootReducer jsonformsReducer st (init_action index_data schema uischema))"

record site =
  app_of :: app
  worker_of :: sw_state

definition start_page :: "env \<Rightarrow> page_env \<Rightarrow> jsv \<Rightarrow> storage \<Rightarrow> browser \<Rightarrow> sw_state \<Rightarrow> site" where
  "start_page env penv st m b sw = \<lparr>app_of = mount env st m b, worker_of = unregister penv sw\<rparr>"

lemma mount_fields:
  "displayed (mount env st m b) = initial_case" "sent (mount env st m b) = [(CaseList, caseList_request env)]"
  "store (mount env st m b) = st" "displayDataAsString (mount env st m b) = JSON_stringify ''  '' initial_case"
  by (simp_all add: mount_def displayData_effects_def updateStringData_def render_def initial_app_def send_def
      Let_def split: sum.split)

lemma mount_text:
  assumes "yaml_laws (dump env) (load env)"
  shows "fromYaml (load env) (yamlStr (mount env st m b)) = Inr initial_case"
proof -
  define s where "s = updateStringData (render env (initial_app st m b))"
  have s: "mount env st m b = displayData_effects env s" by (simp add: mount_def s_def)
  have d: "displayed s = initial_case" "\<not> yamlTextFocused s"
    by (simp_all add: s_def updateStringData_def render_def initial_app_def send_def Let_def split: sum.split)
  have "viewToPost initial_case = Inr initial_case" "yaml_value initial_case" by code_simp+
  then obtain t where t: "toYaml (dump env) initial_case = Inr t" "fromYaml (load env) t = Inr initial_case"
    using text_codec.print_obtain [OF assms] by blast
  with d \<open>viewToPost initial_case = Inr initial_case\<close> show ?thesis
    by (simp add: s displayData_effects_def Let_def)
qed

text \<open>
  C33. The page starts with one empty node in the form and its YAML in the text field, asks
  for the menu and nothing else, and starts removing the service worker. The sample data of
  the store, which the reducer keeps where the application looks for it, reaches none of
  them: the effect of the displayed case overwrites it at once.
\<close>
theorem page_starts:
  assumes "yaml_laws (dump env) (load env)" and "has_serviceWorker penv" and "sw_idle sw"
    and "\<forall>state schema uischema. get_path (jsonformsReducer state (init_action index_data schema uischema)) [''core'', ''data''] = index_data"
  shows "let st = start_store jsonformsReducer init_action cells renderers schema uischema;
             p = start_page env penv st m b sw
    in getDataAsStringFromStore (Some st) = JSON_stringify ''  '' index_data \<and>
      displayed (app_of p) = initial_case \<and>
      displayDataAsString (app_of p) = JSON_stringify ''  '' initial_case \<and>
      fromYaml (load env) (yamlStr (app_of p)) = Inr initial_case \<and>
      \<not> crashed (app_of p) \<and> sent (app_of p) = [(CaseList, caseList_request env)] \<and>
      tasks (worker_of p) = [AwaitReady False]"
  using mount_text [OF assms(1)] mount_calm [OF assms(1)] assms(2,3,4)
  by (simp add: Let_def start_page_def mount_fields calm_def unregister_def start_task_def sw_idle_def
      getDataAsStringFromStore_def start_store_def rootReducer_def member_of_def)

text \<open>A reducer of that kind: the slice whose core holds the data of the action.\<close>

definition slice_reducer :: "jsv \<Rightarrow> jsv \<Rightarrow> jsv" where
  "slice_reducer state action = Obj [(''core'', Obj [(''data'', member_of action ''data'')])]"

definition slice_init :: "jsv \<Rightarrow> jsv \<Rightarrow> jsv \<Rightarrow> jsv" where
  "slice_init data schema uischema = Obj [(''type'', Str ''jsonforms/INIT''), (''data'', data)]"

theorem page_starts_witness:
  "displayed (app_of (start_page demo_env example_env
      (start_store slice_reducer slice_init Undef Undef Undef Undef) Map.empty page idle_page)) = initial_case"
proof -
  have "has_serviceWorker example_env" "sw_idle idle_page"
    by (simp_all add: example_env_def sw_idle_def idle_page_def)
  moreover have "\<forall>state schema uischema. get_path (slice_reducer state (slice_init index_data schema uischema)) [''core'', ''data''] = index_data"
    by (simp add: slice_reducer_def slice_init_def member_of_def)
  ultimately show ?thesis
    using page_starts [OF demo_laws, of example_env idle_page slice_reducer slice_init] by (simp add: Let_def)
qed

end
