(* ===== verification/ServiceWorkerJs.thy ===== *)
theory ServiceWorkerJs
  imports Regex UriTs
begin

text \<open>
  \<open>powerful-core/src/main/resources/static/service-worker.js\<close> with its precache manifest: the
  statements the worker runs at its start, the assets it caches, the message that makes a
  waiting worker take over, and the addresses its navigation route leaves to the network.
  Workbox itself is not part of the program: what it is given is recorded, in the order it is
  given, and the key it answers \<open>getCacheKeyForURL\<close> with is an argument. The expressions of
  the blacklist are tested against path and query.
\<close>

section \<open>The manifest\<close>

record manifest_entry =
  revision :: string
  asset :: string

definition precacheManifest :: "manifest_entry list" where
  "precacheManifest = [
     \<lparr>revision = ''d448deea1929a8066fc64dffe5108fb6'', asset = ''/index.html''\<rparr>,
     \<lparr>revision = ''a05d8e81e3e4b8bc20ab'', asset = ''/static/css/main.c17bdc7d.chunk.css''\<rparr>,
     \<lparr>revision = ''fa938dfe1db7919acd64'', asset = ''/static/js/2.05b58189.chunk.js''\<rparr>,
     \<lparr>revision = ''77c7b6a7639811e6166c6e36750b43eb'', asset = ''/static/js/2.05b58189.chunk.js.LICENSE.txt''\<rparr>,
     \<lparr>revision = ''a05d8e81e3e4b8bc20ab'', asset = ''/static/js/main.0842e971.chunk.js''\<rparr>,
     \<lparr>revision = ''71734a9cfd077e85bda6'', asset = ''/static/js/runtime-main.90409437.js''\<rparr>]"

text \<open>\<open>self.__precacheManifest = (self.__precacheManifest || []).concat([...])\<close>\<close>

definition load_manifest :: "manifest_entry list option \<Rightarrow> manifest_entry list" where
  "load_manifest previous = (case previous of Some ms \<Rightarrow> ms | None \<Rightarrow> []) @ precacheManifest"

section \<open>Messages\<close>

text \<open>\<open>event.data && event.data.type === 'SKIP_WAITING'\<close>\<close>

definition skips_waiting :: "jsv \<Rightarrow> bool" where
  "skips_waiting data \<longleftrightarrow> truthy data \<and> get_member data ''type'' = Inr (Str ''SKIP_WAITING'')"

section \<open>The start of the worker\<close>

text \<open>
  What the worker has done so far: the scripts imported, the global \<open>__precacheManifest\<close>, the
  message listener, \<open>clientsClaim\<close>, the list given to \<open>precacheAndRoute\<close>, the key given to
  \<open>registerNavigationRoute\<close> (which may be \<open>undefined\<close>), and whether it has skipped waiting.
\<close>

record worker =
  scripts :: "string list"
  manifest_global :: "manifest_entry list option"
  listening :: bool
  claims :: bool
  precached :: "manifest_entry list"
  navigation_key :: "string option option"
  skipped :: bool

definition new_worker :: worker where
  "new_worker = \<lparr>scripts = [], manifest_global = None, listening = False, claims = False, precached = [],
     navigation_key = None, skipped = False\<rparr>"

definition workbox_script :: string where
  "workbox_script = ''https://storage.googleapis.com/workbox-cdn/releases/4.3.1/workbox-sw.js''"

definition manifest_script :: string where
  "manifest_script = ''/precache-manifest.6a647e66668e9753f859bc63c964ec44.js''"

text \<open>
  \<open>importScripts\<close> throws when the script cannot be loaded (\<open>None\<close>: the script ends there); the
  manifest's script runs \<open>load_manifest\<close> on the global.
\<close>

definition importScripts :: "(string \<Rightarrow> bool) \<Rightarrow> string \<Rightarrow> worker \<Rightarrow> worker option" where
  "importScripts loads u w =
     (if \<not> loads u then None
      else if u = manifest_script
      then Some (w\<lparr>scripts := scripts w @ [u], manifest_global := Some (load_manifest (manifest_global w))\<rparr>)
      else Some (w\<lparr>scripts := scripts w @ [u]\<rparr>))"

text \<open>\<open>self.__precacheManifest = [].concat(self.__precacheManifest || [])\<close>\<close>

definition concat_manifest :: "worker \<Rightarrow> worker" where
  "concat_manifest w = w\<lparr>manifest_global := Some ([] @ (case manifest_global w of Some ms \<Rightarrow> ms | None \<Rightarrow> []))\<rparr>"

definition precacheAndRoute :: "worker \<Rightarrow> worker" where
  "precacheAndRoute w = w\<lparr>precached := precached w @ (case manifest_global w of Some ms \<Rightarrow> ms | None \<Rightarrow> [])\<rparr>"

definition registerNavigationRoute :: "(manifest_entry list \<Rightarrow> string \<Rightarrow> string option) \<Rightarrow> worker \<Rightarrow> worker" where
  "registerNavigationRoute getCacheKeyForURL w =
     w\<lparr>navigation_key := Some (getCacheKeyForURL (precached w) ''/index.html'')\<rparr>"

definition boot ::
  "(string \<Rightarrow> bool) \<Rightarrow> (manifest_entry list \<Rightarrow> string \<Rightarrow> string option) \<Rightarrow> worker \<Rightarrow> worker option" where
  "boot loads getCacheKeyForURL w0 =
     (case importScripts loads workbox_script w0 of
        None \<Rightarrow> None
      | Some w1 \<Rightarrow> (case importScripts loads manifest_script w1 of
          None \<Rightarrow> None
        | Some w2 \<Rightarrow>
            let w3 = w2\<lparr>listening := True\<rparr>;
                w4 = w3\<lparr>claims := True\<rparr>;
                w5 = concat_manifest w4;
                w6 = precacheAndRoute w5
            in Some (registerNavigationRoute getCacheKeyForURL w6)))"

definition on_message :: "jsv \<Rightarrow> worker \<Rightarrow> worker" where
  "on_message data w = (if listening w \<and> skips_waiting data then w\<lparr>skipped := True\<rparr> else w)"

section \<open>Navigations\<close>

text \<open>\<open>/^\/_/\<close> and \<open>/\/[^/?]+\.[^/]+$/\<close>\<close>

definition underscore_re :: regex where
  "underscore_re = lit ''/_''"

definition file_re :: regex where
  "file_re = Seq (chr CHR ''/'') (Seq (plus_of (none_of ''/?'')) (Seq (chr CHR ''.'') (plus_of (none_of ''/''))))"

definition blacklisted :: "string \<Rightarrow> bool" where
  "blacklisted pathAndSearch \<longleftrightarrow> matches_start underscore_re pathAndSearch \<or> matches_end file_re pathAndSearch"

definition navigation_page :: "string \<Rightarrow> string option" where
  "navigation_page pathAndSearch = (if blacklisted pathAndSearch then None else Some ''/index.html'')"

section \<open>The started worker\<close>

text \<open>
  Workbox documents that \<open>getCacheKeyForURL\<close> gives a key for the addresses of the precache list
  and nothing for the others.
\<close>

definition keys_precached :: "(manifest_entry list \<Rightarrow> string \<Rightarrow> string option) \<Rightarrow> bool" where
  "keys_precached getCacheKeyForURL \<longleftrightarrow> (\<forall>ms u. getCacheKeyForURL ms u = None \<longleftrightarrow> u \<notin> asset ` set ms)"

lemma manifest_assets: "distinct (map asset precacheManifest)" "''/index.html'' \<in> asset ` set precacheManifest"
  by code_simp (simp add: precacheManifest_def)

lemma script_names: "workbox_script \<noteq> manifest_script"
  by code_simp

lemma boot_cases:
  "boot loads key new_worker = (if loads workbox_script \<and> loads manifest_script
     then Some \<lparr>scripts = [workbox_script, manifest_script], manifest_global = Some precacheManifest, listening = True,
       claims = True, precached = precacheManifest, navigation_key = Some (key precacheManifest ''/index.html''),
       skipped = False\<rparr>
     else None)"
  using script_names
  by (simp add: boot_def importScripts_def new_worker_def load_manifest_def concat_manifest_def precacheAndRoute_def
      registerNavigationRoute_def Let_def)

text \<open>
  C37. The worker starts exactly if both scripts load. It then listens, claims the open pages,
  precaches every asset of the manifest once, and its navigation route has a key: the page was
  precached before its key was asked for. It takes over from a waiting worker on the message
  of that type and on no other.
\<close>
theorem worker_boots:
  assumes "keys_precached getCacheKeyForURL"
  shows "(boot loads getCacheKeyForURL new_worker = None \<longleftrightarrow> \<not> (loads workbox_script \<and> loads manifest_script)) \<and>
    (case boot loads getCacheKeyForURL new_worker of
        None \<Rightarrow> True
      | Some w \<Rightarrow> listening w \<and> claims w \<and> distinct (map asset (precached w)) \<and> precached w = precacheManifest \<and>
          (\<exists>key. navigation_key w = Some (Some key)) \<and> skipped (on_message data w) = skips_waiting data)"
proof -
  have "getCacheKeyForURL precacheManifest ''/index.html'' \<noteq> None"
    using assms manifest_assets(2) unfolding keys_precached_def by blast
  then show ?thesis
    using manifest_assets(1) by (simp add: boot_cases on_message_def)
qed

text \<open>A key of the kind Workbox makes: the address with the revision behind it.\<close>

definition revision_key :: "manifest_entry list \<Rightarrow> string \<Rightarrow> string option" where
  "revision_key ms u = map_option (\<lambda>e. asset e @ ''?__WB_REVISION__='' @ revision e) (find (\<lambda>e. asset e = u) ms)"

lemma revision_key_precached: "keys_precached revision_key"
  by (auto simp: keys_precached_def revision_key_def find_None_iff)

theorem worker_boots_witness: "boot (\<lambda>_. True) revision_key new_worker \<noteq> None"
  using worker_boots [OF revision_key_precached, of "\<lambda>_. True" Undef] by simp

text \<open>Asking for the key before precaching would find none.\<close>

theorem key_needs_precache:
  "keys_precached key \<Longrightarrow> navigation_key (registerNavigationRoute key new_worker) = Some None"
  by (simp add: registerNavigationRoute_def new_worker_def keys_precached_def)

section \<open>Which navigations reach the network\<close>

text \<open>
  Reference: the part behind the last slash has a dot that is neither its first nor its last
  character, with no question mark before it.
\<close>

definition last_segment :: "string \<Rightarrow> string" where
  "last_segment s = rev (takeWhile (\<lambda>c. c \<noteq> CHR ''/'') (rev s))"

definition file_segment :: "string \<Rightarrow> bool" where
  "file_segment seg \<longleftrightarrow> list_ex (\<lambda>i. seg ! i = CHR ''.'' \<and> CHR ''?'' \<notin> set (take i seg)) [1..<length seg - 1]"

lemma lang_plus_none: "lang (plus_of (none_of cs)) = {s. s \<noteq> [] \<and> set s \<inter> set cs = {}}"
proof -
  have "s \<in> lang (plus_of (none_of cs)) \<longleftrightarrow> s \<noteq> [] \<and> set s \<inter> set cs = {}" for s
    unfolding plus_of_def none_of_def lang_seq_class
    using lang_star_none [of cs] by (cases s) (auto simp: none_of_def)
  then show ?thesis by blast
qed

lemma plus_two: "x \<in> lang (plus_of (none_of [a, b])) \<longleftrightarrow> x \<noteq> [] \<and> a \<notin> set x \<and> b \<notin> set x"
  unfolding lang_plus_none by auto

lemma plus_one: "x \<in> lang (plus_of (none_of [a])) \<longleftrightarrow> x \<noteq> [] \<and> a \<notin> set x"
  unfolding lang_plus_none by auto

lemma file_lang_gen: "w \<in> lang (Seq (chr a) (Seq (plus_of (none_of [a, b])) (Seq (chr d) (plus_of (none_of [a]))))) \<longleftrightarrow>
    (\<exists>u v. w = a # u @ d # v \<and> u \<noteq> [] \<and> v \<noteq> [] \<and> a \<notin> set u \<and> b \<notin> set u \<and> a \<notin> set v)"
proof -
  let ?r = "Seq (chr d) (plus_of (none_of [a]))"
  have r: "x \<in> lang ?r \<longleftrightarrow> (\<exists>v. x = d # v \<and> v \<noteq> [] \<and> a \<notin> set v)" for x
    unfolding chr_def lang_seq_class plus_one by blast
  have "x \<in> lang (Seq (plus_of (none_of [a, b])) ?r) \<longleftrightarrow>
      (\<exists>u y. x = u @ y \<and> (u \<noteq> [] \<and> a \<notin> set u \<and> b \<notin> set u) \<and> (\<exists>v. y = d # v \<and> v \<noteq> [] \<and> a \<notin> set v))" for x
    unfolding lang.simps(4) [of "plus_of (none_of [a, b])"] mem_Collect_eq plus_two r by blast
  then show ?thesis
    unfolding chr_def lang_seq_class [of _ "\<lambda>x. x = a"] by blast
qed

lemma file_lang: "w \<in> lang file_re \<longleftrightarrow> (\<exists>u v. w = CHR ''/'' # u @ CHR ''.'' # v \<and>
    u \<noteq> [] \<and> v \<noteq> [] \<and> CHR ''/'' \<notin> set u \<and> CHR ''?'' \<notin> set u \<and> CHR ''/'' \<notin> set v)"
  unfolding file_re_def by (rule file_lang_gen)

lemma last_segment_snoc: "c \<notin> set seg \<Longrightarrow> takeWhile (\<lambda>x. x \<noteq> c) (rev (u @ c # seg)) = rev seg"
  by (induction seg) (auto simp: takeWhile_append)

lemma last_slash: "CHR ''/'' \<in> set s \<Longrightarrow> \<exists>u. s = u @ CHR ''/'' # last_segment s \<and> CHR ''/'' \<notin> set (last_segment s)"
proof -
  assume "CHR ''/'' \<in> set s"
  then obtain u seg where s: "s = u @ CHR ''/'' # seg" "CHR ''/'' \<notin> set seg" by (meson split_list_last)
  then have "last_segment s = seg" unfolding last_segment_def s(1) last_segment_snoc [OF s(2)] by simp
  then show ?thesis using s by (simp only:) blast
qed

lemma file_segment_iff: "file_segment seg \<longleftrightarrow> (\<exists>u v. seg = u @ CHR ''.'' # v \<and> u \<noteq> [] \<and> v \<noteq> [] \<and> CHR ''?'' \<notin> set u)"
proof
  assume "file_segment seg"
  then obtain i where i: "1 \<le> i" "i < length seg - 1" "seg ! i = CHR ''.''" "CHR ''?'' \<notin> set (take i seg)"
    by (auto simp: file_segment_def list_ex_iff)
  have "i < length seg" using i(2) by linarith
  then have "seg = take i seg @ CHR ''.'' # drop (Suc i) seg" using id_take_nth_drop [of i seg] i(3) by simp
  moreover have "take i seg \<noteq> []" "drop (Suc i) seg \<noteq> []" using i(1,2) by auto
  ultimately show "\<exists>u v. seg = u @ CHR ''.'' # v \<and> u \<noteq> [] \<and> v \<noteq> [] \<and> CHR ''?'' \<notin> set u" using i(4) by blast
next
  assume "\<exists>u v. seg = u @ CHR ''.'' # v \<and> u \<noteq> [] \<and> v \<noteq> [] \<and> CHR ''?'' \<notin> set u"
  then obtain u v where s: "seg = u @ CHR ''.'' # v" "u \<noteq> []" "v \<noteq> []" "CHR ''?'' \<notin> set u" by blast
  have "0 < length u" "0 < length v" using s(2,3) by simp_all
  moreover have "length seg = length u + length v + 1" using s(1) by simp
  ultimately have "length u \<in> set [1..<length seg - 1]" unfolding set_upt atLeastLessThan_iff by linarith
  moreover have "seg ! length u = CHR ''.''" "take (length u) seg = u" using s by simp_all
  ultimately show "file_segment seg" using s(4) unfolding file_segment_def list_ex_iff by metis
qed

lemma file_match: "matches_end file_re s \<longleftrightarrow> CHR ''/'' \<in> set s \<and> file_segment (last_segment s)"
proof
  assume "matches_end file_re s"
  then obtain w u v where s: "s = (w @ [CHR ''/'']) @ u @ CHR ''.'' # v"
    and p: "u \<noteq> []" "v \<noteq> []" "CHR ''/'' \<notin> set u" "CHR ''?'' \<notin> set u" "CHR ''/'' \<notin> set v"
    unfolding matches_end_lang file_lang by (metis append.assoc append_Cons append_Nil)
  have "CHR ''/'' \<notin> set (u @ CHR ''.'' # v)" using p by simp
  from last_segment_snoc [OF this, of w] have "last_segment s = u @ CHR ''.'' # v"
    unfolding last_segment_def s by simp
  with p have "file_segment (last_segment s)" unfolding file_segment_iff by blast
  moreover have "CHR ''/'' \<in> set s" unfolding s by simp
  ultimately show "CHR ''/'' \<in> set s \<and> file_segment (last_segment s)" by blast
next
  assume a: "CHR ''/'' \<in> set s \<and> file_segment (last_segment s)"
  then obtain w where s: "s = w @ CHR ''/'' # last_segment s" "CHR ''/'' \<notin> set (last_segment s)"
    using last_slash by blast
  from a obtain u v where g: "last_segment s = u @ CHR ''.'' # v" "u \<noteq> []" "v \<noteq> []" "CHR ''?'' \<notin> set u"
    unfolding file_segment_iff by blast
  with s(2) have "CHR ''/'' # last_segment s \<in> lang file_re" unfolding file_lang by auto
  with s(1) show "matches_end file_re s" unfolding matches_end_lang by blast
qed

lemma literal_start: "(\<exists>u v. s = u @ v \<and> u \<in> {w}) \<longleftrightarrow> take (length w) s = w"
  by auto (metis append_take_drop_id)

text \<open>
  A navigation is answered with the cached page unless its path starts with \<open>/_\<close> or its
  last segment looks like a file name, with a dot inside it and no question mark before that
  dot: the two expressions of the blacklist decide exactly that.
\<close>
theorem navigation_fallback:
  "navigation_page p = (if take 2 p = ''/_'' \<or> (CHR ''/'' \<in> set p \<and> file_segment (last_segment p))
     then None else Some ''/index.html'')"
proof -
  have "matches_start underscore_re p \<longleftrightarrow> take 2 p = ''/_''"
    unfolding matches_start_lang underscore_re_def lang_lit literal_start by (simp add: numeral_2_eq_2)
  then show ?thesis by (simp only: navigation_page_def blacklisted_def file_match)
qed

text \<open>The page's own addresses: the start page and its scope, and a case with a dot in its name.\<close>

theorem navigation_examples:
  "navigation_page ''/?scope=dev'' = Some ''/index.html''" "navigation_page ''/c/a.b'' = None"
  by code_simp+

end
