(* ===== verification/Runs.thy ===== *)
theory Runs
  imports Main
begin

text \<open>
  Runs of a state machine as lists of the events that happen, each enabled when it does, and
  the interface by which a component bounds what a run can contain: a meter of the state that
  rises by at most the gain of each event. A negative gain is work that is used up.
\<close>

inductive runs :: "('s \<Rightarrow> 'e \<Rightarrow> bool) \<Rightarrow> ('e \<Rightarrow> 's \<Rightarrow> 's) \<Rightarrow> 's \<Rightarrow> 'e list \<Rightarrow> 's \<Rightarrow> bool"
  for enabled :: "'s \<Rightarrow> 'e \<Rightarrow> bool" and step :: "'e \<Rightarrow> 's \<Rightarrow> 's" where
  run_none: "runs enabled step s [] s"
| run_more: "enabled s e \<Longrightarrow> runs enabled step (step e s) es s' \<Longrightarrow> runs enabled step s (e # es) s'"

inductive_simps runs_simps: "runs enabled step s [] s'" "runs enabled step s (e # es) s'"

locale metered_runs =
  fixes enabled :: "'s \<Rightarrow> 'e \<Rightarrow> bool" and step :: "'e \<Rightarrow> 's \<Rightarrow> 's"
    and inv :: "'s \<Rightarrow> bool" and meter :: "'s \<Rightarrow> int" and gain :: "'e \<Rightarrow> int"
  assumes inv_step: "inv s \<Longrightarrow> enabled s e \<Longrightarrow> inv (step e s)"
    and gain_step: "inv s \<Longrightarrow> enabled s e \<Longrightarrow> meter (step e s) \<le> meter s + gain e"
begin

lemma run_meter: "runs enabled step s es s' \<Longrightarrow> inv s \<Longrightarrow> inv s' \<and> meter s' \<le> meter s + (\<Sum>e\<leftarrow>es. gain e)"
proof (induction rule: runs.induct)
  case (run_more s e es s')
  have "inv (step e s)" "meter (step e s) \<le> meter s + gain e"
    using inv_step gain_step run_more.hyps(1) run_more.prems by simp_all
  with run_more.IH show ?case by simp
qed simp

end

lemma sum_of_bool: "(\<Sum>x\<leftarrow>xs. of_bool (P x)) = int (length (filter P xs))"
  by (induction xs) simp_all

lemma sum_minus_of_bool: "(\<Sum>x\<leftarrow>xs. - of_bool (P x)) = - int (length (filter P xs))"
  by (induction xs) simp_all

end
