(* ===== verification/SwRuns.thy ===== *)
theory SwRuns
  imports RegisterServiceWorker Runs
begin

text \<open>
  How long the promises of \<open>registerServiceWorker.js\<close> can go on: a run with its events, a
  measure that every completed promise decreases, and the number of reloads it allows. The
  events that complete nothing (an update is found, a worker changes its state or takes
  control) come from the browser as often as it likes and start nothing.
\<close>

section \<open>Runs with their events\<close>

abbreviation sw_run :: "page_env \<Rightarrow> sw_state \<Rightarrow> sw_event list \<Rightarrow> sw_state \<Rightarrow> bool" where
  "sw_run env \<equiv> runs sw_enabled (sw_handle env)"

text \<open>The load of the page and the answers of promises.\<close>

fun completes :: "sw_event \<Rightarrow> bool" where
  "completes UpdateFound \<longleftrightarrow> False"
| "completes (StateChanges _) \<longleftrightarrow> False"
| "completes TakesControl \<longleftrightarrow> False"
| "completes _ \<longleftrightarrow> True"

text \<open>How many completions a promise leads to at most, its own included.\<close>

fun task_work :: "task \<Rightarrow> nat" where
  "task_work (Fetching _) = 3"
| "task_work (Registering _) = 1"
| "task_work (AwaitReady _) = 2"
| "task_work (Unregistering _) = 1"

definition work :: "sw_state \<Rightarrow> nat" where
  "work s = (\<Sum>t\<leftarrow>tasks s. task_work t) + (if load_listener s then 4 else 0)"

text \<open>The reloads that can still come.\<close>

fun task_reloads :: "task \<Rightarrow> nat" where
  "task_reloads (Fetching _) = 1"
| "task_reloads (AwaitReady b) = of_bool b"
| "task_reloads (Unregistering b) = of_bool b"
| "task_reloads (Registering _) = 0"

definition reload_bound :: "sw_state \<Rightarrow> nat" where
  "reload_bound s = reloads s + (\<Sum>t\<leftarrow>tasks s. task_reloads t) + of_bool (load_listener s)"

lemma sum_remove1: "t \<in> set ts \<Longrightarrow> (\<Sum>x\<leftarrow>remove1 t ts. f x) + f t = ((\<Sum>x\<leftarrow>ts. f x) :: nat)"
  by (induction ts) auto

lemma work_finish: "t \<in> set (tasks s) \<Longrightarrow> work (finish t s) + task_work t = work s"
  using sum_remove1 [of t "tasks s" task_work] by (simp add: work_def finish_def)

lemma reload_finish: "t \<in> set (tasks s) \<Longrightarrow> reload_bound (finish t s) + task_reloads t = reload_bound s"
  using sum_remove1 [of t "tasks s" task_reloads] by (simp add: reload_bound_def finish_def)

lemma work_simps [simp]:
  "work (start_task t s) = work s + task_work t" "work (message m s) = work s"
  "work (s\<lparr>registered := b\<rparr>) = work s" "work (s\<lparr>update_handler := b\<rparr>) = work s" "work (s\<lparr>state_handler := b\<rparr>) = work s"
  "work (s\<lparr>controlled := b\<rparr>) = work s" "work (s\<lparr>reloads := n\<rparr>) = work s"
  by (simp_all add: work_def start_task_def message_def)

lemma reload_simps [simp]:
  "reload_bound (start_task t s) = reload_bound s + task_reloads t" "reload_bound (message m s) = reload_bound s"
  "reload_bound (s\<lparr>registered := b\<rparr>) = reload_bound s" "reload_bound (s\<lparr>update_handler := b\<rparr>) = reload_bound s"
  "reload_bound (s\<lparr>state_handler := b\<rparr>) = reload_bound s" "reload_bound (s\<lparr>controlled := b\<rparr>) = reload_bound s"
  by (simp_all add: reload_bound_def start_task_def message_def)

lemma listener_gone:
  "load_listener s \<Longrightarrow> work s = work (s\<lparr>load_listener := False\<rparr>) + 4"
  "load_listener s \<Longrightarrow> reload_bound s = reload_bound (s\<lparr>load_listener := False\<rparr>) + 1"
  by (simp_all add: work_def reload_bound_def)

text \<open>A completion takes one unit of work at least, another event none.\<close>

lemma step_work:
  assumes "sw_enabled s e"
  shows "work (sw_handle env e s) + of_bool (completes e) \<le> work s"
proof (cases e)
  case PageLoads
  with assms have "load_listener s" by (simp add: sw_enabled_def)
  from listener_gone(1) [OF this] PageLoads show ?thesis
    by (simp add: sw_handle_def on_load_def checkValidServiceWorker_def registerValidSW_def Let_def)
next
  case (FetchAnswers u r)
  with assms have "Fetching u \<in> set (tasks s)" by (simp add: sw_enabled_def)
  from work_finish [OF this] FetchAnswers show ?thesis
    by (simp add: sw_handle_def fetched_def registerValidSW_def split: option.split)
next
  case (FetchFails u)
  with assms have "Fetching u \<in> set (tasks s)" by (simp add: sw_enabled_def)
  from work_finish [OF this] FetchFails show ?thesis by (simp add: sw_handle_def)
next
  case (RegisterDone u)
  with assms have "Registering u \<in> set (tasks s)" by (simp add: sw_enabled_def)
  from work_finish [OF this] RegisterDone show ?thesis by (simp add: sw_handle_def)
next
  case (RegisterFails u)
  with assms have "Registering u \<in> set (tasks s)" by (simp add: sw_enabled_def)
  from work_finish [OF this] RegisterFails show ?thesis by (simp add: sw_handle_def)
next
  case (WorkerReady b)
  with assms have "AwaitReady b \<in> set (tasks s)" by (simp add: sw_enabled_def)
  from work_finish [OF this] WorkerReady show ?thesis by (simp add: sw_handle_def)
next
  case (UnregisterDone b)
  with assms have "Unregistering b \<in> set (tasks s)" by (simp add: sw_enabled_def)
  from work_finish [OF this] UnregisterDone show ?thesis by (simp add: sw_handle_def)
qed (simp_all add: sw_handle_def state_changed_def)

lemma step_reloads:
  assumes "sw_enabled s e"
  shows "reload_bound (sw_handle env e s) \<le> reload_bound s"
proof (cases e)
  case PageLoads
  with assms have "load_listener s" by (simp add: sw_enabled_def)
  from listener_gone(2) [OF this] PageLoads show ?thesis
    by (simp add: sw_handle_def on_load_def checkValidServiceWorker_def registerValidSW_def Let_def)
next
  case (FetchAnswers u r)
  with assms have "Fetching u \<in> set (tasks s)" by (simp add: sw_enabled_def)
  from reload_finish [OF this] FetchAnswers show ?thesis
    by (simp add: sw_handle_def fetched_def registerValidSW_def split: option.split)
next
  case (FetchFails u)
  with assms have "Fetching u \<in> set (tasks s)" by (simp add: sw_enabled_def)
  from reload_finish [OF this] FetchFails show ?thesis by (simp add: sw_handle_def)
next
  case (RegisterDone u)
  with assms have "Registering u \<in> set (tasks s)" by (simp add: sw_enabled_def)
  from reload_finish [OF this] RegisterDone show ?thesis by (simp add: sw_handle_def)
next
  case (RegisterFails u)
  with assms have "Registering u \<in> set (tasks s)" by (simp add: sw_enabled_def)
  from reload_finish [OF this] RegisterFails show ?thesis by (simp add: sw_handle_def)
next
  case (WorkerReady b)
  with assms have "AwaitReady b \<in> set (tasks s)" by (simp add: sw_enabled_def)
  from reload_finish [OF this] WorkerReady show ?thesis by (simp add: sw_handle_def)
next
  case (UnregisterDone b)
  with assms have "Unregistering b \<in> set (tasks s)" by (simp add: sw_enabled_def)
  from sum_remove1 [OF this, of task_reloads] UnregisterDone show ?thesis
    by (cases b) (simp_all add: sw_handle_def reload_bound_def finish_def)
qed (simp_all add: sw_handle_def state_changed_def)

interpretation sw_work: metered_runs sw_enabled "sw_handle env" "\<lambda>_. True" "\<lambda>s. int (work s)" "\<lambda>e. - of_bool (completes e)"
  for env
proof
  fix s e
  assume "sw_enabled s e"
  from step_work [OF this, of env] show "int (work (sw_handle env e s)) \<le> int (work s) + - of_bool (completes e)"
    by (cases "completes e") simp_all
qed simp

interpretation sw_reloads: metered_runs sw_enabled "sw_handle env" "\<lambda>_. True" "\<lambda>s. int (reload_bound s)" "\<lambda>_. 0"
  for env
  using step_reloads by unfold_locales simp_all

lemma register_bounds:
  assumes "sw_idle s0"
  shows "work (register env s0) \<le> 4" "reload_bound (register env s0) \<le> reloads s0 + 1"
  using assms by (auto simp: register_def work_def reload_bound_def sw_idle_def)

text \<open>
  C35. Registration comes to an end: after \<open>register\<close> at most four of the events that complete
  something can happen (the page loads, the check is answered, the old worker is ready and
  removed), in whatever order the browser mixes them with others, and at most one of them
  reloads the page. No two promises can chase each other.
\<close>
theorem registration_ends:
  assumes "sw_idle s0" and "sw_run env (register env s0) es s"
  shows "length (filter completes es) \<le> 4 \<and> reloads s \<le> reloads s0 + 1"
proof -
  have "reloads s \<le> reload_bound s" by (simp add: reload_bound_def)
  with sw_work.run_meter [OF assms(2)] sw_reloads.run_meter [OF assms(2)] register_bounds [OF assms(1), of env]
  show ?thesis unfolding sum_minus_of_bool by simp
qed

text \<open>The bound is reached: a page on a local host that finds no script there.\<close>

definition local_env :: page_env where
  "local_env = example_env\<lparr>hostname := ''localhost''\<rparr>"

definition missing_script :: "sw_event list" where
  "missing_script = [PageLoads, FetchAnswers ''/service-worker.js'' \<lparr>status = 404, content_type = None\<rparr>,
     WorkerReady True, UnregisterDone True]"

definition run_events :: "page_env \<Rightarrow> sw_event list \<Rightarrow> sw_state \<Rightarrow> sw_state" where
  "run_events env es s = fold (sw_handle env) es s"

lemma missing_script_run:
  "sw_run local_env (register local_env idle_page) missing_script
     (run_events local_env missing_script (register local_env idle_page))"
  unfolding missing_script_def run_events_def fold_simps
  by (intro runs.intros)
    (simp_all add: sw_enabled_def sw_handle_def register_def local_env_def example_env_def idle_page_def on_load_def
      isLocalhost_def checkValidServiceWorker_def start_task_def finish_def fetched_def Let_def)

theorem registration_ends_witness:
  "length (filter completes missing_script) = 4 \<and>
   reloads (run_events local_env missing_script (register local_env idle_page)) = reloads idle_page + 1"
proof -
  have "sw_idle idle_page" by (simp add: sw_idle_def idle_page_def)
  from registration_ends [OF this missing_script_run]
  have "reloads (run_events local_env missing_script (register local_env idle_page)) \<le> reloads idle_page + 1" by simp
  moreover have "reloads (run_events local_env missing_script (register local_env idle_page)) = 1"
    by code_simp
  ultimately show ?thesis by (simp add: missing_script_def idle_page_def)
qed

section \<open>Getting rid of a registration\<close>

text \<open>A page that unregisters, with the completions it still waits for.\<close>

definition departing :: "nat \<Rightarrow> sw_state \<Rightarrow> bool" where
  "departing n s \<longleftrightarrow> n \<le> 2 \<and> \<not> load_listener s \<and> (n = 2 \<longrightarrow> registered s) \<and> (n = 0 \<longrightarrow> \<not> registered s) \<and>
     tasks s = (if n = 0 then [] else if n = 1 then [Unregistering False] else [AwaitReady False])"

lemma departing_step:
  assumes "departing n s" and "sw_enabled s e"
  shows "of_bool (completes e) \<le> n \<and> departing (n - of_bool (completes e)) (sw_handle env e s)"
proof -
  have "n = 0 \<or> n = 1 \<or> n = 2" using assms(1) by (auto simp: departing_def)
  then show ?thesis using assms
    by (elim disjE; cases e)
      (auto simp: departing_def sw_enabled_def sw_handle_def start_task_def finish_def state_changed_def message_def)
qed

lemma departing_run: "sw_run env s es s' \<Longrightarrow> departing n s \<Longrightarrow>
    length (filter completes es) \<le> n \<and> departing (n - length (filter completes es)) s'"
proof (induction arbitrary: n rule: runs.induct)
  case (run_more s e es s')
  from departing_step [OF run_more.prems run_more.hyps(1), of env] run_more.IH [of "n - of_bool (completes e)"]
  show ?case by (cases "completes e") auto
qed simp

text \<open>As long as something is waited for, it can happen.\<close>

lemma departing_progress:
  assumes "departing n s" and "n \<noteq> 0"
  shows "\<exists>e. completes e \<and> sw_enabled s e"
proof (cases "n = 1")
  case True
  with assms(1) have "completes (UnregisterDone False) \<and> sw_enabled s (UnregisterDone False)" by (simp add: departing_def sw_enabled_def)
  then show ?thesis by blast
next
  case False
  with assms have "completes (WorkerReady False) \<and> sw_enabled s (WorkerReady False)" by (auto simp: departing_def sw_enabled_def)
  then show ?thesis by blast
qed

text \<open>
  C32. A page that unregisters gets rid of an existing registration, whatever the browser does
  besides: in every run at most two events complete something; after the second one there is
  no registration and nothing is under way, and before it another completion is possible.
\<close>
theorem unregister_removes:
  assumes "sw_idle s0" and "registered s0" and "has_serviceWorker env" and "sw_run env (unregister env s0) es s"
  shows "length (filter completes es) \<le> 2 \<and>
    (if length (filter completes es) = 2 then \<not> registered s \<and> tasks s = [] else \<exists>e. completes e \<and> sw_enabled s e)"
proof -
  have "departing 2 (unregister env s0)"
    using assms(1-3) by (simp add: departing_def unregister_def start_task_def sw_idle_def)
  from departing_run [OF assms(4) this] have n: "length (filter completes es) \<le> 2" "departing (2 - length (filter completes es)) s"
    by simp_all
  then show ?thesis using departing_progress [OF n(2)] by (auto simp: departing_def)
qed

definition leaving_events :: "sw_event list" where
  "leaving_events = [TakesControl, WorkerReady False, TakesControl, UnregisterDone False]"

lemma leaving_run:
  "sw_run example_env (unregister example_env idle_page) leaving_events
     (run_events example_env leaving_events (unregister example_env idle_page))"
  unfolding leaving_events_def run_events_def fold_simps
  by (intro runs.intros)
    (simp_all add: sw_enabled_def sw_handle_def unregister_def example_env_def idle_page_def start_task_def finish_def)

theorem unregister_removes_witness:
  "\<not> registered (run_events example_env leaving_events (unregister example_env idle_page)) \<and>
   tasks (run_events example_env leaving_events (unregister example_env idle_page)) = []"
proof -
  have "sw_idle idle_page" "registered idle_page" "has_serviceWorker example_env"
    by (simp_all add: sw_idle_def idle_page_def example_env_def)
  from unregister_removes [OF this leaving_run] show ?thesis by (simp add: leaving_events_def)
qed

end
