(* ===== verification/AppRuns.thy ===== *)
theory AppRuns
  imports AppErrors Runs
begin

text \<open>
  Runs of the application with the list of their events: which requests an event sends, how
  many a run can have sent, and how many answers can come.
\<close>

abbreviation app_run :: "env \<Rightarrow> app \<Rightarrow> event list \<Rightarrow> app \<Rightarrow> bool" where
  "app_run env \<equiv> runs enabled (next_app env)"

lemma run_reachable:
  "app_run env s es s' \<Longrightarrow> reachable env (\<lambda>_ _. True) s \<Longrightarrow> reachable env (\<lambda>_ _. True) s'"
  by (induction rule: runs.induct) (auto intro: reachable.step)

text \<open>The kind of request an event can send, at most one.\<close>

fun sends :: "event \<Rightarrow> request_kind option" where
  "sends (ClickCase _) = Some CaseText"
| "sends ClickSubmit = Some Run"
| "sends _ = None"

definition of_kind :: "request_kind \<Rightarrow> (request_kind \<times> ajax_request) list \<Rightarrow> nat" where
  "of_kind k rs = length (filter (\<lambda>r. fst r = k) rs)"

lemma of_kind_append [simp]: "of_kind k (xs @ ys) = of_kind k xs + of_kind k ys"
  by (simp add: of_kind_def)

lemma of_kind_one [simp]: "of_kind k [(k', r)] = of_bool (k' = k)"
  by (simp add: of_kind_def)

lemma of_kind_sum: "length rs = of_kind CaseList rs + of_kind CaseText rs + of_kind Run rs"
proof (induction rs)
  case (Cons r rs)
  then show ?case by (cases "fst r") (simp_all add: of_kind_def)
qed (simp add: of_kind_def)

lemma handle_sends: "of_kind k (sent (handle env e s)) \<le> of_kind k (sent s) + of_bool (sends e = Some k)"
proof (cases e)
  case (ClickCase c)
  then show ?thesis using getCase_cases [of env c s] by (auto simp: handle_def)
next
  case ClickSubmit
  then show ?thesis using submit_cases [of env s] by (auto simp: handle_def)
next
  case (Type t)
  then show ?thesis using editYaml_cases [of env t s] by (auto simp: handle_def)
next
  case (FormChange r)
  then show ?thesis using onChange_cases [of r s] by (auto simp: handle_def)
next
  case (CaseArrives i d)
  then show ?thesis using receiveCase_cases [of d "answer i s"] by (auto simp: handle_def)
qed (simp_all add: handle_def updateStringData_def)

lemma handle_init: "init (handle env e s) = init s"
  using handle_keeps [where e = e and s = s and env = env] by (auto simp: keeps_def split: option.splits)

lemma handle_answered:
  "length (answered (handle env e s)) = length (answered s) + of_bool (answers e \<noteq> None)"
  using handle_keeps [where e = e and s = s and env = env] by (auto simp: keeps_def split: option.splits)

lemma next_counts:
  assumes "init s"
  shows "of_kind k (sent (next_app env e s)) \<le> of_kind k (sent s) + of_bool (sends e = Some k)"
    "length (answered (next_app env e s)) = length (answered s) + of_bool (answers e \<noteq> None)"
  using handle_sends [of k env e s] handle_answered [of env e s] commit_frame [of "handle env e s" env] assms
  by (simp_all add: next_app_def handle_init)

lemma next_init: "init s \<Longrightarrow> init (next_app env e s)"
  using commit_frame(3) [of "handle env e s" env] by (simp add: next_app_def handle_init)

interpretation app_sent: metered_runs enabled "next_app env" init "\<lambda>s. int (of_kind k (sent s))" "\<lambda>e. of_bool (sends e = Some k)"
  for env k
proof
  fix s :: app and e :: event
  assume "init s"
  from next_counts(1) [OF this, of k env e]
  show "int (of_kind k (sent (next_app env e s))) \<le> int (of_kind k (sent s)) + of_bool (sends e = Some k)"
    by (cases "sends e = Some k") simp_all
qed (rule next_init)

interpretation app_answered: metered_runs enabled "next_app env" init "\<lambda>s. - int (length (answered s))" "\<lambda>e. - of_bool (answers e \<noteq> None)"
  for env
proof
  fix s :: app and e :: event
  assume "init s"
  from next_counts(2) [OF this, of env e]
  show "- int (length (answered (next_app env e s))) \<le> - int (length (answered s)) + - of_bool (answers e \<noteq> None)"
    by (cases "answers e") simp_all
qed (rule next_init)

lemma mount_counts: "answered (mount env st m b) = []" "of_kind k (sent (mount env st m b)) = of_bool (k = CaseList)"
  by (auto simp: mount_def effects_frame updateStringData_def render_def initial_app_def send_def of_kind_def
      Let_def split: sum.split)

lemma distinct_bounded: "distinct xs \<Longrightarrow> \<forall>i\<in>set xs. i < n \<Longrightarrow> length xs \<le> n"
proof -
  assume d: "distinct xs" and b: "\<forall>i\<in>set xs. i < n"
  then have "set xs \<subseteq> {..<n}" by blast
  then have "card (set xs) \<le> card {..<n}" by (intro card_mono) simp_all
  with d show "length xs \<le> n" by (simp add: distinct_card)
qed

text \<open>
  C36. The page never calls the server on its own but once: over any run, at most one request
  per click on Submit runs a case, at most one per click on the menu asks for a case, and
  together with the one for the menu these are all. So answers end as well: their events are
  at most one more than the clicks, and an answer never causes a request.
\<close>
theorem requests_bounded:
  assumes "app_run env (mount env st m b) es s"
  shows "of_kind Run (sent s) \<le> length (filter (\<lambda>e. e = ClickSubmit) es) \<and>
    of_kind CaseText (sent s) \<le> length (filter (\<lambda>e. sends e = Some CaseText) es) \<and>
    length (sent s) \<le> 1 + length (filter (\<lambda>e. sends e \<noteq> None) es) \<and>
    length (filter (\<lambda>e. answers e \<noteq> None) es) \<le> length (sent s)"
proof -
  have i: "init (mount env st m b)" using mount_inv [of env st m b] by (simp add: app_inv_def)
  have inv: "app_inv s" using reachable_inv [OF run_reachable [OF assms reachable.start]] .
  have cr: "of_kind Run (sent s) \<le> length (filter (\<lambda>e. sends e = Some Run) es)"
    and ct: "of_kind CaseText (sent s) \<le> length (filter (\<lambda>e. sends e = Some CaseText) es)"
    and cl: "length (filter (\<lambda>e. answers e \<noteq> None) es) \<le> length (answered s)"
    using app_sent.run_meter [OF assms i, of Run] app_sent.run_meter [OF assms i, of CaseText] app_answered.run_meter [OF assms i]
    by (simp_all add: mount_counts sum_of_bool sum_minus_of_bool)
  have one: "of_kind CaseList (sent s) = 1" using inv by (simp add: app_inv_def of_kind_def)
  have run: "sends e = Some Run \<longleftrightarrow> e = ClickSubmit" for e by (cases e) simp_all
  have "length (filter (\<lambda>e. sends e = Some Run) es) + length (filter (\<lambda>e. sends e = Some CaseText) es)
      \<le> length (filter (\<lambda>e. sends e \<noteq> None) es)"
    by (induction es) auto
  with cr ct one of_kind_sum [of "sent s"] have all: "length (sent s) \<le> 1 + length (filter (\<lambda>e. sends e \<noteq> None) es)"
    by linarith
  have "length (answered s) \<le> length (sent s)"
    using inv by (intro distinct_bounded) (auto simp: app_inv_def)
  with cr ct cl all show ?thesis by (simp add: run)
qed

definition demo_run :: "event list" where
  "demo_run = [ClickSubmit, ResultArrives 1 (Success ''ok'')]"

lemma demo_run_happens:
  "app_run demo_env (mount demo_env Undef Map.empty page) demo_run (next_app demo_env (ResultArrives 1 (Success ''ok'')) demo_sent)"
  unfolding demo_run_def demo_start_def [symmetric]
  using demo_start_state(2) demo_sent_state(2) unfolding demo_sent_def
  by (intro runs.intros) (simp_all add: enabled_def)

theorem requests_bounded_witness:
  "length (sent (next_app demo_env (ResultArrives 1 (Success ''ok'')) demo_sent)) \<le> 2 \<and>
   of_kind CaseText (sent (next_app demo_env (ResultArrives 1 (Success ''ok'')) demo_sent)) = 0"
  using requests_bounded [OF demo_run_happens] by (simp add: demo_run_def)

end
