(* ===== verification/MyArrayLayoutTsx.thy ===== *)
theory MyArrayLayoutTsx
  imports JsValue
begin

text \<open>
  \<open>powerful-front/src/MyArrayLayout.tsx\<close>, the renderer of the form's lists: the properties it
  passes on to the layout of the library, the callback it keeps between renderings, and its
  entry among the renderers \<open>App.tsx\<close> gives to the form. The hook \<open>useCallback\<close> of React, the
  testers of the form library and its choice of a renderer are arguments. A function value
  carries a number for its identity, which is what the hook compares.
\<close>

section \<open>Properties\<close>

text \<open>\<open>ArrayLayoutProps\<close> as the renderer takes them apart; \<open>'e\<close> is what a call of \<open>addItem\<close> does.\<close>

type_synonym 'e add_item = "nat \<times> (string \<Rightarrow> jsv \<Rightarrow> 'e)"

record 'e ArrayLayoutProps =
  layout_visible :: bool
  layout_enabled :: bool
  layout_id :: string
  layout_uischema :: jsv
  layout_schema :: jsv
  layout_label :: string
  layout_rootSchema :: jsv
  layout_renderers :: "jsv list"
  layout_data :: nat
  layout_path :: string
  layout_errors :: string
  layout_addItem :: "'e add_item"

text \<open>Every element of a list is shown unfolded.\<close>

definition isExpanded :: "nat \<Rightarrow> bool" where
  "isExpanded index = True"

section \<open>The renderer\<close>

text \<open>
  \<open>useCallback\<close>: a function of the closure passed, the identity of its only dependency, and
  the dependency and the callback of the rendering before, if there was one. What React
  documents: it returns the callback passed, or the one it returned in the rendering before,
  the latter only when the dependency is the same object; it keeps the old one as long as
  the dependency does not change, unless React throws its cache away.
\<close>

type_synonym 'e memo = "(nat \<times> 'e add_item) option"

type_synonym 'e hook = "'e add_item \<Rightarrow> nat \<Rightarrow> 'e memo \<Rightarrow> 'e add_item"

definition hook_law :: "'e hook \<Rightarrow> bool" where
  "hook_law useCallback \<longleftrightarrow> (\<forall>f dep m. useCallback f dep m = f \<or> m = Some (dep, useCallback f dep m))"

definition hook_keeps :: "'e hook \<Rightarrow> bool" where
  "hook_keeps useCallback \<longleftrightarrow> (\<forall>f dep g. useCallback f dep (Some (dep, g)) = g)"

record 'e rendered =
  xsUp :: bool
  layout :: "'e ArrayLayoutProps"

definition MyMaterialArrayLayoutRenderer :: "'e hook \<Rightarrow> nat \<Rightarrow> 'e ArrayLayoutProps \<Rightarrow> 'e memo \<Rightarrow> 'e rendered \<times> 'e memo" where
  "MyMaterialArrayLayoutRenderer useCallback fresh props m =
     (let addItem = layout_addItem props;
          addItemCb = useCallback (fresh, \<lambda>p value. snd addItem p value) (fst addItem) m
      in (\<lparr>xsUp = \<not> layout_visible props,
           layout = \<lparr>layout_visible = layout_visible props, layout_enabled = layout_enabled props, layout_id = layout_id props,
             layout_uischema = layout_uischema props, layout_schema = layout_schema props, layout_label = layout_label props,
             layout_rootSchema = layout_rootSchema props, layout_renderers = layout_renderers props,
             layout_data = layout_data props, layout_path = layout_path props, layout_errors = layout_errors props,
             layout_addItem = addItemCb\<rparr>\<rparr>,
          Some (fst addItem, addItemCb)))"

text \<open>The renderings of one mounted component, each with the number of its closure.\<close>

fun renderings :: "'e hook \<Rightarrow> (nat \<times> 'e ArrayLayoutProps) list \<Rightarrow> 'e memo \<Rightarrow> 'e rendered list" where
  "renderings useCallback [] m = []"
| "renderings useCallback ((fresh, props) # ps) m =
     (let (r, m') = MyMaterialArrayLayoutRenderer useCallback fresh props m in r # renderings useCallback ps m')"

section \<open>What the layout is given\<close>

text \<open>One number stands for one function.\<close>

definition same_functions :: "'e ArrayLayoutProps list \<Rightarrow> bool" where
  "same_functions ps \<longleftrightarrow>
     (\<forall>p\<in>set ps. \<forall>q\<in>set ps. fst (layout_addItem p) = fst (layout_addItem q) \<longrightarrow> layout_addItem p = layout_addItem q)"

definition memo_fits :: "'e ArrayLayoutProps list \<Rightarrow> 'e memo \<Rightarrow> bool" where
  "memo_fits ps m \<longleftrightarrow> (case m of None \<Rightarrow> True
     | Some (d, g) \<Rightarrow> \<forall>p\<in>set ps. fst (layout_addItem p) = d \<longrightarrow> snd g = snd (layout_addItem p))"

lemma callback_of_latest:
  assumes "hook_law useCallback" and "memo_fits (p # ps) m"
  shows "snd (useCallback (n, \<lambda>x v. snd (layout_addItem p) x v) (fst (layout_addItem p)) m) = snd (layout_addItem p)"
proof -
  let ?f = "(n, \<lambda>x v. snd (layout_addItem p) x v)" and ?d = "fst (layout_addItem p)"
  have old: "snd g = snd (layout_addItem p)" if "m = Some (?d, g)" for g
    using assms(2) unfolding memo_fits_def that option.case prod.case by (metis list.set_intros(1))
  have "useCallback ?f ?d m = ?f \<or> m = Some (?d, useCallback ?f ?d m)"
    using assms(1) unfolding hook_law_def by blast
  then show ?thesis
  proof
    assume "useCallback ?f ?d m = ?f"
    then show ?thesis by (simp only: snd_conv)
  next
    assume "m = Some (?d, useCallback ?f ?d m)"
    then show ?thesis by (rule old)
  qed
qed

lemma renderer_layout:
  assumes "hook_law useCallback" and "memo_fits (p # ps) m" and "MyMaterialArrayLayoutRenderer useCallback fresh p m = (r, m')"
  shows "xsUp r = (\<not> layout_visible p) \<and> snd (layout_addItem (layout r)) = snd (layout_addItem p) \<and>
     (layout r)\<lparr>layout_addItem := layout_addItem p\<rparr> = p"
  using assms(3) callback_of_latest [OF assms(1,2), of fresh] by (auto simp: MyMaterialArrayLayoutRenderer_def Let_def)

lemma renderer_memo:
  assumes "hook_law useCallback" and "same_functions (p # ps)" and "memo_fits (p # ps) m"
    and "MyMaterialArrayLayoutRenderer useCallback fresh p m = (r, m')"
  shows "memo_fits ps m'"
proof -
  have m': "m' = Some (fst (layout_addItem p), layout_addItem (layout r))" and "snd (layout_addItem (layout r)) = snd (layout_addItem p)"
    using assms(4) renderer_layout [OF assms(1,3,4)] by (auto simp: MyMaterialArrayLayoutRenderer_def Let_def)
  then show ?thesis
    using assms(2) unfolding m' memo_fits_def same_functions_def option.case prod.case by (metis list.set_intros)
qed

text \<open>A hook that keeps the callback returns the same object while \<open>addItem\<close> is the same.\<close>

lemma renderer_kept:
  assumes "hook_keeps useCallback" and "MyMaterialArrayLayoutRenderer useCallback fresh p m = (r, m')"
    and "MyMaterialArrayLayoutRenderer useCallback fresh' q m' = (r', m'')" and "fst (layout_addItem q) = fst (layout_addItem p)"
  shows "layout_addItem (layout r') = layout_addItem (layout r)"
proof -
  have k: "useCallback f d (Some (d, g)) = g" for f d g using assms(1) unfolding hook_keeps_def by blast
  show ?thesis using assms(2-) by (clarsimp simp: MyMaterialArrayLayoutRenderer_def Let_def k)
qed

lemma renderings_all2:
  "hook_law useCallback \<Longrightarrow> same_functions (map snd ps) \<Longrightarrow> memo_fits (map snd ps) m \<Longrightarrow>
   list_all2 (\<lambda>(n, p) r. xsUp r = (\<not> layout_visible p) \<and> snd (layout_addItem (layout r)) = snd (layout_addItem p) \<and>
     (layout r)\<lparr>layout_addItem := layout_addItem p\<rparr> = p) ps (renderings useCallback ps m)"
proof (induction useCallback ps m rule: renderings.induct)
  case (2 useCallback fresh p ps m)
  obtain r m' where r: "MyMaterialArrayLayoutRenderer useCallback fresh p m = (r, m')" by fastforce
  have "same_functions (map snd ps)" using "2.prems"(2) by (auto simp: same_functions_def)
  with "2.IH" [OF r [symmetric] refl] renderer_memo [OF _ _ _ r] renderer_layout [OF _ _ r] "2.prems" r show ?case
    by simp
qed simp

lemma renderings_kept:
  assumes "hook_keeps useCallback"
  shows "Suc k < length ps \<Longrightarrow> fst (layout_addItem (snd (ps ! Suc k))) = fst (layout_addItem (snd (ps ! k))) \<Longrightarrow>
    layout_addItem (layout (renderings useCallback ps m ! Suc k)) = layout_addItem (layout (renderings useCallback ps m ! k))"
proof (induction k arbitrary: ps m)
  case 0
  then obtain n p n' q ps' where ps: "ps = (n, p) # (n', q) # ps'"
    by (cases ps; cases "tl ps") auto
  obtain r m1 where r: "MyMaterialArrayLayoutRenderer useCallback n p m = (r, m1)" by fastforce
  obtain r' m2 where r': "MyMaterialArrayLayoutRenderer useCallback n' q m1 = (r', m2)" by fastforce
  from renderer_kept [OF assms r r'] 0 show ?case by (simp add: ps r r')
next
  case (Suc k)
  then obtain n p ps' where ps: "ps = (n, p) # ps'" by (cases ps) auto
  obtain r m1 where r: "MyMaterialArrayLayoutRenderer useCallback n p m = (r, m1)" by fastforce
  from Suc show ?case by (simp add: ps r)
qed

text \<open>
  C38. However often a list is rendered, and whatever \<open>useCallback\<close> does within what React
  documents: the layout gets exactly the properties of the latest rendering, is hidden exactly
  when they say so, and its \<open>addItem\<close> does what the latest \<open>addItem\<close> does, never what an older
  one did. With a hook that keeps its callbacks, two renderings in a row with the same
  \<open>addItem\<close> give the layout the very same function.
\<close>
theorem layout_follows_props:
  assumes "hook_law useCallback" and "same_functions (map snd ps)"
  shows "list_all2 (\<lambda>(n, p) r. xsUp r = (\<not> layout_visible p) \<and> snd (layout_addItem (layout r)) = snd (layout_addItem p) \<and>
      (layout r)\<lparr>layout_addItem := layout_addItem p\<rparr> = p) ps (renderings useCallback ps None) \<and>
    (hook_keeps useCallback \<longrightarrow> (\<forall>k. Suc k < length ps \<longrightarrow>
      fst (layout_addItem (snd (ps ! Suc k))) = fst (layout_addItem (snd (ps ! k))) \<longrightarrow>
      layout_addItem (layout (renderings useCallback ps None ! Suc k)) = layout_addItem (layout (renderings useCallback ps None ! k))))"
  using renderings_all2 [OF assms, of None] renderings_kept by (auto simp: memo_fits_def)

text \<open>
  A hook as React documents it, and two functions, the first used again at the end: the last
  rendering must not call the second one.
\<close>

definition demo_hook :: "'e hook" where
  "demo_hook f dep m = (case m of Some (d, g) \<Rightarrow> if d = dep then g else f | None \<Rightarrow> f)"

lemma demo_hook_law: "hook_law demo_hook"
  by (auto simp: hook_law_def demo_hook_def split: option.splits)

lemma demo_hook_keeps: "hook_keeps demo_hook"
  by (simp add: hook_keeps_def demo_hook_def)

definition demo_props :: "nat \<Rightarrow> (string \<times> jsv) ArrayLayoutProps" where
  "demo_props n = \<lparr>layout_visible = True, layout_enabled = True, layout_id = ''trace'', layout_uischema = Null, layout_schema = Null,
     layout_label = ''trace'', layout_rootSchema = Null, layout_renderers = [], layout_data = n, layout_path = ''trace'',
     layout_errors = [], layout_addItem = (n, \<lambda>p v. (if n = 0 then p else ''other'', v))\<rparr>"

definition demo_renderings :: "(nat \<times> (string \<times> jsv) ArrayLayoutProps) list" where
  "demo_renderings = [(10, demo_props 0), (11, demo_props 0), (12, demo_props 1), (13, demo_props 0)]"

theorem layout_follows_props_witness:
  "map (\<lambda>r. snd (layout_addItem (layout r)) ''trace'' Null) (renderings demo_hook demo_renderings None) =
     [(''trace'', Null), (''trace'', Null), (''other'', Null), (''trace'', Null)] \<and>
   layout_addItem (layout (renderings demo_hook demo_renderings None ! 1)) =
     layout_addItem (layout (renderings demo_hook demo_renderings None ! 0))"
proof -
  have s: "same_functions (map snd demo_renderings)"
    by (auto simp: same_functions_def demo_renderings_def demo_props_def)
  note both = layout_follows_props [OF demo_hook_law s]
  have "layout_addItem (layout (renderings demo_hook demo_renderings None ! 1)) =
     layout_addItem (layout (renderings demo_hook demo_renderings None ! 0))"
    using conjunct2 [OF both] demo_hook_keeps unfolding One_nat_def
    by (elim impE allE [of _ 0]) (simp_all add: demo_renderings_def demo_props_def del: renderings.simps)
  moreover from conjunct1 [OF both] have "map (\<lambda>r. snd (layout_addItem (layout r)) ''trace'' Null) (renderings demo_hook demo_renderings None) =
     [(''trace'', Null), (''trace'', Null), (''other'', Null), (''trace'', Null)]"
    by (auto simp: demo_renderings_def demo_props_def list_all2_Cons1)
  ultimately show ?thesis by blast
qed

section \<open>The entry among the renderers\<close>

text \<open>A renderer of the form: its tester on UI schema and schema, and the component.\<close>

record 'c renderer =
  tester :: "jsv \<Rightarrow> jsv \<Rightarrow> int"
  component :: 'c

definition MyArrayLayout ::
  "(int \<Rightarrow> (jsv \<Rightarrow> jsv \<Rightarrow> bool) \<Rightarrow> jsv \<Rightarrow> jsv \<Rightarrow> int) \<Rightarrow> (jsv \<Rightarrow> jsv \<Rightarrow> bool) \<Rightarrow> ('p \<Rightarrow> 'c) \<Rightarrow> 'p \<Rightarrow> 'c renderer" where
  "MyArrayLayout rankWith isObjectArrayWithNesting withJsonFormsArrayLayoutProps layoutRenderer =
     \<lparr>tester = rankWith 5 isObjectArrayWithNesting, component = withJsonFormsArrayLayoutProps layoutRenderer\<rparr>"

text \<open>\<open>[...materialRenderers, MyArrayLayout]\<close>\<close>

definition form_renderers :: "'c renderer list \<Rightarrow> 'c renderer \<Rightarrow> 'c renderer list" where
  "form_renderers materialRenderers myArrayLayout = materialRenderers @ [myArrayLayout]"

text \<open>
  What the form library documents: \<open>rankWith\<close> gives the rank where the tester holds and -1
  where it does not, and the renderer of the highest rank is taken.
\<close>

definition ranks :: "(int \<Rightarrow> (jsv \<Rightarrow> jsv \<Rightarrow> bool) \<Rightarrow> jsv \<Rightarrow> jsv \<Rightarrow> int) \<Rightarrow> bool" where
  "ranks rankWith \<longleftrightarrow> (\<forall>n t ui sch. rankWith n t ui sch = (if t ui sch then n else -1))"

definition takes_highest :: "('c renderer list \<Rightarrow> jsv \<Rightarrow> jsv \<Rightarrow> 'c renderer) \<Rightarrow> bool" where
  "takes_highest pick \<longleftrightarrow> (\<forall>rs ui sch. rs \<noteq> [] \<longrightarrow>
     pick rs ui sch \<in> set rs \<and> (\<forall>r\<in>set rs. tester r ui sch \<le> tester (pick rs ui sch) ui sch))"

text \<open>
  The renderer takes over the nested lists and nothing else: where the library's own
  renderers rank below 5 on nested lists, the form shows such a list with this layout, and an
  element one of them can show at all is left to them.
\<close>
theorem nested_lists_use_layout:
  fixes my :: "'c renderer"
  assumes "ranks rankWith" and "takes_highest pick"
    and "my = MyArrayLayout rankWith isObjectArrayWithNesting withProps layoutRenderer"
    and "isObjectArrayWithNesting ui sch \<longrightarrow> (\<forall>r\<in>set materialRenderers. tester r ui sch < 5)"
    and "\<not> isObjectArrayWithNesting ui sch \<longrightarrow> (\<exists>r\<in>set materialRenderers. 0 \<le> tester r ui sch)"
  shows "if isObjectArrayWithNesting ui sch then pick (form_renderers materialRenderers my) ui sch = my
    else pick (form_renderers materialRenderers my) ui sch \<in> set materialRenderers"
proof -
  let ?rs = "form_renderers materialRenderers my"
  have rank: "tester my ui sch = (if isObjectArrayWithNesting ui sch then 5 else -1)"
    using assms(1) by (simp add: assms(3) MyArrayLayout_def ranks_def)
  have ne: "?rs \<noteq> []" and elems: "set ?rs = insert my (set materialRenderers)" by (simp_all add: form_renderers_def)
  have c: "pick ?rs ui sch \<in> set materialRenderers \<or> pick ?rs ui sch = my"
    using assms(2) ne elems unfolding takes_highest_def by blast
  have m: "tester r ui sch \<le> tester (pick ?rs ui sch) ui sch" if "r \<in> insert my (set materialRenderers)" for r
    using assms(2) ne elems that unfolding takes_highest_def by blast
  show ?thesis
  proof (cases "isObjectArrayWithNesting ui sch")
    case True
    have "5 \<le> tester (pick ?rs ui sch) ui sch" using m [of my] rank True by simp
    with True assms(4) have "pick ?rs ui sch \<notin> set materialRenderers" by force
    with True c show ?thesis by simp
  next
    case False
    with assms(5) obtain r where r: "r \<in> set materialRenderers" "0 \<le> tester r ui sch" by blast
    then have "0 \<le> tester (pick ?rs ui sch) ui sch" using m [of r] by simp
    with rank False have "pick ?rs ui sch \<noteq> my" by force
    with False c show ?thesis by simp
  qed
qed

fun highest :: "'c renderer \<Rightarrow> 'c renderer list \<Rightarrow> jsv \<Rightarrow> jsv \<Rightarrow> 'c renderer" where
  "highest r [] ui sch = r"
| "highest r (r' # rs) ui sch = highest (if tester r ui sch < tester r' ui sch then r' else r) rs ui sch"

definition pick_highest :: "'c renderer list \<Rightarrow> jsv \<Rightarrow> jsv \<Rightarrow> 'c renderer" where
  "pick_highest rs ui sch = highest (hd rs) (tl rs) ui sch"

lemma highest_max:
  "highest r rs ui sch \<in> insert r (set rs) \<and> (\<forall>r'\<in>insert r (set rs). tester r' ui sch \<le> tester (highest r rs ui sch) ui sch)"
proof (induction rs arbitrary: r)
  case (Cons r' rs)
  from Cons.IH [of "if tester r ui sch < tester r' ui sch then r' else r"] show ?case
    by (auto split: if_splits)
qed simp

lemma pick_highest_law: "takes_highest pick_highest"
  unfolding takes_highest_def pick_highest_def using highest_max by (metis list.collapse list.set(2))

definition demo_rankWith :: "int \<Rightarrow> (jsv \<Rightarrow> jsv \<Rightarrow> bool) \<Rightarrow> jsv \<Rightarrow> jsv \<Rightarrow> int" where
  "demo_rankWith n t ui sch = (if t ui sch then n else -1)"

theorem nested_lists_use_layout_witness:
  "component (pick_highest (form_renderers [\<lparr>tester = \<lambda>ui sch. 2, component = ''material''\<rparr>]
     (MyArrayLayout demo_rankWith (\<lambda>ui sch. sch = Arr []) id ''mine'')) Null (Arr [])) = ''mine''"
  using nested_lists_use_layout [of demo_rankWith pick_highest _ "\<lambda>ui sch. sch = Arr []" id "''mine''" Null "Arr []"
      "[\<lparr>tester = \<lambda>ui sch. 2, component = ''material''\<rparr>]", OF _ pick_highest_law refl]
  by (simp add: ranks_def demo_rankWith_def MyArrayLayout_def)

end
