(* ===== verification/JavaBase.thy ===== *)
theory JavaBase
  imports JsNumber UriTs
begin

text \<open>
  What the classes of the server (\<open>powerful-core/src/main/java\<close>) share: the exceptions they
  throw, statements that may throw and keep the state as far as they had come, the objects
  that travel through their interfaces with \<open>toString\<close>, and the string methods they call.
\<close>

section \<open>Exceptions\<close>

text \<open>
  The exceptions the program throws carry their message; those of the Java library carry what
  they complain about, and their text is an argument where the program reads it.
  \<open>TaskFailed\<close> is what waiting for a task of a thread pool throws, wrapped once more.
\<close>

datatype java_error =
    IllegalArgument string
  | IllegalState string
  | RuntimeException string
  | StatusCode int
  | NumberFormat string
  | IndexOutOfBounds
  | NullPointer
  | DivisionByZero
  | LibraryFailure string
  | Wrapped string java_error
  | TaskFailed java_error

section \<open>Statements\<close>

text \<open>A statement takes a state to a value or an exception, and to a state in both cases.\<close>

type_synonym ('s, 'a) stm = "'s \<Rightarrow> (java_error + 'a) \<times> 's"

definition jret :: "'a \<Rightarrow> ('s, 'a) stm" where
  "jret x s = (Inr x, s)"

definition jthrow :: "java_error \<Rightarrow> ('s, 'a) stm" where
  "jthrow e s = (Inl e, s)"

definition jbind :: "('s, 'a) stm \<Rightarrow> ('a \<Rightarrow> ('s, 'b) stm) \<Rightarrow> ('s, 'b) stm" where
  "jbind m f s = (case m s of (Inl e, s') \<Rightarrow> (Inl e, s') | (Inr x, s') \<Rightarrow> f x s')"

definition jlift :: "java_error + 'a \<Rightarrow> ('s, 'a) stm" where
  "jlift r s = (r, s)"

text \<open>\<open>try m catch h\<close> and \<open>try m finally f\<close>\<close>

definition jcatch :: "('s, 'a) stm \<Rightarrow> (java_error \<Rightarrow> ('s, 'a) stm) \<Rightarrow> ('s, 'a) stm" where
  "jcatch m h s = (case m s of (Inl e, s') \<Rightarrow> h e s' | (Inr x, s') \<Rightarrow> (Inr x, s'))"

definition jfinally :: "('s, 'a) stm \<Rightarrow> ('s, unit) stm \<Rightarrow> ('s, 'a) stm" where
  "jfinally m f s = (case m s of (r, s') \<Rightarrow> (case f s' of (Inl e, t) \<Rightarrow> (Inl e, t) | (Inr _, t) \<Rightarrow> (r, t)))"

named_theorems jsimps \<open>equations of statements, for states that are known\<close>

lemma jret_simp [simp, jsimps]: "jret x s = (Inr x, s)"
  by (simp add: jret_def)

lemma jthrow_simp [simp, jsimps]: "jthrow e s = (Inl e, s)"
  by (simp add: jthrow_def)

lemma jlift_simp [simp, jsimps]: "jlift r s = (r, s)"
  by (simp add: jlift_def)

lemma jbind_Inr: "m s = (Inr x, s') \<Longrightarrow> jbind m f s = f x s'"
  by (simp add: jbind_def)

lemma bind_step: "m s = (Inr x, u) \<Longrightarrow> f x u = r \<Longrightarrow> jbind m f s = r"
  by (simp add: jbind_def)

lemma jbind_Inl: "m s = (Inl e, s') \<Longrightarrow> jbind m f s = (Inl e, s')"
  by (simp add: jbind_def)

lemma jbind_jret [simp, jsimps]: "jbind (jret x) f s = f x s"
  by (simp add: jbind_def)

lemma jbind_jthrow [simp, jsimps]: "jbind (jthrow e) f s = (Inl e, s)"
  by (simp add: jbind_def)

lemma jbind_jlift [simp, jsimps]: "jbind (jlift r) f s = (case r of Inl e \<Rightarrow> (Inl e, s) | Inr x \<Rightarrow> f x s)"
  by (simp add: jbind_def)

lemma jbind_cong [fundef_cong]:
  assumes "m s = m' s'" and "\<And>x t. m' s' = (Inr x, t) \<Longrightarrow> f x t = f' x t"
  shows "jbind m f s = jbind m' f' s'"
  using assms by (simp add: jbind_def split: prod.split sum.split)

lemma jbind_Inr_iff: "jbind m f s = (Inr y, t) \<longleftrightarrow> (\<exists>x u. m s = (Inr x, u) \<and> f x u = (Inr y, t))"
  by (auto simp: jbind_def split: prod.split sum.split)

lemma jbind_Inl_iff:
  "jbind m f s = (Inl e, t) \<longleftrightarrow> m s = (Inl e, t) \<or> (\<exists>x u. m s = (Inr x, u) \<and> f x u = (Inl e, t))"
  by (auto simp: jbind_def split: prod.split sum.split)

section \<open>What statements leave alone\<close>

text \<open>
  A relation between the states before and after that every statement of a group respects,
  whether it throws or not: the interface by which a component states what it does not touch.
\<close>

definition frames :: "('s \<Rightarrow> 's \<Rightarrow> bool) \<Rightarrow> ('s, 'a) stm \<Rightarrow> bool" where
  "frames R m \<longleftrightarrow> (\<forall>s. R s (snd (m s)))"

lemma framesD: "frames R m \<Longrightarrow> m s = (r, s') \<Longrightarrow> R s s'"
  unfolding frames_def by (metis snd_conv)

locale statement_frame =
  fixes R :: "'s \<Rightarrow> 's \<Rightarrow> bool"
  assumes frame_refl: "R s s"
    and frame_trans: "R s t \<Longrightarrow> R t u \<Longrightarrow> R s u"
begin

lemma framesI: "(\<And>s r s'. m s = (r, s') \<Longrightarrow> R s s') \<Longrightarrow> frames R m"
  unfolding frames_def by (metis prod.collapse)

lemma frames_unchanged: "frames R (jret x)" "frames R (jthrow e)" "frames R (jlift r)" "frames R (\<lambda>s. (g s, s))"
  by (simp_all add: frames_def jret_def jthrow_def jlift_def frame_refl)

lemma frames_bind:
  assumes "frames R m" and "\<And>x. frames R (f x)"
  shows "frames R (jbind m f)"
proof (rule framesI)
  fix s r s'
  assume b: "jbind m f s = (r, s')"
  obtain q u where u: "m s = (q, u)" by fastforce
  show "R s s'"
  proof (cases q)
    case (Inl e)
    with b u show ?thesis using framesD [OF assms(1) u] by (simp add: jbind_def)
  next
    case (Inr x)
    with b u have "f x u = (r, s')" by (simp add: jbind_def)
    from frame_trans [OF framesD [OF assms(1) u] framesD [OF assms(2) this]] show ?thesis .
  qed
qed

lemma frames_catch:
  assumes "frames R m" and "\<And>e. frames R (h e)"
  shows "frames R (jcatch m h)"
proof (rule framesI)
  fix s r s'
  assume b: "jcatch m h s = (r, s')"
  obtain q u where u: "m s = (q, u)" by fastforce
  show "R s s'"
  proof (cases q)
    case (Inl e)
    with b u have "h e u = (r, s')" by (simp add: jcatch_def)
    from frame_trans [OF framesD [OF assms(1) u] framesD [OF assms(2) this]] show ?thesis .
  next
    case (Inr x)
    with b u show ?thesis using framesD [OF assms(1) u] by (simp add: jcatch_def)
  qed
qed

lemma frames_finally:
  assumes "frames R m" and "frames R f"
  shows "frames R (jfinally m f)"
proof (rule framesI)
  fix s r s'
  assume b: "jfinally m f s = (r, s')"
  obtain q u where u: "m s = (q, u)" by fastforce
  obtain q' where "f u = (q', s')" using b u by (auto simp: jfinally_def split: prod.splits sum.splits)
  from frame_trans [OF framesD [OF assms(1) u] framesD [OF assms(2) this]] show "R s s'" .
qed

lemma frames_if: "frames R m \<Longrightarrow> frames R m' \<Longrightarrow> frames R (if b then m else m')"
  by simp

end

section \<open>Objects\<close>

text \<open>
  \<open>null\<close>, texts, numbers (by the text \<open>toString\<close> gives), booleans, lists and maps with their
  entries in the order of iteration, as Jackson makes them from JSON and YAML.
\<close>

datatype jobj =
    JNull
  | JStr string
  | JNum string
  | JBool bool
  | JList "jobj list"
  | JMap "(string \<times> jobj) list"

text \<open>\<open>String.valueOf\<close>, which string concatenation uses.\<close>

fun to_string :: "jobj \<Rightarrow> string" where
  "to_string JNull = ''null''"
| "to_string (JStr s) = s"
| "to_string (JNum t) = t"
| "to_string (JBool b) = (if b then ''true'' else ''false'')"
| "to_string (JList xs) = ''['' @ join_with '', '' (map to_string xs) @ '']''"
| "to_string (JMap ps) = ''{'' @ join_with '', '' (map (\<lambda>(k, v). k @ ''='' @ to_string v) ps) @ ''}''"

definition int_str :: "int \<Rightarrow> string" where
  "int_str i = (if i < 0 then ''-'' @ nat_str (nat (- i)) else nat_str (nat i))"

section \<open>Strings and integers\<close>

text \<open>\<open>s.split(",")\<close>: the pieces without the empty ones at the end; a text without the separator is its own piece.\<close>

definition java_split :: "char \<Rightarrow> string \<Rightarrow> string list" where
  "java_split c s = (if c \<notin> set s then [s] else rev (dropWhile (\<lambda>p. p = []) (rev (split_on c s))))"

definition in_int :: "int \<Rightarrow> bool" where
  "in_int i \<longleftrightarrow> - (2 ^ 31) \<le> i \<and> i < 2 ^ 31"

definition signed_digits :: "string \<Rightarrow> int option" where
  "signed_digits s =
     (let neg = (take 1 s = ''-''); ds = (if take 1 s = ''-'' \<or> take 1 s = ''+'' then drop 1 s else s)
      in if ds = [] \<or> \<not> list_all is_digit ds then None
         else Some (if neg then - int (nat_val ds) else int (nat_val ds)))"

definition parseInt :: "string \<Rightarrow> java_error + int" where
  "parseInt s = (case signed_digits s of
      Some i \<Rightarrow> if in_int i then Inr i else Inl (NumberFormat s)
    | None \<Rightarrow> Inl (NumberFormat s))"

text \<open>\<open>params.get(i)\<close>\<close>

definition list_get :: "'a list \<Rightarrow> nat \<Rightarrow> java_error + 'a" where
  "list_get xs i = (if i < length xs then Inr (xs ! i) else Inl IndexOutOfBounds)"

lemma parseInt_range: "parseInt s = Inr i \<Longrightarrow> in_int i"
  by (auto simp: parseInt_def split: option.splits if_splits)

lemma parseInt_nat_str: "in_int (int n) \<Longrightarrow> parseInt (nat_str n) = Inr (int n)"
proof -
  assume r: "in_int (int n)"
  obtain c cs where s: "nat_str n = c # cs" using nat_str_not_Nil by (meson neq_Nil_conv)
  have d: "list_all is_digit (nat_str n)" by simp
  then have "is_digit c" unfolding s by simp
  then have "c \<noteq> CHR ''-''" "c \<noteq> CHR ''+''" by (auto simp: is_digit_def)
  then have "take 1 (nat_str n) \<noteq> ''-''" "take 1 (nat_str n) \<noteq> ''+''" unfolding s by simp_all
  then show ?thesis using r d by (simp add: parseInt_def signed_digits_def Let_def)
qed

lemma java_split_empty_end: "java_split c s \<noteq> [] \<Longrightarrow> c \<in> set s \<Longrightarrow> last (java_split c s) \<noteq> []"
proof -
  assume a: "java_split c s \<noteq> []" "c \<in> set s"
  define ps where "ps = dropWhile (\<lambda>p. p = []) (rev (split_on c s))"
  have e: "java_split c s = rev ps" using a(2) by (simp add: java_split_def ps_def)
  then have "ps \<noteq> []" using a(1) by simp
  then have "hd ps \<noteq> []" unfolding ps_def by (rule hd_dropWhile)
  then show ?thesis using \<open>ps \<noteq> []\<close> by (simp add: e last_rev)
qed

lemma split_join: "ps \<noteq> [] \<Longrightarrow> list_all (\<lambda>p. c \<notin> set p) ps \<Longrightarrow> split_on c (join_with [c] ps) = ps"
proof (induction ps rule: induct_list012)
  case (3 x y ps)
  then show ?case using split_on_append [of c x "join_with [c] (y # ps)"] by (simp add: split_on_absent)
qed (simp_all add: split_on_absent)

end
