(* ===== verification/StringRendererJava.thy ===== *)
theory StringRendererJava
  imports JavaBase
begin

text \<open>
  \<open>core/service/StringRenderer.java\<close>: the templates \<open>{{function(parameters)}}\<close> in names, headers
  and addresses. The random numbers, the properties, the environment and the clock are
  arguments; a counter says how many random numbers have been drawn.
\<close>

section \<open>The context of a request\<close>

text \<open>\<open>PowerfulResponse\<close>; \<open>status\<close> may be \<open>null\<close>.\<close>

record PowerfulResponse =
  resp_headers :: "(string \<times> string) list"
  resp_result :: jobj
  resp_status :: "string option"

definition new_response :: PowerfulResponse where
  "new_response = \<lparr>resp_headers = [], resp_result = JNull, resp_status = None\<rparr>"

text \<open>
  \<open>RenderingContext\<close>, with the results of the one thread that uses it; the delay is kept in
  nanoseconds. Maps are association lists in the order of iteration.
\<close>

record RenderingContext =
  requestHeaders :: "(string \<times> string) list option"
  request_path :: string
  request_params :: "(string \<times> string) list"
  request_method :: string
  response :: "PowerfulResponse option"
  invokeResult :: "string option"
  delay_nanos :: int

definition new_context :: RenderingContext where
  "new_context = \<lparr>requestHeaders = Some [], request_path = [], request_params = [], request_method = [],
     response = Some new_response, invokeResult = None, delay_nanos = 0\<rparr>"

text \<open>
  The machine: random draws by their number (\<open>nextInt()\<close> and \<open>nextInt(n)\<close>), system properties,
  environment variables, the Spring environment (\<open>null\<close> before it is set), the date in a
  pattern (\<open>None\<close>: no valid pattern), the text of a delay, of a response object and of an
  exception of the library.
\<close>

record jvm =
  next_int :: "nat \<Rightarrow> int"
  next_below :: "nat \<Rightarrow> int \<Rightarrow> int"
  system_property :: "string \<Rightarrow> string option"
  env_variable :: "string \<Rightarrow> string option"
  spring_environment :: "(string \<Rightarrow> string option) option"
  formatted_date :: "string \<Rightarrow> string option"
  delay_text :: "int \<Rightarrow> string"
  response_text :: "PowerfulResponse \<Rightarrow> string"
  library_message :: "java_error \<Rightarrow> string option"

text \<open>The documented ranges of \<open>java.util.Random\<close>.\<close>

definition random_ranges :: "jvm \<Rightarrow> bool" where
  "random_ranges vm \<longleftrightarrow> (\<forall>k. in_int (next_int vm k)) \<and> (\<forall>k n. 0 < n \<longrightarrow> 0 \<le> next_below vm k n \<and> next_below vm k n < n)"

section \<open>Functions\<close>

definition draw_int :: "jvm \<Rightarrow> (nat, int) stm" where
  "draw_int vm k = (Inr (next_int vm k), k + 1)"

definition draw_below :: "jvm \<Rightarrow> int \<Rightarrow> (nat, int) stm" where
  "draw_below vm n k = (if n \<le> 0 then (Inl (IllegalArgument ''bound must be positive''), k) else (Inr (next_below vm k n), k + 1))"

fun draw_digits :: "jvm \<Rightarrow> nat \<Rightarrow> (nat, string) stm" where
  "draw_digits vm 0 = jret []"
| "draw_digits vm (Suc n) = jbind (draw_below vm 10) (\<lambda>d. jbind (draw_digits vm n) (\<lambda>ds. jret (int_str d @ ds)))"

definition text_or_null :: "string option \<Rightarrow> jobj" where
  "text_or_null t = (case t of Some s \<Rightarrow> JStr s | None \<Rightarrow> JNull)"

definition randomInt :: "jvm \<Rightarrow> string list \<Rightarrow> (nat, jobj) stm" where
  "randomInt vm params = (case params of
      [] \<Rightarrow> jbind (draw_int vm) (\<lambda>i. jret (JNum (int_str i)))
    | [p] \<Rightarrow> jbind (jlift (parseInt p)) (\<lambda>n. jbind (draw_below vm n) (\<lambda>i. jret (JNum (int_str i))))
    | [p, q] \<Rightarrow> jbind (jlift (parseInt p)) (\<lambda>left. jbind (jlift (parseInt q)) (\<lambda>right.
        if left \<ge> right
        then jthrow (IllegalArgument (''randomInt range invalid: ['' @ int_str left @ '', '' @ int_str right @ '')''))
        else jbind (draw_int vm) (\<lambda>i. jret (JNum (int_str i)))))
    | _ \<Rightarrow> jthrow (IllegalArgument (''Illegal arguments for randomInt: '' @ to_string (JList (map JStr params)))))"

definition header_value :: "RenderingContext \<Rightarrow> string \<Rightarrow> java_error + jobj" where
  "header_value ctx name = (case requestHeaders ctx of
      None \<Rightarrow> Inl NullPointer
    | Some hs \<Rightarrow>
        let from_request = (case map_of hs name of Some h \<Rightarrow> if h = [] then [] else [h] | None \<Rightarrow> []);
            from_response = (case response ctx of
                Some r \<Rightarrow> (case map_of (resp_headers r) name of Some h \<Rightarrow> [h] | None \<Rightarrow> [])
              | None \<Rightarrow> [])
        in Inr (JStr (join_with ''|'' (from_request @ from_response))))"

text \<open>The map \<open>exprFuncs\<close>: \<open>None\<close> for a name it has no function for.\<close>

definition exprFuncs :: "jvm \<Rightarrow> RenderingContext \<Rightarrow> string \<Rightarrow> (string list \<Rightarrow> (nat, jobj) stm) option" where
  "exprFuncs vm ctx name =
    (if name = ''randomDigits'' then Some (\<lambda>ps. jbind (jlift (rbind (list_get ps 0) parseInt)) (\<lambda>size.
        jbind (draw_digits vm (nat size)) (\<lambda>ds. jret (JStr ds))))
     else if name = ''randomInt'' then Some (randomInt vm)
     else if name = ''p'' then Some (\<lambda>ps. jlift (rbind (list_get ps 0) (\<lambda>key.
        if key = [] then Inl (IllegalArgument ''key can't be empty'') else Inr (text_or_null (system_property vm key)))))
     else if name = ''param'' then Some (\<lambda>ps. jlift (rbind (list_get ps 0) (\<lambda>key. Inr (text_or_null (map_of (request_params ctx) key)))))
     else if name = ''env'' then Some (\<lambda>ps. jlift (rbind (list_get ps 0) (\<lambda>key. Inr (text_or_null (env_variable vm key)))))
     else if name = ''apollo'' \<or> name = ''springEnv'' then Some (\<lambda>ps. jlift (rbind (list_get ps 0) (\<lambda>key.
        case spring_environment vm of None \<Rightarrow> Inl NullPointer | Some get \<Rightarrow> Inr (text_or_null (get key)))))
     else if name = ''path'' then Some (\<lambda>ps. jret (JStr (request_path ctx)))
     else if name = ''timestamp'' then Some (\<lambda>ps. jlift (let pattern = (if ps = [] then ''yyyy-MM-dd hh:mm:ss'' else hd ps)
        in case formatted_date vm pattern of Some t \<Rightarrow> Inr (JStr t) | None \<Rightarrow> Inl (LibraryFailure pattern)))
     else if name = ''header'' then Some (\<lambda>ps. jlift (rbind (list_get ps 0) (header_value ctx)))
     else if name = ''result'' then Some (\<lambda>ps. jret (JStr (case response ctx of Some r \<Rightarrow> response_text vm r | None \<Rightarrow> ''null'')))
     else if name = ''resultBody'' then Some (\<lambda>ps. jret (case response ctx of Some r \<Rightarrow> resp_result r | None \<Rightarrow> JNull))
     else if name = ''statusCode'' then Some (\<lambda>ps. jret (case response ctx of Some r \<Rightarrow> text_or_null (resp_status r) | None \<Rightarrow> JNull))
     else if name = ''invokeResult'' then Some (\<lambda>ps. jret (JStr (case invokeResult ctx of Some t \<Rightarrow> t | None \<Rightarrow> ''null'')))
     else if name = ''delay'' then Some (\<lambda>ps. jret (JStr (delay_text vm (delay_nanos ctx))))
     else None)"

section \<open>Expressions\<close>

text \<open>\<open>.\<close> matches no line terminator (of the characters below 256).\<close>

definition line_terminator :: "char \<Rightarrow> bool" where
  "line_terminator c \<longleftrightarrow> c = CHR 0x0A \<or> c = CHR 0x0D \<or> c = CHR 0x85"

definition char_between :: "char \<Rightarrow> char \<Rightarrow> char \<Rightarrow> bool" where
  "char_between a z c \<longleftrightarrow> (of_char a :: nat) \<le> of_char c \<and> (of_char c :: nat) \<le> of_char z"

definition name_char :: "char \<Rightarrow> bool" where
  "name_char c \<longleftrightarrow> c = CHR ''-'' \<or> char_between CHR ''a'' CHR ''z'' c \<or> char_between CHR ''A'' CHR ''Z'' c \<or> c = CHR ''_''"

text \<open>\<open>([-a-zA-Z_]+)\((.*)\)\<close>, matched against the whole expression: name and parameters.\<close>

definition match_function :: "string \<Rightarrow> (string \<times> string) option" where
  "match_function expr =
     (let name = takeWhile name_char expr; rest = dropWhile name_char expr
      in if name \<noteq> [] \<and> take 1 rest = ''('' \<and> tl rest \<noteq> [] \<and> last (tl rest) = CHR '')'' \<and> \<not> list_ex line_terminator (butlast (tl rest))
         then Some (name, butlast (tl rest)) else None)"

definition split_params :: "string \<Rightarrow> string list" where
  "split_params paramsStr = (if paramsStr = [] then [] else java_split CHR '','' paramsStr)"

definition calc :: "jvm \<Rightarrow> RenderingContext \<Rightarrow> string \<Rightarrow> (nat, string) stm" where
  "calc vm ctx expr = (case match_function expr of
      None \<Rightarrow> jthrow (IllegalArgument ([CHR 0x27] @ expr @ [CHR 0x27] @ '' is not a valid expression.''))
    | Some (functionName, paramsStr) \<Rightarrow> (case exprFuncs vm ctx functionName of
          None \<Rightarrow> jthrow (IllegalArgument (''function '' @ [CHR 0x27] @ functionName @ [CHR 0x27] @ '' not found''))
        | Some function \<Rightarrow> jbind (function (split_params paramsStr)) (\<lambda>result.
            jret (if result = JNull then [] else to_string result))))"

section \<open>Templates\<close>

text \<open>The reluctant \<open>.+?}}\<close>: at least one character, then up to the first closing braces on the line.\<close>

fun until_close :: "string \<Rightarrow> (string \<times> string) option" where
  "until_close [] = None"
| "until_close (c # cs) =
     (if take 2 (c # cs) = ''}}'' then Some ([], drop 2 (c # cs))
      else if line_terminator c then None
      else map_option (\<lambda>(e, r). (c # e, r)) (until_close cs))"

fun expr_body :: "string \<Rightarrow> (string \<times> string) option" where
  "expr_body [] = None"
| "expr_body (c # cs) = (if line_terminator c then None else map_option (\<lambda>(e, r). (c # e, r)) (until_close cs))"

text \<open>\<open>matcher.find()\<close>: what stands before the match, the group, and the rest.\<close>

fun find_expr :: "string \<Rightarrow> (string \<times> string \<times> string) option" where
  "find_expr [] = None"
| "find_expr (c # cs) = (case (if take 2 (c # cs) = ''{{'' then expr_body (drop 2 (c # cs)) else None) of
      Some (e, r) \<Rightarrow> Some ([], e, r)
    | None \<Rightarrow> map_option (\<lambda>(b, e, r). (c # b, e, r)) (find_expr cs))"

lemma until_close_eq: "until_close s = Some (e, r) \<Longrightarrow> s = e @ ''}}'' @ r"
proof (induction s arbitrary: e)
  case (Cons c cs)
  show ?case
  proof (cases "take 2 (c # cs) = ''}}''")
    case True
    with Cons.prems have "e = []" "r = drop 2 (c # cs)" by simp_all
    with True show ?thesis using append_take_drop_id [of 2 "c # cs"] by simp
  next
    case False
    with Cons.prems obtain e' where "until_close cs = Some (e', r)" "e = c # e'"
      by (auto split: if_splits)
    with Cons.IH show ?thesis by simp
  qed
qed simp

lemma expr_body_eq: "expr_body s = Some (e, r) \<Longrightarrow> s = e @ ''}}'' @ r \<and> e \<noteq> []"
  using until_close_eq by (cases s) (fastforce split: if_splits)+

lemma find_expr_eq: "find_expr s = Some (b, e, r) \<Longrightarrow> s = b @ ''{{'' @ e @ ''}}'' @ r \<and> e \<noteq> []"
proof (induction s arbitrary: b)
  case (Cons c cs)
  show ?case
  proof (cases "if take 2 (c # cs) = ''{{'' then expr_body (drop 2 (c # cs)) else None")
    case None
    with Cons.prems obtain b' where "find_expr cs = Some (b', e, r)" "b = c # b'" by auto
    with Cons.IH show ?thesis by simp
  next
    case (Some er)
    with Cons.prems have er: "b = []" "er = (e, r)" by auto
    from Some have t: "take 2 (c # cs) = ''{{''" by (simp split: if_splits)
    with Some er have "expr_body (drop 2 (c # cs)) = Some (e, r)" by simp
    from expr_body_eq [OF this] t er(1) show ?thesis using append_take_drop_id [of 2 "c # cs"] by simp
  qed
qed simp

lemma find_expr_shorter: "find_expr s = Some (b, e, r) \<Longrightarrow> length r + 5 \<le> length s"
  using find_expr_eq [of s b e r] by (cases e) auto

text \<open>The loop of \<open>render\<close>: the replacement of a match is appended as it is.\<close>

function render_loop :: "jvm \<Rightarrow> RenderingContext \<Rightarrow> string \<Rightarrow> (nat, string) stm" where
  "render_loop vm ctx source = (case find_expr source of
      None \<Rightarrow> jret source
    | Some (before, expr, rest) \<Rightarrow> jbind (calc vm ctx expr) (\<lambda>v.
        jbind (render_loop vm ctx rest) (\<lambda>t. jret (before @ v @ t))))"
  by auto
termination
proof (relation "measure (\<lambda>(vm, ctx, s). length s)")
  fix vm :: jvm and ctx :: RenderingContext and source before expr rest :: string and p q v k k'
  assume "find_expr source = Some p" "(before, q) = p" "(expr, rest) = q"
  then have "find_expr source = Some (before, expr, rest)" by simp
  from find_expr_shorter [OF this] show "((vm, ctx, rest), vm, ctx, source) \<in> measure (\<lambda>(vm, ctx, s). length s)" by simp
qed simp

text \<open>\<open>render\<close>, where the source may be \<open>null\<close>.\<close>

definition render_template :: "jvm \<Rightarrow> RenderingContext \<Rightarrow> string option \<Rightarrow> (nat, string option) stm" where
  "render_template vm ctx source = (case source of
      None \<Rightarrow> jret None
    | Some s \<Rightarrow> jbind (render_loop vm ctx s) (\<lambda>t. jret (Some t)))"

end
