(* ===== verification/TemplateProps.thy ===== *)
theory TemplateProps
  imports StringRendererJava
begin

text \<open>
  What rendering a template means: which parts of a text the reluctant expression finds, that
  each is replaced once and its value is not looked at again, and when rendering fails.
\<close>

section \<open>The expressions of a template\<close>

text \<open>The texts the group of the expression can match.\<close>

definition expr_text :: "string \<Rightarrow> bool" where
  "expr_text e \<longleftrightarrow> e \<noteq> [] \<and> \<not> list_ex line_terminator e"

lemma until_close_line: "until_close s = Some (e, r) \<Longrightarrow> \<not> list_ex line_terminator e"
proof (induction s arbitrary: e)
  case (Cons c cs)
  then show ?case by (cases "take 2 (c # cs) = ''}}''") (auto split: if_splits)
qed simp

lemma until_close_first:
  "s = e' @ ''}}'' @ r' \<Longrightarrow> \<not> list_ex line_terminator e' \<Longrightarrow> \<exists>e r. until_close s = Some (e, r) \<and> length e \<le> length e'"
proof (induction s arbitrary: e')
  case (Cons c cs)
  show ?case
  proof (cases "take 2 (c # cs) = ''}}''")
    case False
    then obtain e'' where e: "e' = c # e''" using Cons.prems(1) by (cases e') auto
    then have "cs = e'' @ ''}}'' @ r'" "\<not> list_ex line_terminator e''" "\<not> line_terminator c"
      using Cons.prems by auto
    with Cons.IH obtain f r where "until_close cs = Some (f, r)" "length f \<le> length e''" by blast
    with False e \<open>\<not> line_terminator c\<close> show ?thesis by auto
  qed simp
qed simp

lemma expr_body_text: "expr_body s = Some (e, r) \<Longrightarrow> s = e @ ''}}'' @ r \<and> expr_text e"
proof (cases s)
  case (Cons c cs)
  assume "expr_body s = Some (e, r)"
  with Cons obtain f where "until_close cs = Some (f, r)" "e = c # f" "\<not> line_terminator c"
    by (auto split: if_splits)
  with Cons show ?thesis using until_close_eq [of cs f r] until_close_line [of cs f r] by (simp add: expr_text_def)
qed simp

lemma expr_body_first:
  assumes "s = e' @ ''}}'' @ r'" and "expr_text e'"
  shows "\<exists>e r. expr_body s = Some (e, r) \<and> length e \<le> length e'"
proof -
  obtain c f where e: "e' = c # f" using assms(2) by (cases e') (auto simp: expr_text_def)
  with assms(2) have "\<not> line_terminator c" "\<not> list_ex line_terminator f" by (auto simp: expr_text_def)
  moreover obtain g r where "until_close (f @ ''}}'' @ r') = Some (g, r)" "length g \<le> length f"
    using until_close_first [OF refl \<open>\<not> list_ex line_terminator f\<close>] by blast
  ultimately show ?thesis using assms(1) e by simp
qed

lemma find_expr_text: "find_expr s = Some (b, e, r) \<Longrightarrow> s = b @ ''{{'' @ e @ ''}}'' @ r \<and> expr_text e"
proof (induction s arbitrary: b)
  case (Cons c cs)
  show ?case
  proof (cases "if take 2 (c # cs) = ''{{'' then expr_body (drop 2 (c # cs)) else None")
    case None
    with Cons.prems obtain b' where "find_expr cs = Some (b', e, r)" "b = c # b'" by auto
    with Cons.IH show ?thesis by simp
  next
    case (Some er)
    with Cons.prems have er: "b = []" "er = (e, r)" by auto
    from Some have t: "take 2 (c # cs) = ''{{''" by (simp split: if_splits)
    with Some er have "expr_body (drop 2 (c # cs)) = Some (e, r)" by simp
    from expr_body_text [OF this] t er(1) show ?thesis using append_take_drop_id [of 2 "c # cs"] by simp
  qed
qed simp

lemma find_expr_first:
  "s = b' @ ''{{'' @ e' @ ''}}'' @ r' \<Longrightarrow> expr_text e' \<Longrightarrow>
     \<exists>b e r. find_expr s = Some (b, e, r) \<and> (length b < length b' \<or> length b = length b' \<and> length e \<le> length e')"
proof (induction s arbitrary: b')
  case (Cons c cs)
  show ?case
  proof (cases "if take 2 (c # cs) = ''{{'' then expr_body (drop 2 (c # cs)) else None")
    case (Some er)
    obtain e r where er: "er = (e, r)" by fastforce
    then have f: "find_expr (c # cs) = Some ([], e, r)" using Some by simp
    show ?thesis
    proof (cases b')
      case Nil
      with Cons.prems(1) have "take 2 (c # cs) = ''{{''" "drop 2 (c # cs) = e' @ ''}}'' @ r'" by simp_all
      then obtain g q where "expr_body (drop 2 (c # cs)) = Some (g, q)" "length g \<le> length e'"
        using expr_body_first [OF _ Cons.prems(2)] by blast
      with Some er \<open>take 2 (c # cs) = ''{{''\<close> have "length e \<le> length e'" by simp
      with f Nil show ?thesis by simp
    next
      case (Cons d ds)
      with f show ?thesis by simp
    qed
  next
    case None
    have "b' \<noteq> []"
    proof
      assume "b' = []"
      with Cons.prems(1) have "take 2 (c # cs) = ''{{''" "drop 2 (c # cs) = e' @ ''}}'' @ r'" by simp_all
      with expr_body_first [OF _ Cons.prems(2)] None show False by fastforce
    qed
    then obtain ds where b: "b' = c # ds" "cs = ds @ ''{{'' @ e' @ ''}}'' @ r'"
      using Cons.prems(1) by (cases b') auto
    with Cons.IH [OF b(2) Cons.prems(2)] None show ?thesis by fastforce
  qed
qed simp

text \<open>
  A search in a template finds exactly what the reluctant expression means: some text in
  double braces, of at least one character and on one line, that starts furthest to the left
  and, from there, ends first; and it finds nothing only if there is no such text.
\<close>
theorem find_expr_leftmost:
  "case find_expr s of
      None \<Rightarrow> \<nexists>b e r. s = b @ ''{{'' @ e @ ''}}'' @ r \<and> expr_text e
    | Some (b, e, r) \<Rightarrow> s = b @ ''{{'' @ e @ ''}}'' @ r \<and> expr_text e \<and>
        (\<forall>b' e' r'. s = b' @ ''{{'' @ e' @ ''}}'' @ r' \<and> expr_text e' \<longrightarrow>
          length b < length b' \<or> length b = length b' \<and> length e \<le> length e')"
proof (cases "find_expr s")
  case None
  then show ?thesis using find_expr_first [of s] by fastforce
next
  case (Some m)
  then obtain b e r where m: "find_expr s = Some (b, e, r)" by (cases m) simp
  have "length b < length b' \<or> length b = length b' \<and> length e \<le> length e'"
    if d: "s = b' @ ''{{'' @ e' @ ''}}'' @ r'" "expr_text e'" for b' e' r'
    using find_expr_first [OF d] m by auto
  with find_expr_text [OF m] show ?thesis unfolding m option.case prod.case by blast
qed

theorem find_expr_leftmost_witness:
  "find_expr ''a{{{x()}}}b'' = Some (''a'', ''{x()'', ''}b'') \<and>
   (length ''a'' < length ''a{'' \<or> length ''a'' = length ''a{'' \<and> length ''{x()'' \<le> length ''x()'')"
proof -
  have f: "find_expr ''a{{{x()}}}b'' = Some (''a'', ''{x()'', ''}b'')" by code_simp
  have d: "''a{{{x()}}}b'' = ''a{'' @ ''{{'' @ ''x()'' @ ''}}'' @ ''}b'' \<and> expr_text ''x()''" by code_simp
  with find_expr_leftmost [of "''a{{{x()}}}b''"] f show ?thesis unfolding f option.case prod.case by blast
qed

section \<open>Pieces\<close>

datatype piece = Plain string | Expression string

function pieces :: "string \<Rightarrow> piece list" where
  "pieces s = (case find_expr s of
      None \<Rightarrow> [Plain s]
    | Some (b, e, r) \<Rightarrow> Plain b # Expression e # pieces r)"
  by auto
termination
proof (relation "measure length")
  fix s b e r :: string and p q
  assume "find_expr s = Some p" "(b, q) = p" "(e, r) = q"
  then have "find_expr s = Some (b, e, r)" by simp
  from find_expr_shorter [OF this] show "(r, s) \<in> measure length" by simp
qed simp

declare pieces.simps [simp del] render_loop.simps [simp del]

fun piece_text :: "piece \<Rightarrow> string" where
  "piece_text (Plain t) = t"
| "piece_text (Expression e) = ''{{'' @ e @ ''}}''"

fun is_expression :: "piece \<Rightarrow> bool" where
  "is_expression (Expression e) \<longleftrightarrow> True"
| "is_expression (Plain t) \<longleftrightarrow> False"

text \<open>One pass over the pieces, each expression evaluated in its place.\<close>

fun run_pieces :: "jvm \<Rightarrow> RenderingContext \<Rightarrow> piece list \<Rightarrow> (nat, string) stm" where
  "run_pieces vm ctx [] = jret []"
| "run_pieces vm ctx (Plain t # ps) = jbind (run_pieces vm ctx ps) (\<lambda>u. jret (t @ u))"
| "run_pieces vm ctx (Expression e # ps) =
     jbind (calc vm ctx e) (\<lambda>v. jbind (run_pieces vm ctx ps) (\<lambda>u. jret (v @ u)))"

lemma pieces_text: "concat (map piece_text (pieces s)) = s"
proof (induction s rule: pieces.induct)
  case (1 s)
  show ?case
  proof (cases "find_expr s")
    case (Some m)
    then obtain b e r where m: "find_expr s = Some (b, e, r)" by (cases m) simp
    with 1 have "concat (map piece_text (pieces r)) = r" by blast
    with find_expr_text [OF m] m show ?thesis by (subst pieces.simps) simp
  qed (subst pieces.simps, simp)
qed

lemma pieces_bound: "5 * length (filter is_expression (pieces s)) \<le> length s"
proof (induction s rule: pieces.induct)
  case (1 s)
  show ?case
  proof (cases "find_expr s")
    case (Some m)
    then obtain b e r where m: "find_expr s = Some (b, e, r)" by (cases m) simp
    with 1 have "5 * length (filter is_expression (pieces r)) \<le> length r" by blast
    with find_expr_shorter [OF m] m show ?thesis by (subst pieces.simps) simp
  qed (subst pieces.simps, simp)
qed

lemma jbind_assoc: "jbind (jbind m f) g s = jbind m (\<lambda>x. jbind (f x) g) s"
  by (simp add: jbind_def split: prod.split sum.split)

lemma run_one_pass: "render_loop vm ctx s k = run_pieces vm ctx (pieces s) k"
proof (induction s arbitrary: k rule: pieces.induct)
  case (1 s)
  show ?case
  proof (cases "find_expr s")
    case None
    then show ?thesis by (simp add: pieces.simps [of s] render_loop.simps [of vm ctx s] jbind_def)
  next
    case (Some m)
    then obtain b e r where m: "find_expr s = Some (b, e, r)" by (cases m) simp
    with 1 have "render_loop vm ctx r k' = run_pieces vm ctx (pieces r) k'" for k' by blast
    with m show ?thesis
      by (simp add: pieces.simps [of s] render_loop.simps [of vm ctx s] jbind_def split: prod.split sum.split)
  qed
qed

text \<open>
  C39. Rendering is one pass: the template is cut into plain text and expressions, the plain
  text is copied, each expression is evaluated once, from left to right, and its value is
  inserted as it is, never taken for a template again. There are at most as many expressions
  as the fifth part of the template's length, and the pieces put together are the template.
\<close>
theorem render_is_one_pass:
  "render_template vm ctx (Some s) k =
     (case run_pieces vm ctx (pieces s) k of (Inr t, k') \<Rightarrow> (Inr (Some t), k') | (Inl e, k') \<Rightarrow> (Inl e, k')) \<and>
   concat (map piece_text (pieces s)) = s \<and>
   length (filter is_expression (pieces s)) \<le> length s div 5"
proof -
  have "length (filter is_expression (pieces s)) \<le> length s div 5"
    using pieces_bound [of s] by linarith
  moreover have "render_template vm ctx (Some s) k =
     (case run_pieces vm ctx (pieces s) k of (Inr t, k') \<Rightarrow> (Inr (Some t), k') | (Inl e, k') \<Rightarrow> (Inl e, k'))"
    by (simp add: render_template_def run_one_pass jbind_def split: prod.split sum.split)
  ultimately show ?thesis using pieces_text by blast
qed

text \<open>A text without double braces, or a value that holds them, comes out as it is.\<close>

theorem plain_unchanged: "(\<And>b r. s \<noteq> b @ ''{{'' @ r) \<Longrightarrow> render_template vm ctx (Some s) k = (Inr (Some s), k)"
proof -
  assume n: "\<And>b r. s \<noteq> b @ ''{{'' @ r"
  have "find_expr s = None"
    using find_expr_text [of s] n by (cases "find_expr s") (metis, metis prod_cases3)
  then show ?thesis by (simp add: render_template_def render_loop.simps [of vm ctx s] jbind_def)
qed

section \<open>Failing templates\<close>

definition failure :: "(java_error + 'a) \<times> 's \<Rightarrow> java_error option" where
  "failure r = (case fst r of Inl e \<Rightarrow> Some e | Inr _ \<Rightarrow> None)"

lemma failure_simps [simp]: "failure (Inl e, s) = Some e" "failure (Inr x, s) = None"
  by (simp_all add: failure_def)

text \<open>Whether and how a statement fails does not depend on the random numbers.\<close>

definition steady :: "(nat, 'a) stm \<Rightarrow> bool" where
  "steady m \<longleftrightarrow> (\<forall>k k'. failure (m k) = failure (m k'))"

definition never_fails :: "(nat, 'a) stm \<Rightarrow> bool" where
  "never_fails m \<longleftrightarrow> (\<forall>k. failure (m k) = None)"

lemma steady_intros:
  "steady (jret x)" "steady (jthrow e)" "steady (jlift r)" "never_fails m \<Longrightarrow> steady m"
  by (simp_all add: steady_def never_fails_def) (cases r; simp add: failure_def)

lemma steady_jlift: "(\<And>x. r = Inr x \<Longrightarrow> steady (f x)) \<Longrightarrow> steady (jbind (jlift r) f)"
  by (cases r) (simp_all add: steady_def)

lemma steady_jret: "steady m \<Longrightarrow> steady (jbind m (\<lambda>x. jret (f x)))"
proof -
  assume m: "steady m"
  have "failure (jbind m (\<lambda>x. jret (f x)) k) = failure (m k)" for k
    by (simp add: jbind_def failure_def split: prod.split sum.split)
  with m show ?thesis by (simp add: steady_def)
qed

lemma never_fails_bind: "never_fails m \<Longrightarrow> (\<And>x. never_fails (f x)) \<Longrightarrow> never_fails (jbind m f)"
  unfolding never_fails_def by (simp add: jbind_def failure_def split: prod.split sum.split) (metis fst_conv old.sum.exhaust sum.case(1) option.distinct(1))

lemma never_fails_draws: "never_fails (jret x)" "never_fails (draw_int vm)" "0 < n \<Longrightarrow> never_fails (draw_below vm n)"
  by (simp_all add: never_fails_def draw_int_def draw_below_def)

lemma never_fails_digits: "never_fails (draw_digits vm n)"
proof (induction n)
  case (Suc n)
  then show ?case unfolding draw_digits.simps by (intro never_fails_bind never_fails_draws) simp_all
qed (simp add: never_fails_def)

lemma steady_below: "steady (draw_below vm n)"
  by (simp add: steady_def draw_below_def)

lemma steady_int: "steady (jbind (draw_int vm) (\<lambda>i. jret (f i)))"
  by (intro steady_intros never_fails_bind never_fails_draws)

lemma steady_if: "steady m \<Longrightarrow> steady m' \<Longrightarrow> steady (if b then m else m')"
  by simp

lemma steady_randomInt: "steady (randomInt vm ps)"
proof -
  consider "ps = []" | p where "ps = [p]" | p q where "ps = [p, q]" | p q r rs where "ps = p # q # r # rs"
    by (metis remdups_adj.cases)
  then show ?thesis
    unfolding randomInt_def
    by cases (simp_all only: list.case, (intro steady_jlift steady_jret steady_if steady_int steady_below steady_intros(2))+)
qed

definition steady_function :: "(string list \<Rightarrow> (nat, jobj) stm) option \<Rightarrow> bool" where
  "steady_function f \<longleftrightarrow> (case f of Some g \<Rightarrow> (\<forall>ps. steady (g ps)) | None \<Rightarrow> True)"

lemma steady_function_intros:
  "(\<And>ps. steady (g ps)) \<Longrightarrow> steady_function (Some g)" "steady_function None"
  "steady_function f \<Longrightarrow> steady_function f' \<Longrightarrow> steady_function (if b then f else f')"
  by (simp_all add: steady_function_def)

lemma exprFuncs_steady: "steady_function (exprFuncs vm ctx name)"
proof -
  have d: "steady (jbind (jlift r) (\<lambda>size. jbind (draw_digits vm (nat size)) (\<lambda>ds. jret (JStr ds))))" for r
    by (intro steady_jlift steady_jret steady_intros(4) never_fails_digits)
  show ?thesis
    unfolding exprFuncs_def by (intro steady_function_intros d steady_randomInt steady_intros(1,3))
qed

lemma calc_steady: "steady (calc vm ctx e)"
proof (cases "match_function e")
  case None
  then show ?thesis unfolding calc_def by (simp only: option.case steady_intros)
next
  case (Some m)
  obtain name ps where m: "m = (name, ps)" by fastforce
  show ?thesis
  proof (cases "exprFuncs vm ctx name")
    case None
    with Some m show ?thesis unfolding calc_def by (simp only: option.case prod.case steady_intros)
  next
    case (Some f)
    with exprFuncs_steady [of vm ctx name] have "steady (f (split_params ps))" by (simp add: steady_function_def)
    with Some \<open>match_function e = Some m\<close> m show ?thesis
      unfolding calc_def by (simp only: option.case prod.case steady_jret)
  qed
qed

text \<open>The exception of an expression, whatever numbers have been drawn before.\<close>

definition expr_failure :: "jvm \<Rightarrow> RenderingContext \<Rightarrow> string \<Rightarrow> java_error option" where
  "expr_failure vm ctx e = failure (calc vm ctx e 0)"

lemma calc_failure: "failure (calc vm ctx e k) = expr_failure vm ctx e"
  using calc_steady [of vm ctx e] by (simp add: steady_def expr_failure_def)

fun first_failure :: "jvm \<Rightarrow> RenderingContext \<Rightarrow> piece list \<Rightarrow> java_error option" where
  "first_failure vm ctx [] = None"
| "first_failure vm ctx (Plain t # ps) = first_failure vm ctx ps"
| "first_failure vm ctx (Expression e # ps) =
     (case expr_failure vm ctx e of Some x \<Rightarrow> Some x | None \<Rightarrow> first_failure vm ctx ps)"

lemma failure_bind_jret: "failure (jbind m (\<lambda>x. jret (f x)) k) = failure (m k)"
  by (simp add: jbind_def failure_def split: prod.split sum.split)

lemma run_failure: "failure (run_pieces vm ctx ps k) = first_failure vm ctx ps"
proof (induction vm ctx ps arbitrary: k rule: first_failure.induct)
  case (3 vm ctx e ps)
  show ?case
  proof (cases "calc vm ctx e k")
    case (Pair r k')
    show ?thesis
    proof (cases r)
      case (Inl x)
      with Pair calc_failure [of vm ctx e k] have "expr_failure vm ctx e = Some x" by simp
      with Pair Inl show ?thesis by (simp add: jbind_def)
    next
      case (Inr v)
      with Pair calc_failure [of vm ctx e k] have n: "expr_failure vm ctx e = None" by simp
      have "failure (jbind (run_pieces vm ctx ps) (\<lambda>u. jret (v @ u)) k') = first_failure vm ctx ps"
        unfolding failure_bind_jret by (rule 3 [OF n])
      with n Pair Inr show ?thesis unfolding run_pieces.simps first_failure.simps by (simp add: jbind_Inr)
    qed
  qed
qed (simp_all add: failure_bind_jret)

text \<open>
  A template fails exactly if one of its expressions does, that is if it is no call, names
  no function, or its function refuses the parameters, and then with the exception of the
  first one. This does not depend on the random numbers drawn.
\<close>
theorem render_failure:
  "failure (render_template vm ctx (Some s) k) = first_failure vm ctx (pieces s)"
  unfolding render_template_def option.case failure_bind_jret run_one_pass run_failure ..

section \<open>Random values\<close>

lemma digit_str: "0 \<le> d \<Longrightarrow> d < 10 \<Longrightarrow> list_all is_digit (int_str d) \<and> length (int_str d) = 1"
proof -
  assume "0 \<le> d" "d < 10"
  then have "nat d < 10" "int_str d = nat_str (nat d)" by (simp_all add: int_str_def)
  then show ?thesis by (simp add: nat_str.simps [of "nat d"])
qed

lemma draw_digits_length:
  assumes "random_ranges vm"
  shows "\<exists>ds. draw_digits vm n k = (Inr ds, k + n) \<and> list_all is_digit ds \<and> length ds = n"
proof (induction n arbitrary: k)
  case (Suc n)
  obtain ds where ds: "draw_digits vm n (k + 1) = (Inr ds, k + 1 + n)" "list_all is_digit ds" "length ds = n"
    using Suc by blast
  have "0 \<le> next_below vm k 10" "next_below vm k 10 < 10" using assms by (simp_all add: random_ranges_def)
  from digit_str [OF this] ds show ?case by (simp add: jbind_def draw_below_def)
qed simp

lemma until_close_skip:
  "list_all (\<lambda>c. c \<noteq> CHR ''}'' \<and> \<not> line_terminator c) w \<Longrightarrow>
     until_close (w @ s) = map_option (\<lambda>(e, r). (w @ e, r)) (until_close s)"
proof (induction w)
  case Nil
  show ?case by (cases "until_close s") auto
next
  case (Cons c w)
  then have "take 2 ((c # w) @ s) \<noteq> ''}}''" by auto
  with Cons show ?case by (cases "until_close s") auto
qed

lemma render_call:
  "find_expr t = Some ([], e, []) \<Longrightarrow> calc vm ctx e k = (Inr v, k') \<Longrightarrow> render_template vm ctx (Some t) k = (Inr (Some v), k')"
  by (simp add: render_template_def render_loop.simps [of vm ctx t] render_loop.simps [of vm ctx "[]"] jbind_def)

text \<open>A call without closing braces or line breaks, alone in its template.\<close>

lemma find_call:
  assumes "c \<noteq> CHR ''}''" and "list_all (\<lambda>c. c \<noteq> CHR ''}'' \<and> \<not> line_terminator c) (c # w)"
  shows "find_expr (''{{'' @ c # w @ ''}}'') = Some ([], c # w, [])"
  using assms by (simp add: until_close_skip)

lemma digits_plain:
  assumes "list_all is_digit ds"
  shows "list_all (\<lambda>c. c \<noteq> CHR ''}'' \<and> \<not> line_terminator c \<and> c \<noteq> CHR '','') ds"
proof -
  have "c \<noteq> CHR ''}'' \<and> \<not> line_terminator c \<and> c \<noteq> CHR '',''" if "is_digit c" for c
    using that by (auto simp: is_digit_def line_terminator_def)
  with assms show ?thesis by (auto simp: list_all_iff)
qed

lemma match_digits:
  "list_all is_digit ds \<Longrightarrow> match_function (''randomDigits('' @ ds @ '')'') = Some (''randomDigits'', ds)"
proof -
  assume d: "list_all is_digit ds"
  have n: "takeWhile name_char (''randomDigits'' @ CHR ''('' # ds @ '')'') = ''randomDigits''"
    "dropWhile name_char (''randomDigits'' @ CHR ''('' # ds @ '')'') = CHR ''('' # ds @ '')''"
    by (simp_all add: name_char_def char_between_def)
  have "\<not> list_ex line_terminator ds" using digits_plain [OF d] by (auto simp: list_all_iff list_ex_iff)
  with n show ?thesis by (simp add: match_function_def)
qed

lemma randomDigits_function: "exprFuncs vm ctx ''randomDigits'' = Some (\<lambda>ps. jbind (jlift (rbind (list_get ps 0) parseInt))
    (\<lambda>size. jbind (draw_digits vm (nat size)) (\<lambda>ds. jret (JStr ds))))"
  by (simp add: exprFuncs_def)

text \<open>
  \<open>{{randomDigits(n)}}\<close> renders to exactly n decimal digits, for every n an \<open>int\<close> holds.
\<close>
theorem random_digits_rendered:
  assumes "random_ranges vm" and "in_int (int n)"
  shows "\<exists>ds. render_template vm ctx (Some (''{{randomDigits('' @ nat_str n @ '')}}'')) k = (Inr (Some ds), k + n) \<and>
    list_all is_digit ds \<and> length ds = n"
proof -
  let ?e = "''randomDigits('' @ nat_str n @ '')''"
  obtain ds where ds: "draw_digits vm n k = (Inr ds, k + n)" "list_all is_digit ds" "length ds = n"
    using draw_digits_length [OF assms(1)] by blast
  have p: "list_all (\<lambda>c. c \<noteq> CHR ''}'' \<and> \<not> line_terminator c \<and> c \<noteq> CHR '','') (nat_str n)"
    by (rule digits_plain) simp
  then have "CHR '','' \<notin> set (nat_str n)" by (auto simp: list_all_iff)
  then have "split_params (nat_str n) = [nat_str n]" by (simp add: split_params_def java_split_def)
  then have c: "calc vm ctx ?e k = (Inr ds, k + n)"
    unfolding calc_def match_digits [OF nat_str_digits] option.case prod.case randomDigits_function
    using ds(1) parseInt_nat_str [OF assms(2)] by (simp add: list_get_def jbind_def)
  have "list_all (\<lambda>c. c \<noteq> CHR ''}'' \<and> \<not> line_terminator c) ?e"
    using p by (auto simp: list_all_iff line_terminator_def)
  then have f: "find_expr (''{{'' @ CHR ''r'' # (''andomDigits('' @ nat_str n @ '')'') @ ''}}'') =
      Some ([], CHR ''r'' # (''andomDigits('' @ nat_str n @ '')''), [])"
    by (intro find_call) simp_all
  have e: "?e = CHR ''r'' # (''andomDigits('' @ nat_str n @ '')'')"
    "''{{randomDigits('' @ nat_str n @ '')}}'' = ''{{'' @ CHR ''r'' # (''andomDigits('' @ nat_str n @ '')'') @ ''}}''" by simp_all
  have "render_template vm ctx (Some (''{{randomDigits('' @ nat_str n @ '')}}'')) k = (Inr (Some ds), k + n)"
    unfolding e(2) by (rule render_call [OF f c [unfolded e(1)]])
  with ds show ?thesis by blast
qed

definition demo_vm :: jvm where
  "demo_vm = \<lparr>next_int = \<lambda>k. - 7, next_below = \<lambda>k n. int k mod n, system_property = \<lambda>_. None, env_variable = (\<lambda>_. None)(''APP'' := Some ''a''),
     spring_environment = None, formatted_date = \<lambda>_. None, delay_text = \<lambda>_. ''0.0'', response_text = \<lambda>_. ''response'',
     library_message = \<lambda>_. None\<rparr>"

lemma demo_vm_ranges: "random_ranges demo_vm"
  by (simp add: random_ranges_def demo_vm_def in_int_def)

theorem random_digits_rendered_witness:
  "\<exists>ds. render_template demo_vm new_context (Some (''{{randomDigits('' @ nat_str 3 @ '')}}'')) 0 = (Inr (Some ds), 3) \<and> length ds = 3"
proof -
  have "in_int (int 3)" by (simp add: in_int_def)
  from random_digits_rendered [OF demo_vm_ranges this, of new_context 0] show ?thesis by auto
qed

text \<open>
  \<open>randomInt(left, right)\<close> checks its range and then ignores it: the value is any \<open>int\<close>.
\<close>

theorem random_range_ignored:
  "parseInt p = Inr l \<Longrightarrow> parseInt q = Inr r \<Longrightarrow> l < r \<Longrightarrow> randomInt vm [p, q] k = (Inr (JNum (int_str (next_int vm k))), k + 1)"
  by (simp add: randomInt_def draw_int_def jbind_def)

end
