(* ===== verification/CaseValidatorJava.thy ===== *)
theory CaseValidatorJava
  imports JavaBase
begin

text \<open>
  \<open>core/cases/CaseValidator.java\<close>: whether the result of a case is what the case expects. Regular
  expressions, the arithmetic of doubles and the names of classes are arguments.
\<close>

section \<open>The validator\<close>

text \<open>
  \<open>matches_re\<close> is \<open>None\<close> for a text that is no regular expression, \<open>parse_double\<close> for one that is
  no number; \<open>near\<close> is a distance below 0.005, \<open>double_value\<close> the value of a number by its text.
\<close>

record 'd platform =
  matches_re :: "string \<Rightarrow> string \<Rightarrow> bool option"
  parse_double :: "string \<Rightarrow> 'd option"
  double_value :: "string \<Rightarrow> 'd"
  below :: "'d \<Rightarrow> 'd \<Rightarrow> bool"
  at_most :: "'d \<Rightarrow> 'd \<Rightarrow> bool"
  near :: "'d \<Rightarrow> 'd \<Rightarrow> bool"
  class_name :: "jobj \<Rightarrow> string"

definition parseDouble :: "'d platform \<Rightarrow> string \<Rightarrow> java_error + 'd" where
  "parseDouble pf s = (case parse_double pf s of Some x \<Rightarrow> Inr x | None \<Rightarrow> Inl (NumberFormat s))"

definition matchOrEquals :: "'d platform \<Rightarrow> string \<Rightarrow> string \<Rightarrow> bool" where
  "matchOrEquals pf regex str \<longleftrightarrow> regex = str \<or> matches_re pf regex str = Some True"

definition validateNumber :: "'d platform \<Rightarrow> string \<Rightarrow> 'd \<Rightarrow> java_error + bool" where
  "validateNumber pf expect value =
     (if take 1 expect = '':''
      then rbind (parseDouble pf (drop 1 expect)) (\<lambda>max. Inr (below pf value max))
      else if expect \<noteq> [] \<and> last expect = CHR '':''
      then rbind (parseDouble pf (butlast expect)) (\<lambda>min. Inr (below pf min value))
      else if CHR '':'' \<in> set expect
      then (case java_split CHR '':'' expect of
            [a, b] \<Rightarrow> rbind (parseDouble pf a) (\<lambda>min. rbind (parseDouble pf b) (\<lambda>max.
              Inr (at_most pf min value \<and> at_most pf value max)))
          | _ \<Rightarrow> Inl (IllegalArgument (''not a number range: '' @ expect)))
      else rbind (parseDouble pf expect) (\<lambda>exact. Inr (near pf exact value)))"

definition validate_text :: "'d platform \<Rightarrow> string \<Rightarrow> jobj \<Rightarrow> java_error + bool" where
  "validate_text pf expect result = (case result of
      JStr s \<Rightarrow> Inr (matchOrEquals pf expect s)
    | JNum t \<Rightarrow> if matchOrEquals pf expect t then Inr True else validateNumber pf expect (double_value pf t)
    | _ \<Rightarrow> Inl (IllegalArgument (''can'' @ [CHR 0x27] @ ''t validate value for type '' @ [CHR 0x27] @ class_name pf result @
        [CHR 0x27] @ '' and expr '' @ [CHR 0x27] @ expect @ [CHR 0x27])))"

definition null_to_empty :: "jobj \<Rightarrow> jobj" where
  "null_to_empty result = (if result = JNull then JStr [] else result)"

text \<open>The entries of a result that is a map; the empty text stands for the empty map.\<close>

definition result_map :: "jobj \<Rightarrow> (string \<times> jobj) list option" where
  "result_map result = (case result of
      JStr s \<Rightarrow> if s = [] then Some [] else None
    | JMap rs \<Rightarrow> Some rs
    | _ \<Rightarrow> None)"

definition entry_value :: "(string \<times> jobj) list \<Rightarrow> string \<Rightarrow> jobj" where
  "entry_value rs k = (case map_of rs k of Some v \<Rightarrow> v | None \<Rightarrow> JNull)"

text \<open>A loop that returns \<open>false\<close> at the first element that is not valid.\<close>

primrec rall :: "('a \<Rightarrow> 'e + bool) \<Rightarrow> 'a list \<Rightarrow> 'e + bool" where
  "rall f [] = Inr True"
| "rall f (x # xs) = rbind (f x) (\<lambda>valid. if \<not> valid then Inr False else rall f xs)"

lemma rall_cong [fundef_cong]:
  "xs = ys \<Longrightarrow> (\<And>x. x \<in> set ys \<Longrightarrow> f x = g x) \<Longrightarrow> rall f xs = rall g ys"
proof -
  assume "xs = ys" and "\<And>x. x \<in> set ys \<Longrightarrow> f x = g x"
  then show "rall f xs = rall g ys" by (induction ys arbitrary: xs) (auto cong: if_cong)
qed

fun validate :: "'d platform \<Rightarrow> jobj \<Rightarrow> jobj \<Rightarrow> java_error + bool" where
  "validate pf JNull result = Inr True"
| "validate pf (JStr e) result = validate_text pf e (null_to_empty result)"
| "validate pf (JNum e) result = validate_text pf e (null_to_empty result)"
| "validate pf (JMap es) result = (case result_map (null_to_empty result) of
      None \<Rightarrow> Inr False
    | Some rs \<Rightarrow> if \<not> set (map fst rs) \<subseteq> set (map fst es) then Inr False
        else rall (\<lambda>(k, e). validate pf e (entry_value rs k)) es)"
| "validate pf expect result = Inl (IllegalState (''Unknown type: '' @ class_name pf expect))"

section \<open>Results that are expected as they are\<close>

lemma rall_true: "rall f xs = Inr True \<longleftrightarrow> (\<forall>x\<in>set xs. f x = Inr True)"
  by (induction xs) (auto simp: rbind_eq_Inr)

lemma rall_Inr: "(\<And>x. x \<in> set xs \<Longrightarrow> f x = Inr (P x)) \<Longrightarrow> rall f xs = Inr (\<forall>x\<in>set xs. P x)"
  by (induction xs) auto

text \<open>Values the validator knows: no lists and no booleans, maps with distinct keys.\<close>

fun checkable :: "jobj \<Rightarrow> bool" where
  "checkable (JList xs) \<longleftrightarrow> False"
| "checkable (JBool b) \<longleftrightarrow> False"
| "checkable (JMap ps) \<longleftrightarrow> distinct (map fst ps) \<and> list_all (\<lambda>(k, v). checkable v) ps"
| "checkable _ \<longleftrightarrow> True"

text \<open>
  A result that is expected literally is accepted: every value of texts, numbers, nulls and
  maps of them validates itself, however deep, whatever the texts mean as regular expressions.
\<close>
theorem validate_itself: "checkable r \<Longrightarrow> validate pf r r = Inr True"
proof (induction r)
  case (JMap ps)
  have "validate pf v (entry_value ps k) = Inr True" if p: "(k, v) \<in> set ps" for k v
  proof -
    have "entry_value ps k = v" using JMap.prems p by (simp add: entry_value_def)
    moreover have "checkable v" using JMap.prems p by (auto simp: list_all_iff)
    ultimately show ?thesis using JMap.IH [OF p, of v] by simp
  qed
  then show ?case by (auto simp: null_to_empty_def result_map_def rall_true)
qed (simp_all add: validate_text_def null_to_empty_def matchOrEquals_def)

section \<open>Statistics\<close>

text \<open>
  What is relied on of the platform for counts and ranges of natural numbers: decimal texts
  are parsed to the doubles next to their numbers, which are compared like the numbers as long
  as one of them is a count, an \<open>int\<close>, and a text of digits and colons is a regular expression
  for itself.
\<close>

definition is_count :: "nat \<Rightarrow> bool" where
  "is_count n \<longleftrightarrow> n < 2 ^ 31"

definition counts_ok :: "'d platform \<Rightarrow> (nat \<Rightarrow> 'd) \<Rightarrow> bool" where
  "counts_ok pf emb \<longleftrightarrow>
     (\<forall>n. parse_double pf (nat_str n) = Some (emb n) \<and> (is_count n \<longrightarrow> double_value pf (nat_str n) = emb n)) \<and>
     (\<forall>m n. is_count m \<or> is_count n \<longrightarrow> at_most pf (emb m) (emb n) = (m \<le> n)) \<and>
     (\<forall>e s. list_all (\<lambda>c. is_digit c \<or> c = CHR '':'') e \<longrightarrow> matches_re pf e s = Some (s = e))"

definition range_expect :: "nat \<times> nat \<Rightarrow> jobj" where
  "range_expect r = JStr (nat_str (fst r) @ '':'' @ nat_str (snd r))"

definition count_result :: "nat \<Rightarrow> jobj" where
  "count_result n = JNum (nat_str n)"

lemma no_colon: "list_all is_digit s \<Longrightarrow> CHR '':'' \<notin> set s"
  by (auto simp: list_all_iff is_digit_def)

lemma range_split: "java_split CHR '':'' (nat_str lo @ '':'' @ nat_str hi) = [nat_str lo, nat_str hi]"
proof -
  have "split_on CHR '':'' (nat_str lo @ '':'' @ nat_str hi) = [nat_str lo, nat_str hi]"
    by (simp add: split_on_append split_on_absent no_colon)
  then show ?thesis by (simp add: java_split_def)
qed

lemma range_number:
  assumes "counts_ok pf emb" and "is_count n"
  shows "validateNumber pf (nat_str lo @ '':'' @ nat_str hi) (emb n) = Inr (lo \<le> n \<and> n \<le> hi)"
proof -
  have p: "parseDouble pf (nat_str m) = Inr (emb m)" for m using assms by (simp add: parseDouble_def counts_ok_def)
  have le: "at_most pf (emb m) (emb k) \<longleftrightarrow> m \<le> k" if "is_count m \<or> is_count k" for m k
    using assms(1) that unfolding counts_ok_def by blast
  have c: "c \<noteq> CHR '':''" if "c \<in> set (nat_str m)" for c m using no_colon [OF nat_str_digits, of m] that by auto
  obtain d ds where d: "nat_str lo = d # ds" using nat_str_not_Nil by (meson neq_Nil_conv)
  then have "d \<noteq> CHR '':''" using c [of d lo] by simp
  moreover have "last (nat_str hi) \<noteq> CHR '':''" using c [of "last (nat_str hi)" hi] by simp
  moreover have "take 1 (nat_str lo @ '':'' @ nat_str hi) = [d]"
    "last (nat_str lo @ '':'' @ nat_str hi) = last (nat_str hi)" using d by simp_all
  ultimately show ?thesis
    unfolding validateNumber_def range_split using assms(2) by (simp add: p le)
qed

lemma range_validate:
  assumes "counts_ok pf emb"
  shows "is_count n \<Longrightarrow> validate pf (range_expect (lo, hi)) (count_result n) = Inr (lo \<le> n \<and> n \<le> hi)"
    "validate pf (range_expect (lo, hi)) JNull = Inr False"
proof -
  let ?e = "nat_str lo @ '':'' @ nat_str hi"
  have l: "list_all (\<lambda>c. is_digit c \<or> c = CHR '':'') ?e" using nat_str_digits by (auto simp: list_all_iff)
  then have m: "matches_re pf ?e s = Some (s = ?e)" for s using assms by (simp only: counts_ok_def)
  have "CHR '':'' \<in> set ?e" by simp
  then have "nat_str n \<noteq> ?e" using no_colon [OF nat_str_digits, of n] by metis
  with m have q: "\<not> matchOrEquals pf ?e (nat_str n)" "\<not> matchOrEquals pf ?e []" by (auto simp: matchOrEquals_def)
  show "validate pf (range_expect (lo, hi)) JNull = Inr False"
    using q by (simp add: range_expect_def validate_text_def null_to_empty_def)
  assume n: "is_count n"
  then have "double_value pf (nat_str n) = emb n" using assms by (simp add: counts_ok_def)
  with q show "validate pf (range_expect (lo, hi)) (count_result n) = Inr (lo \<le> n \<and> n \<le> hi)"
    using range_number [OF assms n, of lo hi]
    by (simp add: range_expect_def count_result_def validate_text_def null_to_empty_def)
qed

text \<open>
  The statistics of a repeated case, a count for every text that was returned, are accepted
  exactly if every expected text occurred with a count in its range and no other text did.
\<close>
theorem statistics_validated:
  assumes "counts_ok pf emb" and "distinct (map fst ranges)" and "list_all (\<lambda>(k, n). is_count n) counts"
  shows "validate pf (JMap (map (\<lambda>(k, r). (k, range_expect r)) ranges)) (JMap (map (\<lambda>(k, n). (k, count_result n)) counts)) =
    Inr (set (map fst counts) \<subseteq> set (map fst ranges) \<and>
      list_all (\<lambda>(k, lo, hi). case map_of counts k of Some n \<Rightarrow> lo \<le> n \<and> n \<le> hi | None \<Rightarrow> False) ranges)"
proof -
  let ?rs = "map (\<lambda>(k, n). (k, count_result n)) counts"
  have one: "validate pf (range_expect r) (entry_value ?rs k) =
      Inr (case map_of counts k of Some n \<Rightarrow> fst r \<le> n \<and> n \<le> snd r | None \<Rightarrow> False)" for k r
  proof (cases "map_of counts k")
    case (Some n)
    then have "is_count n" using assms(3) by (auto simp: list_all_iff dest: map_of_SomeD)
    then show ?thesis using Some range_validate(1) [OF assms(1), of n "fst r" "snd r"] by (simp add: entry_value_def map_of_map_snd)
  next
    case None
    then show ?thesis using range_validate(2) [OF assms(1), of "fst r" "snd r"] by (simp add: entry_value_def map_of_map_snd)
  qed
  have "rall (\<lambda>(k, e). validate pf e (entry_value ?rs k)) (map (\<lambda>(k, r). (k, range_expect r)) ranges) =
      Inr (\<forall>p\<in>set (map (\<lambda>(k, r). (k, range_expect r)) ranges). validate pf (snd p) (entry_value ?rs (fst p)) = Inr True)"
    by (intro rall_Inr) (auto simp: one)
  then show ?thesis
    by (auto simp: null_to_empty_def result_map_def list_all_iff image_image case_prod_beta one split: option.splits)
qed

text \<open>Natural numbers as doubles, and regular expressions that mean themselves.\<close>

definition counting :: "nat platform" where
  "counting = \<lparr>matches_re = \<lambda>e s. Some (s = e), parse_double = \<lambda>s. if s \<noteq> [] \<and> list_all is_digit s then Some (nat_val s) else None,
     double_value = nat_val, below = (<), at_most = (\<le>), near = (=), class_name = \<lambda>_. ''Object''\<rparr>"

lemma counting_ok: "counts_ok counting id"
  by (simp add: counts_ok_def counting_def)

theorem validate_itself_witness:
  "validate counting (JMap [(''a'', JStr ''[''), (''b'', JMap [(''c'', JNull)])]) (JMap [(''a'', JStr ''[''), (''b'', JMap [(''c'', JNull)])]) = Inr True"
  by (rule validate_itself) simp

theorem statistics_validated_witness:
  "validate counting (JMap [(''a|v1'', range_expect (40, 60)), (''a|v2'', range_expect (40, 60))])
     (JMap [(''a|v1'', count_result 45), (''a|v2'', count_result 55)]) = Inr True"
proof -
  have "distinct (map fst [(''a|v1'', 40 :: nat, 60 :: nat), (''a|v2'', 40, 60)])" by simp
  from statistics_validated [OF counting_ok this, of "[(''a|v1'', 45), (''a|v2'', 55)]"] show ?thesis by (simp add: is_count_def)
qed

text \<open>
  An expectation that is a list is refused as an unknown type, though a case that collects its
  results as a list returns one; so is a boolean.
\<close>

theorem lists_not_validated:
  "validate pf (JList xs) result = Inl (IllegalState (''Unknown type: '' @ class_name pf (JList xs)))"
  "validate pf (JStr e) (JList xs) = Inl (IllegalArgument (''can'' @ [CHR 0x27] @ ''t validate value for type '' @ [CHR 0x27] @
     class_name pf (JList xs) @ [CHR 0x27] @ '' and expr '' @ [CHR 0x27] @ e @ [CHR 0x27]))"
  by (simp_all add: validate_text_def null_to_empty_def)

end
