(* ===== verification/PowerfulServiceJava.thy ===== *)
theory PowerfulServiceJava
  imports StringRendererJava "HOL-Library.List_Lexorder"
begin

text \<open>
  \<open>core/service/PowerfulService.java\<close> with \<open>Instruction\<close> and \<open>PowerTraceNode\<close>: how a node executes
  the instruction it received, once or many times, and what it sends on. The nodes of an
  instruction are objects that are changed in place, so the instruction is part of the state.
  Remote invokers, clock, thread pool and JSON patches are arguments. A \<open>null\<close> trace and
  interrupted sleeps are not represented.
\<close>

section \<open>Instructions\<close>

text \<open>The delay is kept as the text of its double.\<close>

record PowerTraceNode =
  node_call :: "string option"
  node_by :: string
  node_method :: string
  node_code :: int
  node_headers :: "(string \<times> string) list option"
  node_responseHeaders :: "(string \<times> string) list"
  node_queries :: "(string \<times> string) list"
  node_callTestMethod :: "int option"
  node_delay :: string
  node_errorByPercent :: "int option"

definition new_node :: PowerTraceNode where
  "new_node = \<lparr>node_call = Some [], node_by = ''http'', node_method = ''POST'', node_code = 200, node_headers = Some [],
     node_responseHeaders = [], node_queries = [], node_callTestMethod = Some 0, node_delay = ''0.0'', node_errorByPercent = Some 0\<rparr>"

record Instruction =
  inst_trace :: "PowerTraceNode list"
  inst_times :: int
  inst_threads :: int
  inst_qps :: int
  inst_propagateHeaders :: "string option"
  inst_collectBy :: string
  inst_traceNodeTmpl :: string
  inst_log :: bool
  inst_rr :: "(string \<times> jobj list) list"

text \<open>The template of an instruction that names none, unless a system property does.\<close>

definition defaultTraceNodeTmpl :: string where
  "defaultTraceNodeTmpl = ''{{env(APP)}}|{{env(VERSION)}}({{statusCode()}})''"

definition currentNode :: "Instruction \<Rightarrow> PowerTraceNode option" where
  "currentNode i = (case inst_trace i of [] \<Rightarrow> None | node # _ \<Rightarrow> Some node)"

definition getNext :: "Instruction \<Rightarrow> Instruction option" where
  "getNext i = (if inst_trace i = [] then None
     else Some (i\<lparr>inst_trace := tl (inst_trace i), inst_times := 1, inst_threads := 1, inst_qps := 0\<rparr>))"

section \<open>The server\<close>

text \<open>
  \<open>due_millis executed qps threads\<close> is \<open>(long) (executed / (qps / threads) * 1000)\<close> in doubles,
  \<open>whole_millis\<close> the \<open>(int) (delay * 1000)\<close> of a delay, \<open>resolves\<close> whether \<open>HttpStatus\<close> knows a
  code. An invoker gets the number of its call. The pool is given the start and how often each of its tasks
  executes the instruction, and gives their results.
\<close>

type_synonym Result = "int \<times> string"

record run_state =
  instruction :: Instruction
  the_context :: RenderingContext
  draws :: nat
  clock_reads :: nat
  sleeps :: "int list"
  invocations :: "Instruction list"

type_synonym remote_invoker = "nat \<Rightarrow> Instruction \<Rightarrow> RenderingContext \<Rightarrow> java_error + PowerfulResponse"

record server =
  machine :: jvm
  nano_time :: "nat \<Rightarrow> int"
  due_millis :: "int \<Rightarrow> int \<Rightarrow> int \<Rightarrow> int"
  whole_millis :: "string \<Rightarrow> int"
  resolves :: "int \<Rightarrow> bool"
  invokers :: "string \<Rightarrow> remote_invoker option"
  patched :: "(string \<times> jobj) list \<Rightarrow> Instruction \<Rightarrow> java_error + Instruction"
  pool :: "int \<Rightarrow> int list \<Rightarrow> (run_state, Result list list) stm"
  average_text :: "int list \<Rightarrow> string"

section \<open>Basic statements\<close>

definition render_in :: "server \<Rightarrow> string option \<Rightarrow> (run_state, string option) stm" where
  "render_in srv t s = (case render_template (machine srv) (the_context s) t (draws s) of (r, k) \<Rightarrow> (r, s\<lparr>draws := k\<rparr>))"

definition nanoTime :: "server \<Rightarrow> (run_state, int) stm" where
  "nanoTime srv s = (Inr (nano_time srv (clock_reads s)), s\<lparr>clock_reads := clock_reads s + 1\<rparr>)"

definition draw :: "server \<Rightarrow> int \<Rightarrow> (run_state, int) stm" where
  "draw srv n s = (case draw_below (machine srv) n (draws s) of (r, k) \<Rightarrow> (r, s\<lparr>draws := k\<rparr>))"

definition sleep :: "int \<Rightarrow> (run_state, unit) stm" where
  "sleep millis s = (Inr (), s\<lparr>sleeps := sleeps s @ [millis]\<rparr>)"

definition on_context :: "(RenderingContext \<Rightarrow> RenderingContext) \<Rightarrow> (run_state, unit) stm" where
  "on_context f s = (Inr (), s\<lparr>the_context := f (the_context s)\<rparr>)"

text \<open>The node of number \<open>n\<close> is changed in place; there is one.\<close>

definition on_node :: "nat \<Rightarrow> (PowerTraceNode \<Rightarrow> PowerTraceNode) \<Rightarrow> (run_state, unit) stm" where
  "on_node n f s = (Inr (), s\<lparr>instruction := (instruction s)\<lparr>inst_trace :=
     (inst_trace (instruction s))[n := f (inst_trace (instruction s) ! n)]\<rparr>\<rparr>)"

definition get_message :: "server \<Rightarrow> java_error \<Rightarrow> string option" where
  "get_message srv e = (case e of
      IllegalArgument m \<Rightarrow> Some m
    | IllegalState m \<Rightarrow> Some m
    | RuntimeException m \<Rightarrow> Some m
    | Wrapped m _ \<Rightarrow> Some m
    | _ \<Rightarrow> library_message (machine srv) e)"

section \<open>One execution\<close>

text \<open>
  The headers named in \<open>propagateHeaders\<close> that the request has and the node does not set itself
  are added to the node.
\<close>

definition propagated :: "string \<Rightarrow> (string \<times> string) list \<Rightarrow> (string \<times> string) list option \<Rightarrow> (string \<times> string) list" where
  "propagated names request own =
     map (\<lambda>n. (n, the (map_of request n)))
       (filter (\<lambda>n. n \<in> fst ` set request \<and> (case own of Some hs \<Rightarrow> n \<notin> fst ` set hs | None \<Rightarrow> True))
         (remdups (java_split CHR '','' names)))"

definition propagate_headers :: "(run_state, unit) stm" where
  "propagate_headers s = (case (requestHeaders (the_context s), inst_propagateHeaders (instruction s)) of
      (Some request, Some names) \<Rightarrow>
        if names = [] then (Inr (), s)
        else (case currentNode (instruction s) of
            None \<Rightarrow> (Inl NullPointer, s)
          | Some node \<Rightarrow>
              let new = propagated names request (node_headers node)
              in if new = [] then (Inr (), s)
                 else on_node 0 (\<lambda>n. n\<lparr>node_headers := Some ((case node_headers n of Some hs \<Rightarrow> hs | None \<Rightarrow> []) @ new)\<rparr>) s)
    | _ \<Rightarrow> (Inr (), s))"

text \<open>\<open>put\<close> of a key the map has.\<close>

definition put_value :: "string \<Rightarrow> string \<Rightarrow> (string \<times> string) list \<Rightarrow> (string \<times> string) list" where
  "put_value k v hs = map (\<lambda>(k', v'). (k', if k' = k then v else v')) hs"

text \<open>Each header is rendered and written back before the next one is.\<close>

fun render_header_keys :: "server \<Rightarrow> (string \<times> string) list \<Rightarrow> (run_state, unit) stm" where
  "render_header_keys srv [] = jret ()"
| "render_header_keys srv ((k, v) # hs) = jbind (render_in srv (Some v)) (\<lambda>t.
     jbind (on_context (\<lambda>c. c\<lparr>requestHeaders := map_option (put_value k (case t of Some x \<Rightarrow> x | None \<Rightarrow> [])) (requestHeaders c)\<rparr>))
       (\<lambda>_. render_header_keys srv hs))"

definition renderHeaders :: "server \<Rightarrow> (run_state, unit) stm" where
  "renderHeaders srv s = (case requestHeaders (the_context s) of
      Some hs \<Rightarrow> render_header_keys srv hs s
    | None \<Rightarrow> (Inr (), s))"

text \<open>\<open>String.format("method%02d", i)\<close> and the method, which returns the two digits.\<close>

definition test_method :: "int \<Rightarrow> string" where
  "test_method i = (if i < 10 then ''0'' @ int_str i else int_str i)"

definition invokeTestMethod :: "server \<Rightarrow> (run_state, unit) stm" where
  "invokeTestMethod srv s = (case currentNode (instruction s) of
      None \<Rightarrow> (Inl NullPointer, s)
    | Some node \<Rightarrow> (case node_callTestMethod node of
          None \<Rightarrow> (Inr (), s)
        | Some n \<Rightarrow>
            if n = 0 then (Inr (), s)
            else if n > 100 \<or> n < 0 then (Inl (IllegalArgument (''invokeTestMethod: illegal n: '' @ int_str n)), s)
            else jbind (draw srv n) (\<lambda>i. on_context (\<lambda>c. c\<lparr>invokeResult := Some (test_method i)\<rparr>)) s))"

definition node_statement :: "(PowerTraceNode \<Rightarrow> (run_state, unit) stm) \<Rightarrow> (run_state, unit) stm" where
  "node_statement f s = (case currentNode (instruction s) of None \<Rightarrow> (Inl NullPointer, s) | Some node \<Rightarrow> f node s)"

definition delay :: "server \<Rightarrow> PowerTraceNode \<Rightarrow> (run_state, unit) stm" where
  "delay srv node = (if whole_millis srv (node_delay node) > 0 then sleep (whole_millis srv (node_delay node)) else jret ())"

definition errorByPercent :: "server \<Rightarrow> PowerTraceNode \<Rightarrow> (run_state, unit) stm" where
  "errorByPercent srv node = (case node_errorByPercent node of
      None \<Rightarrow> jthrow NullPointer
    | Some p \<Rightarrow> if p > 0
        then jbind (draw srv 100) (\<lambda>i. if i < p then jthrow (RuntimeException ''Random Error.'') else jret ())
        else jret ())"

definition status_code :: "server \<Rightarrow> PowerTraceNode \<Rightarrow> (run_state, unit) stm" where
  "status_code srv node =
     (if node_code node \<noteq> 200
      then if resolves srv (node_code node) then jthrow (StatusCode (node_code node))
           else jthrow (IllegalArgument (''Status unsupported: '' @ int_str (node_code node)))
      else jret ())"

text \<open>
  \<open>call\<close> on the next instruction, whose first node is the second of this one, the same object:
  its address is rendered in place, an empty address is not called.
\<close>

definition call :: "server \<Rightarrow> Instruction option \<Rightarrow> (run_state, unit) stm" where
  "call srv next s = (case next of
      None \<Rightarrow> (Inr (), s)
    | Some i \<Rightarrow> (case currentNode i of
          None \<Rightarrow> (Inr (), s)
        | Some node \<Rightarrow>
            let dubbo = ''dubbo://'';
                s1 = (case node_call node of
                    Some c \<Rightarrow> if take (length dubbo) c = dubbo
                      then snd (on_node 1 (\<lambda>n. n\<lparr>node_call := Some (drop (length dubbo) c), node_by := ''dubbo''\<rparr>) s) else s
                  | None \<Rightarrow> s);
                node1 = inst_trace (instruction s1) ! 1
            in (case invokers srv (node_by node1) of
                None \<Rightarrow> (Inl (IllegalState (''Protocol not supported in this instance: '' @ [CHR 0x27] @ node_by node1 @ [CHR 0x27])), s1)
              | Some invoke \<Rightarrow>
                  jbind (render_in srv (node_call node1)) (\<lambda>c.
                  jbind (on_node 1 (\<lambda>n. n\<lparr>node_call := c\<rparr>)) (\<lambda>_ s2.
                    if c = None \<or> c = Some [] then (Inr (), s2)
                    else let sent = i\<lparr>inst_trace := (inst_trace (instruction s2) ! 1) # tl (inst_trace i)\<rparr>;
                             s3 = s2\<lparr>invocations := invocations s2 @ [sent]\<rparr>
                         in jbind (jlift (invoke (length (invocations s2)) sent (the_context s2)))
                              (\<lambda>r. on_context (\<lambda>c. c\<lparr>response := Some r\<rparr>)) s3)) s1)))"

definition doExecuteSingle :: "server \<Rightarrow> (run_state, unit) stm" where
  "doExecuteSingle srv =
     jbind propagate_headers (\<lambda>_.
     jbind (renderHeaders srv) (\<lambda>_.
     jbind (invokeTestMethod srv) (\<lambda>_.
     jbind (node_statement (delay srv)) (\<lambda>_.
     jbind (node_statement (errorByPercent srv)) (\<lambda>_.
     jbind (node_statement (status_code srv)) (\<lambda>_ s.
     call srv (getNext (instruction s)) s))))))"

section \<open>Round-robin values\<close>

definition slashes :: "string \<Rightarrow> string" where
  "slashes key = map (\<lambda>c. if c = CHR ''.'' then CHR ''/'' else c) key"

definition patch_entry :: "nat \<Rightarrow> string \<times> jobj list \<Rightarrow> java_error + (string \<times> jobj)" where
  "patch_entry i entry = (case entry of (key, values) \<Rightarrow>
     if values = [] then Inl DivisionByZero else Inr (''/'' @ slashes key, values ! (i mod length values)))"

text \<open>\<open>None\<close>: the instruction itself; otherwise a patched copy.\<close>

definition processLoop :: "server \<Rightarrow> Instruction \<Rightarrow> nat \<Rightarrow> java_error + Instruction option" where
  "processLoop srv i n =
     (if inst_rr i = [] then Inr None
      else rbind (rmap (patch_entry n) (inst_rr i)) (\<lambda>patches. rbind (patched srv patches i) (\<lambda>i'. Inr (Some i'))))"

text \<open>A statement on a copy of the instruction: what it does to the nodes is lost.\<close>

definition on_copy :: "Instruction \<Rightarrow> (run_state, 'a) stm \<Rightarrow> (run_state, 'a) stm" where
  "on_copy i m s = (case m (s\<lparr>instruction := i\<rparr>) of (r, s') \<Rightarrow> (r, s'\<lparr>instruction := instruction s\<rparr>))"

section \<open>\<open>executeSingle\<close>\<close>

definition jdiv :: "int \<Rightarrow> int \<Rightarrow> int" where
  "jdiv a b = sgn a * sgn b * (\<bar>a\<bar> div \<bar>b\<bar>)"

definition template :: "Instruction \<Rightarrow> string" where
  "template i = (if length (inst_trace i) < 2 then inst_traceNodeTmpl i else inst_traceNodeTmpl i @ '' -> {{resultBody()}}'')"

text \<open>The rate is given as queries per second over threads; zero means no limit.\<close>

definition wait_time :: "server \<Rightarrow> int \<times> int \<Rightarrow> int \<Rightarrow> nat \<Rightarrow> (run_state, int) stm" where
  "wait_time srv rate startTime executed =
     (if fst rate = 0 then jret 0
      else jbind (nanoTime srv) (\<lambda>now. jret (due_millis srv (int executed) (fst rate) (snd rate) - jdiv (now - startTime) 1000000)))"

definition attempt :: "server \<Rightarrow> nat \<Rightarrow> (run_state, unit) stm" where
  "attempt srv executed s = (case processLoop srv (instruction s) executed of
      Inl e \<Rightarrow> (Inl e, s)
    | Inr None \<Rightarrow> doExecuteSingle srv s
    | Inr (Some i) \<Rightarrow> on_copy i (doExecuteSingle srv) s)"

definition caught :: "server \<Rightarrow> bool \<Rightarrow> string \<Rightarrow> java_error \<Rightarrow> (run_state, unit) stm" where
  "caught srv handleException tmpl e =
     (if handleException
      then on_context (\<lambda>c. c\<lparr>response := Some \<lparr>resp_headers = [], resp_result = text_or_null (get_message srv e), resp_status = Some ''200''\<rparr>\<rparr>)
      else jbind (render_in srv (Some tmpl)) (\<lambda>t. jthrow (Wrapped
        ((case t of Some x \<Rightarrow> x | None \<Rightarrow> ''null'') @ '': '' @ (case get_message srv e of Some m \<Rightarrow> m | None \<Rightarrow> ''null'')) e)))"

definition executeSingle :: "server \<Rightarrow> bool \<Rightarrow> int \<times> int \<Rightarrow> int \<Rightarrow> nat \<Rightarrow> (run_state, Result) stm" where
  "executeSingle srv handleException rate startTime executed s =
     (let tmpl = template (instruction s)
      in jbind (wait_time srv rate startTime executed) (\<lambda>wait.
         jbind (if wait \<ge> 5 then sleep wait else jret ()) (\<lambda>_.
         jbind (nanoTime srv) (\<lambda>requestStarts.
         jbind (jfinally (jcatch (attempt srv executed) (caught srv handleException tmpl))
             (jbind (nanoTime srv) (\<lambda>now. on_context (\<lambda>c. c\<lparr>delay_nanos := now - requestStarts\<rparr>)))) (\<lambda>_.
         jbind (render_in srv (Some tmpl)) (\<lambda>t s'.
         (Inr (delay_nanos (the_context s'), case t of Some x \<Rightarrow> x | None \<Rightarrow> []), s')))))) s)"

section \<open>Repetitions\<close>

fun executions :: "server \<Rightarrow> int \<times> int \<Rightarrow> int \<Rightarrow> nat \<Rightarrow> nat \<Rightarrow> (run_state, Result list) stm" where
  "executions srv rate startTime i 0 = jret []"
| "executions srv rate startTime i (Suc n) =
     jbind (executeSingle srv True rate startTime i) (\<lambda>r.
     jbind (executions srv rate startTime (i + 1) n) (\<lambda>rs. jret (r # rs)))"

text \<open>How often thread \<open>i\<close> executes.\<close>

definition thread_times :: "int \<Rightarrow> int \<Rightarrow> int \<Rightarrow> int" where
  "thread_times totalTimes threads i = totalTimes div threads + (if i < totalTimes mod threads then 1 else 0)"

text \<open>
  \<open>wanted\<close>: whether something collects the stream. A stream nobody collects runs nothing; the
  tasks of the pool run anyway, but nobody asks for their results, or waits for them (here
  they are over when the statement is). What submitting a task throws is thrown at once.
\<close>

definition from_task :: "java_error \<Rightarrow> bool" where
  "from_task e \<longleftrightarrow> (case e of TaskFailed _ \<Rightarrow> True | _ \<Rightarrow> False)"

definition collect_tasks :: "bool \<Rightarrow> (run_state, Result list list) stm \<Rightarrow> (run_state, Result list) stm" where
  "collect_tasks wanted tasks s = (case tasks s of
      (Inr rss, s') \<Rightarrow> (Inr (if wanted then concat rss else []), s')
    | (Inl e, s') \<Rightarrow> (if wanted \<or> \<not> from_task e then Inl e else Inr [], s'))"

lemma collect_tasks_Inr: "collect_tasks True tasks s = (Inr rs, s') \<longleftrightarrow> (\<exists>rss. tasks s = (Inr rss, s') \<and> rs = concat rss)"
  by (cases "tasks s"; cases "fst (tasks s)") (auto simp: collect_tasks_def)

definition executeForTimes :: "server \<Rightarrow> bool \<Rightarrow> (run_state, Result list) stm" where
  "executeForTimes srv wanted s =
     (let i = instruction s; totalTimes = inst_times i; threads = inst_threads i
      in jbind (nanoTime srv) (\<lambda>startTime.
           if threads > 1
           then collect_tasks wanted (pool srv startTime (map (thread_times totalTimes threads \<circ> int) [0..<nat threads]))
           else if wanted then executions srv (inst_qps i, 1) startTime 0 (nat totalTimes)
           else jret []) s)"

definition to_int32 :: "int \<Rightarrow> int" where
  "to_int32 x = (x + 2 ^ 31) mod 2 ^ 32 - 2 ^ 31"

definition quantile_index :: "nat \<Rightarrow> int \<Rightarrow> int" where
  "quantile_index n quantile =
     min (max (to_int32 (to_int32 (jdiv (int n * quantile) 1000) - 1)) 0) (int n - 1)"

definition stat_value :: "server \<Rightarrow> string \<Rightarrow> int list \<Rightarrow> java_error + jobj" where
  "stat_value srv stat delays =
     (if stat = ''count'' then Inr (JNum (nat_str (length delays)))
      else if stat = ''avg'' then Inr (JNum (average_text srv delays))
      else rbind (parseInt stat) (\<lambda>quantile.
        Inr (JNum (delay_text (machine srv) (sort delays ! nat (quantile_index (length delays) quantile))))))"

text \<open>\<open>TreeMap\<close>: the texts in ascending order of their characters, each with the statistics of its executions.\<close>

definition char_codes :: "string \<Rightarrow> nat list" where
  "char_codes s = map of_char s"

definition group_results :: "server \<Rightarrow> string \<Rightarrow> Result list \<Rightarrow> java_error + jobj" where
  "group_results srv stat results =
     rbind (rmap (\<lambda>k. rbind (stat_value srv stat (map fst (filter (\<lambda>r. snd r = k) results))) (\<lambda>v. Inr (k, v)))
         (sort_key char_codes (remdups (map snd results))))
       (\<lambda>entries. Inr (JMap entries))"

definition newline :: string where
  "newline = [CHR 0x0A]"

definition collects :: "string \<Rightarrow> bool" where
  "collects collectBy \<longleftrightarrow> collectBy = ''list'' \<or> collectBy = ''string'' \<or> take 5 collectBy = ''stat_''"

definition collect_results :: "server \<Rightarrow> string \<Rightarrow> Result list \<Rightarrow> java_error + jobj" where
  "collect_results srv collectBy results =
     (if collectBy = ''list'' then Inr (JList (map (JStr \<circ> snd) results))
      else if collectBy = ''string'' then Inr (JStr (join_with newline (map snd results) @ newline))
      else if take 5 collectBy = ''stat_'' then group_results srv (drop 5 collectBy) results
      else Inr JNull)"

text \<open>\<open>context.getResult().result = result\<close>\<close>

definition set_result :: "jobj \<Rightarrow> (run_state, unit) stm" where
  "set_result v s = (case response (the_context s) of
      None \<Rightarrow> (Inl NullPointer, s)
    | Some r \<Rightarrow> on_context (\<lambda>c. c\<lparr>response := Some (r\<lparr>resp_result := v\<rparr>)\<rparr>) s)"

fun render_response_headers :: "server \<Rightarrow> (string \<times> string) list \<Rightarrow> (run_state, unit) stm" where
  "render_response_headers srv [] = jret ()"
| "render_response_headers srv ((k, v) # hs) = jbind (render_in srv (Some v)) (\<lambda>t.
     jbind (on_node 0 (\<lambda>n. n\<lparr>node_responseHeaders := put_value k (case t of Some x \<Rightarrow> x | None \<Rightarrow> []) (node_responseHeaders n)\<rparr>))
       (\<lambda>_. render_response_headers srv hs))"

definition execute :: "server \<Rightarrow> (run_state, jobj) stm" where
  "execute srv s =
     (if inst_times (instruction s) \<le> 1
      then jbind (executeSingle srv False (0, 1) 0 0) (\<lambda>r. jbind (set_result (JStr (snd r))) (\<lambda>_. jret (JStr (snd r)))) s
      else let collectBy = inst_collectBy (instruction s)
           in jbind (executeForTimes srv (collects collectBy)) (\<lambda>results.
              jbind (jlift (collect_results srv collectBy results)) (\<lambda>result.
              jbind (set_result result) (\<lambda>_.
              jbind (\<lambda>s1. case currentNode (instruction s1) of
                  None \<Rightarrow> (Inl NullPointer, s1)
                | Some node \<Rightarrow> render_response_headers srv (node_responseHeaders node) s1) (\<lambda>_.
              jret result)))) s)"

end
