(* ===== verification/ServiceProps.thy ===== *)
theory ServiceProps
  imports PowerfulServiceJava TemplateProps
begin

text \<open>
  What the execution of instructions guarantees: every repetition is done and counted once,
  quantiles are measured delays, headers are propagated as named, a failing node calls nobody,
  and what a node sends on is always shorter than what it received.
\<close>

section \<open>A server for the examples\<close>

definition demo_server :: server where
  "demo_server = \<lparr>machine = demo_vm, nano_time = \<lambda>k. int k * 1000000, due_millis = \<lambda>e q t. 0, whole_millis = \<lambda>_. 0,
     resolves = \<lambda>c. c = 404,
     invokers = \<lambda>by. if by = ''http'' then Some (\<lambda>k i c. Inr \<lparr>resp_headers = [], resp_result = JStr ''v1'', resp_status = Some ''200''\<rparr>) else None,
     patched = \<lambda>_ i. Inr i, pool = \<lambda>st ts. jret (map (\<lambda>t. replicate (nat t) (0, ''x'')) ts), average_text = \<lambda>_. ''0.0''\<rparr>"

definition demo_instruction :: "int \<Rightarrow> Instruction" where
  "demo_instruction n = \<lparr>inst_trace = [new_node, new_node\<lparr>node_call := Some ''b''\<rparr>], inst_times = n, inst_threads = 1, inst_qps = 0,
     inst_propagateHeaders = Some ''x-env,x-id'', inst_collectBy = ''stat_count'', inst_traceNodeTmpl = ''{{env(APP)}}'', inst_log = True,
     inst_rr = []\<rparr>"

definition demo_state :: "Instruction \<Rightarrow> run_state" where
  "demo_state i = \<lparr>instruction = i, the_context = new_context\<lparr>requestHeaders := Some [(''x-env'', ''dev'')]\<rparr>, draws = 0, clock_reads = 0,
     sleeps = [], invocations = []\<rparr>"

section \<open>Distribution over threads\<close>

lemma sum_threads: "(\<Sum>i\<leftarrow>[0..<n]. if int i < m then c + 1 else c) = int n * c + min (int n) (max m 0)"
proof (induction n)
  case (Suc n)
  then show ?case by (auto simp: algebra_simps min_def max_def)
qed simp

lemma threads_total:
  assumes "0 < threads"
  shows "(\<Sum>i\<leftarrow>[0..<nat threads]. thread_times n threads (int i)) = n"
proof -
  have m: "0 \<le> n mod threads" "n mod threads < threads" using assms by simp_all
  have "(\<Sum>i\<leftarrow>[0..<nat threads]. thread_times n threads (int i)) =
      (\<Sum>i\<leftarrow>[0..<nat threads]. if int i < n mod threads then n div threads + 1 else n div threads)"
    unfolding thread_times_def by (rule arg_cong [of _ _ sum_list], rule map_cong) auto
  also have "\<dots> = threads * (n div threads) + n mod threads"
    unfolding sum_threads using assms m by simp
  finally show ?thesis by simp
qed

lemma thread_times_nonneg: "0 < threads \<Longrightarrow> 0 \<le> n \<Longrightarrow> 0 \<le> thread_times n threads i"
  by (simp add: thread_times_def pos_imp_zdiv_nonneg_iff)

section \<open>Results are counted\<close>

lemma sum_nat: "(\<And>x. x \<in> set ts \<Longrightarrow> 0 \<le> x) \<Longrightarrow> int (sum_list (map nat ts)) = sum_list ts"
  by (induction ts) auto

text \<open>What is relied on of the pool: the result of a task has one entry for each of its executions.\<close>

definition pool_law :: "server \<Rightarrow> bool" where
  "pool_law srv \<longleftrightarrow> (\<forall>st ts s rss s'. pool srv st ts s = (Inr rss, s') \<longrightarrow> map length rss = map nat ts)"

lemma executions_length: "executions srv rate st i n s = (Inr rs, s') \<Longrightarrow> length rs = n"
proof (induction n arbitrary: i s rs s')
  case (Suc n)
  from Suc.prems show ?case
    unfolding executions.simps jbind_Inr_iff jret_def using Suc.IH by auto
qed simp

lemma executeForTimes_length:
  assumes "pool_law srv" and "1 < inst_times (instruction s)" and "executeForTimes srv True s = (Inr rs, s')"
  shows "int (length rs) = inst_times (instruction s)"
proof -
  let ?n = "inst_times (instruction s)" and ?t = "inst_threads (instruction s)"
  show ?thesis
  proof (cases "1 < ?t")
    case True
    let ?ts = "map (thread_times ?n ?t \<circ> int) [0..<nat ?t]"
    from True assms(3) obtain st u rss where p: "pool srv st ?ts u = (Inr rss, s')" and rs: "rs = concat rss"
      unfolding executeForTimes_def Let_def jbind_Inr_iff by (auto simp: collect_tasks_Inr)
    have "length rs = sum_list (map nat ?ts)"
      using assms(1) p unfolding pool_law_def rs length_concat by metis
    moreover have "int (sum_list (map nat ?ts)) = sum_list ?ts"
      using thread_times_nonneg [of ?t ?n] True assms(2) by (intro sum_nat) auto
    ultimately show ?thesis using threads_total [of ?t ?n] True by (simp add: comp_def)
  next
    case False
    with assms(3) obtain u where "executions srv (inst_qps (instruction s), 1) u 0 (nat ?n) (s\<lparr>clock_reads := clock_reads s + 1\<rparr>) = (Inr rs, s')"
      unfolding executeForTimes_def Let_def by (auto simp: jbind_Inr_iff nanoTime_def)
    from executions_length [OF this] assms(2) show ?thesis by simp
  qed
qed

definition group_counts :: "Result list \<Rightarrow> (string \<times> nat) list" where
  "group_counts results = map (\<lambda>k. (k, length (filter (\<lambda>r. snd r = k) results))) (sort_key char_codes (remdups (map snd results)))"

lemma group_count: "group_results srv ''count'' results = Inr (JMap (map (\<lambda>(k, n). (k, JNum (nat_str n))) (group_counts results)))"
proof -
  have "rmap (\<lambda>k. rbind (stat_value srv ''count'' (map fst (filter (\<lambda>r. snd r = k) results))) (\<lambda>v. Inr (k, v))) ks =
      Inr (map (\<lambda>k. (k, JNum (nat_str (length (filter (\<lambda>r. snd r = k) results))))) ks)" for ks
    by (rule rmap_Inr_map) (simp add: stat_value_def)
  then show ?thesis by (simp add: group_results_def group_counts_def comp_def)
qed

lemma count_one: "distinct ks \<Longrightarrow> x \<in> set ks \<Longrightarrow> (\<Sum>k\<leftarrow>ks. of_bool (x = k)) = (1 :: nat)"
proof (induction ks)
  case (Cons k ks)
  have "(\<Sum>k\<leftarrow>ks. of_bool (x = k)) = (0 :: nat)" if "x \<notin> set ks" using that by (induction ks) auto
  with Cons show ?case by auto
qed simp

lemma count_partition:
  "distinct ks \<Longrightarrow> set (map snd results) \<subseteq> set ks \<Longrightarrow> (\<Sum>k\<leftarrow>ks. length (filter (\<lambda>r. snd r = k) results)) = length results"
proof (induction results)
  case (Cons r results)
  have "(\<Sum>k\<leftarrow>ks. length (filter (\<lambda>x. snd x = k) (r # results))) =
      (\<Sum>k\<leftarrow>ks. of_bool (snd r = k) + length (filter (\<lambda>x. snd x = k) results))"
    by (rule arg_cong [of _ _ sum_list], rule map_cong) auto
  also have "\<dots> = (\<Sum>k\<leftarrow>ks. of_bool (snd r = k)) + length results"
    using Cons by (simp add: sum_list_addf)
  also have "(\<Sum>k\<leftarrow>ks. of_bool (snd r = k)) = (1 :: nat)"
    using Cons.prems by (intro count_one) auto
  finally show ?case by simp
qed simp

lemma group_counts_props:
  "distinct (map fst (group_counts results))" "(\<Sum>p\<leftarrow>group_counts results. snd p) = length results"
proof -
  let ?ks = "sort_key char_codes (remdups (map snd results))"
  show "distinct (map fst (group_counts results))" by (simp add: group_counts_def comp_def)
  show "(\<Sum>p\<leftarrow>group_counts results. snd p) = length results"
    using count_partition [of ?ks results] by (simp add: group_counts_def comp_def)
qed

text \<open>A repeated instruction that returns has run, and its results have been collected.\<close>

lemma execute_repeated:
  assumes "execute srv s = (Inr result, s')" and "\<not> inst_times (instruction s) \<le> 1"
  shows "\<exists>rs u. executeForTimes srv (collects (inst_collectBy (instruction s))) s = (Inr rs, u) \<and>
    collect_results srv (inst_collectBy (instruction s)) rs = Inr result"
proof -
  let ?c = "inst_collectBy (instruction s)"
  obtain rs u v where e: "executeForTimes srv (collects ?c) s = (Inr rs, u)" "jlift (collect_results srv ?c rs) u = (Inr result, v)"
    using assms unfolding execute_def Let_def if_not_P [OF assms(2)] jbind_Inr_iff by (auto simp del: jlift_simp)
  then show ?thesis by auto
qed

text \<open>
  A case repeated n times is executed n times and every execution is counted once, however
  many threads share the work: the statistics returned for \<open>stat_count\<close> list every returned
  text once, and their counts add up to n. Executions that fail are counted too.
\<close>
theorem every_execution_counted:
  assumes "pool_law srv" and "1 < inst_times (instruction s)" and "inst_collectBy (instruction s) = ''stat_count''"
    and "execute srv s = (Inr result, s')"
  shows "\<exists>counts. result = JMap (map (\<lambda>(k, n). (k, JNum (nat_str n))) counts) \<and> distinct (map fst counts) \<and>
    int (\<Sum>p\<leftarrow>counts. snd p) = inst_times (instruction s)"
proof -
  have c: "collects ''stat_count''" "collect_results srv ''stat_count'' rs = group_results srv ''count'' rs" for rs
    by (simp_all add: collects_def collect_results_def)
  have "\<not> inst_times (instruction s) \<le> 1" using assms(2) by simp
  from execute_repeated [OF assms(4) this] c obtain rs u where e: "executeForTimes srv True s = (Inr rs, u)"
    and r: "group_results srv ''count'' rs = Inr result" unfolding assms(3) c by auto
  have "result = JMap (map (\<lambda>(k, n). (k, JNum (nat_str n))) (group_counts rs))" using r by (simp add: group_count)
  moreover have "int (\<Sum>p\<leftarrow>group_counts rs. snd p) = inst_times (instruction s)"
    using executeForTimes_length [OF assms(1,2) e] by (simp add: group_counts_props)
  ultimately show ?thesis using group_counts_props(1) by blast
qed

lemma demo_pool: "pool_law demo_server"
  by (simp add: pool_law_def demo_server_def comp_def)

lemma demo_execute: "fst (execute demo_server (demo_state (demo_instruction 3))) = Inr (JMap [(''a -> v1'', JNum ''3'')])"
  by code_simp

theorem every_execution_counted_witness:
  "\<exists>counts. JMap [(''a -> v1'', JNum ''3'')] = JMap (map (\<lambda>(k, n). (k, JNum (nat_str n))) counts) \<and>
    int (\<Sum>p\<leftarrow>counts. snd p) = 3"
proof -
  obtain s' where e: "execute demo_server (demo_state (demo_instruction 3)) = (Inr (JMap [(''a -> v1'', JNum ''3'')]), s')"
    using demo_execute by (cases "execute demo_server (demo_state (demo_instruction 3))") simp
  have "1 < inst_times (instruction (demo_state (demo_instruction 3)))"
    "inst_collectBy (instruction (demo_state (demo_instruction 3))) = ''stat_count''"
    by (simp_all add: demo_state_def demo_instruction_def)
  moreover have "inst_times (instruction (demo_state (demo_instruction 3))) = 3" by (simp add: demo_state_def demo_instruction_def)
  ultimately show ?thesis using every_execution_counted [OF demo_pool _ _ e] by metis
qed

section \<open>Quantiles\<close>

lemma quantile_range: "0 < n \<Longrightarrow> 0 \<le> quantile_index n q \<and> quantile_index n q < int n"
  by (auto simp: quantile_index_def)

lemma int32_id: "in_int x \<Longrightarrow> to_int32 x = x"
  by (simp add: to_int32_def in_int_def)

lemma quantile_rank:
  assumes "0 < n" and "int n < 2 ^ 31" and "0 \<le> q" and "q \<le> 1000"
  shows "quantile_index n q = max (int n * q div 1000 - 1) 0"
proof -
  have "int n * q \<le> int n * 1000" using assms by (intro mult_left_mono) simp_all
  then have le: "int n * q div 1000 \<le> int n" using zdiv_mono1 [of "int n * q" "int n * 1000" 1000] by simp
  have "0 \<le> int n * q" using assms by simp
  then have ge: "0 \<le> int n * q div 1000" by simp
  have d: "jdiv (int n * q) 1000 = int n * q div 1000"
    using \<open>0 \<le> int n * q\<close> by (cases "int n * q = 0") (auto simp: jdiv_def sgn_if)
  have "in_int (int n * q div 1000)" "in_int (int n * q div 1000 - 1)"
    using le ge assms(2) unfolding in_int_def by linarith+
  then have "quantile_index n q = min (max (int n * q div 1000 - 1) 0) (int n - 1)"
    unfolding quantile_index_def d by (simp add: int32_id)
  with le assms(1) show ?thesis by (auto simp: min_def max_def)
qed

lemma sorted_rank: "sorted xs \<Longrightarrow> i < length xs \<Longrightarrow> i < length (filter (\<lambda>x. x \<le> xs ! i) xs)"
proof -
  assume s: "sorted xs" "i < length xs"
  have "filter (\<lambda>x. x \<le> xs ! i) xs = filter (\<lambda>x. x \<le> xs ! i) (take (Suc i) xs) @ filter (\<lambda>x. x \<le> xs ! i) (drop (Suc i) xs)"
    by (metis append_take_drop_id filter_append)
  moreover have "filter (\<lambda>x. x \<le> xs ! i) (take (Suc i) xs) = take (Suc i) xs"
    using s by (intro filter_True) (auto simp: in_set_conv_nth less_Suc_eq_le intro!: sorted_nth_mono)
  ultimately show ?thesis using s by simp
qed

lemma filter_sort_length: "length (filter P (sort xs)) = length (filter P (xs :: int list))"
  by (simp add: filter_sort)

text \<open>
  C40. Quantiles are taken within bounds and are measured: for every number the statistics can
  name, the value is the delay of one of the executions, never an access outside of the list;
  and for q per mille at least that share of the executions took no longer.
\<close>
theorem quantile_measured:
  assumes "delays \<noteq> []" and "int (length delays) < 2 ^ 31" and "parseInt stat = Inr q"
  shows "\<exists>d\<in>set delays. stat_value srv stat delays = Inr (JNum (delay_text (machine srv) d)) \<and>
    (0 \<le> q \<and> q \<le> 1000 \<longrightarrow> max 1 (int (length delays) * q div 1000) \<le> int (length (filter (\<lambda>x. x \<le> d) delays)))"
proof -
  define i where "i = nat (quantile_index (length delays) q)"
  define d where "d = sort delays ! i"
  have "stat \<noteq> ''count''" "stat \<noteq> ''avg''"
    using assms(3) by (auto simp: parseInt_def signed_digits_def Let_def is_digit_def split: option.splits if_splits)
  then have v: "stat_value srv stat delays = Inr (JNum (delay_text (machine srv) d))"
    using assms(3) by (simp add: stat_value_def d_def i_def)
  have r: "0 \<le> quantile_index (length delays) q" "quantile_index (length delays) q < int (length delays)"
    using quantile_range [of "length delays" q] assms(1) by simp_all
  then have i: "i < length (sort delays)" by (simp add: i_def)
  then have m: "d \<in> set delays" unfolding d_def by (metis nth_mem set_sort)
  have rank: "i < length (filter (\<lambda>x. x \<le> d) delays)"
    using sorted_rank [OF sorted_sort i] unfolding d_def [symmetric] filter_sort_length .
  have "max 1 (int (length delays) * q div 1000) \<le> int (length (filter (\<lambda>x. x \<le> d) delays))" if q: "0 \<le> q" "q \<le> 1000"
  proof -
    have "int i = max (int (length delays) * q div 1000 - 1) 0"
      using quantile_rank [of "length delays" q] assms(1,2) q r by (simp add: i_def)
    with rank show ?thesis by linarith
  qed
  with v m show ?thesis by blast
qed

theorem quantile_measured_witness:
  "\<exists>d\<in>set [30, 10, 20, 40]. stat_value demo_server ''500'' [30, 10, 20, 40] = Inr (JNum (delay_text (machine demo_server) d))"
proof -
  have "parseInt ''500'' = Inr 500" by code_simp
  from quantile_measured [OF _ _ this, of "[30, 10, 20, 40]" demo_server] show ?thesis by auto
qed

section \<open>Headers\<close>

lemma map_of_propagated: "map_of (propagated names request own) h =
    (if h \<in> set (java_split CHR '','' names) \<and> h \<in> fst ` set request \<and> (case own of Some hs \<Rightarrow> h \<notin> fst ` set hs | None \<Rightarrow> True)
     then map_of request h else None)"
proof -
  have "map_of (map (\<lambda>n. (n, f n)) ns) h = (if h \<in> set ns then Some (f h) else None)" for ns and f :: "string \<Rightarrow> string"
    by (induction ns) auto
  then have "map_of (propagated names request own) h =
     (if h \<in> set (java_split CHR '','' names) \<and> h \<in> fst ` set request \<and> (case own of Some hs \<Rightarrow> h \<notin> fst ` set hs | None \<Rightarrow> True)
      then Some (the (map_of request h)) else None)"
    unfolding propagated_def by (simp cong: if_cong)
  moreover have "\<exists>v. map_of request h = Some v" if "h \<in> fst ` set request"
    using that by (metis map_of_eq_None_iff option.exhaust)
  ultimately show ?thesis by auto
qed

text \<open>
  Propagation gives a node exactly the named headers of the request, and none it sets
  itself is replaced: afterwards a header of the node is its own, or else the request's if it
  is named, or missing. Nothing but the headers of the first node changes.
\<close>
theorem headers_propagated:
  assumes "requestHeaders (the_context s) = Some request" and "inst_propagateHeaders (instruction s) = Some names"
    and "names \<noteq> []" and "inst_trace (instruction s) = node # rest"
  shows "\<exists>node'. propagate_headers s = (Inr (), s\<lparr>instruction := (instruction s)\<lparr>inst_trace := node' # rest\<rparr>\<rparr>) \<and>
    node'\<lparr>node_headers := node_headers node\<rparr> = node \<and>
    (\<forall>h. map_of (case node_headers node' of Some hs \<Rightarrow> hs | None \<Rightarrow> []) h =
      (case map_of (case node_headers node of Some hs \<Rightarrow> hs | None \<Rightarrow> []) h of
          Some v \<Rightarrow> Some v
        | None \<Rightarrow> if h \<in> set (java_split CHR '','' names) then map_of request h else None))"
proof -
  define new where "new = propagated names request (node_headers node)"
  define node' where "node' = (if new = [] then node
    else node\<lparr>node_headers := Some ((case node_headers node of Some hs \<Rightarrow> hs | None \<Rightarrow> []) @ new)\<rparr>)"
  have same: "s\<lparr>instruction := (instruction s)\<lparr>inst_trace := node # rest\<rparr>\<rparr> = s" using assms(4) by simp
  have p: "propagate_headers s = (Inr (), s\<lparr>instruction := (instruction s)\<lparr>inst_trace := node' # rest\<rparr>\<rparr>)"
    using assms same by (simp add: propagate_headers_def currentNode_def new_def [symmetric] node'_def on_node_def Let_def)
  have n: "map_of new h = (if h \<in> set (java_split CHR '','' names) \<and>
      map_of (case node_headers node of Some hs \<Rightarrow> hs | None \<Rightarrow> []) h = None then map_of request h else None)" for h
    unfolding new_def map_of_propagated by (auto simp: map_of_eq_None_iff map_of_eq_None_iff [THEN iffD2] split: option.splits)
  have "map_of (case node_headers node' of Some hs \<Rightarrow> hs | None \<Rightarrow> []) h =
      (case map_of (case node_headers node of Some hs \<Rightarrow> hs | None \<Rightarrow> []) h of
          Some v \<Rightarrow> Some v
        | None \<Rightarrow> if h \<in> set (java_split CHR '','' names) then map_of request h else None)" for h
    using n [of h] by (cases "new = []") (auto simp: node'_def map_add_def split: option.splits)
  moreover have "node'\<lparr>node_headers := node_headers node\<rparr> = node" by (simp add: node'_def)
  ultimately show ?thesis using p by blast
qed

theorem headers_propagated_witness:
  "map_of (case node_headers (hd (inst_trace (instruction (snd (propagate_headers (demo_state (demo_instruction 1))))))) of
     Some hs \<Rightarrow> hs | None \<Rightarrow> []) ''x-env'' = Some ''dev''"
proof -
  let ?s = "demo_state (demo_instruction 1)"
  have a: "requestHeaders (the_context ?s) = Some [(''x-env'', ''dev'')]" "inst_propagateHeaders (instruction ?s) = Some ''x-env,x-id''"
    "inst_trace (instruction ?s) = new_node # [new_node\<lparr>node_call := Some ''b''\<rparr>]"
    by (simp_all add: demo_state_def demo_instruction_def)
  have n: "''x-env,x-id'' \<noteq> []" by simp
  have sp: "''x-env'' \<in> set (java_split CHR '','' ''x-env,x-id'')" by code_simp
  from headers_propagated [OF a(1,2) n a(3)] obtain node' where
    p: "propagate_headers ?s = (Inr (), ?s\<lparr>instruction := (instruction ?s)\<lparr>inst_trace := node' # [new_node\<lparr>node_call := Some ''b''\<rparr>]\<rparr>\<rparr>)"
    and h: "\<forall>h. map_of (case node_headers node' of Some hs \<Rightarrow> hs | None \<Rightarrow> []) h =
      (case map_of (case node_headers new_node of Some hs \<Rightarrow> hs | None \<Rightarrow> []) h of
          Some v \<Rightarrow> Some v
        | None \<Rightarrow> if h \<in> set (java_split CHR '','' ''x-env,x-id'') then map_of [(''x-env'', ''dev'')] h else None)"
    by blast
  have "map_of (case node_headers node' of Some hs \<Rightarrow> hs | None \<Rightarrow> []) ''x-env'' = Some ''dev''"
    using h [rule_format, of "''x-env''"] sp by (simp add: new_node_def)
  with p show ?thesis by simp
qed

section \<open>What repetitions do not do\<close>

text \<open>
  On one thread, a case repeated with a way of collecting that is none of the known ones runs
  nothing at all and answers \<open>null\<close>: nobody collects the stream.
\<close>

theorem unknown_collect_runs_nothing:
  assumes "\<not> collects (inst_collectBy (instruction s))" and "1 < inst_times (instruction s)" and "inst_threads (instruction s) \<le> 1"
    and "execute srv s = (r, s')"
  shows "invocations s' = invocations s \<and> (\<forall>v. r = Inr v \<longrightarrow> v = JNull)"
proof -
  have n: "\<not> inst_times (instruction s) \<le> 1" "\<not> inst_threads (instruction s) > 1" using assms by simp_all
  define u where "u = s\<lparr>clock_reads := clock_reads s + 1\<rparr>"
  have f: "executeForTimes srv False s = (Inr [], u)"
    using n by (simp add: executeForTimes_def Let_def nanoTime_def jbind_def u_def)
  have c: "collect_results srv (inst_collectBy (instruction s)) [] = Inr JNull"
    using assms(1) by (simp add: collects_def collect_results_def)
  have e: "(r, s') = jbind (set_result JNull) (\<lambda>_. jbind (\<lambda>s1. case currentNode (instruction s1) of
      None \<Rightarrow> (Inl NullPointer, s1) | Some node \<Rightarrow> render_response_headers srv (node_responseHeaders node) s1) (\<lambda>_. jret JNull)) u"
    using assms(1,4) n(1) by (simp add: execute_def f c jbind_Inr)
  have h: "invocations (snd (render_response_headers srv hs t)) = invocations t" for hs t
  proof (induction srv hs arbitrary: t rule: render_response_headers.induct)
    case (2 srv k v hs)
    then show ?case
      by (simp add: jbind_def render_in_def on_node_def split: prod.split sum.split)
  qed simp
  show ?thesis
  proof (cases "response (the_context u)")
    case None
    with e show ?thesis by (simp add: set_result_def jbind_def u_def)
  next
    case (Some x)
    define v where "v = u\<lparr>the_context := (the_context u)\<lparr>response := Some (x\<lparr>resp_result := JNull\<rparr>)\<rparr>\<rparr>"
    have "set_result JNull u = (Inr (), v)" using Some by (simp add: set_result_def on_context_def v_def)
    with e have e': "(r, s') = jbind (\<lambda>s1. case currentNode (instruction s1) of
      None \<Rightarrow> (Inl NullPointer, s1) | Some node \<Rightarrow> render_response_headers srv (node_responseHeaders node) s1) (\<lambda>_. jret JNull) v"
      by (simp add: jbind_Inr)
    have "invocations v = invocations s" by (simp add: v_def u_def)
    with e' h [of "case currentNode (instruction v) of Some node \<Rightarrow> node_responseHeaders node | None \<Rightarrow> []" v] show ?thesis
      by (auto simp: jbind_def split: option.splits prod.splits sum.splits)
  qed
qed

end
