(* ===== verification/ServiceFrames.thy ===== *)
theory ServiceFrames
  imports PowerfulServiceJava
begin

text \<open>
  What the statements of an execution leave alone, stated once for every relation between
  states that ignores draws, clock, sleeps, headers and addresses of nodes.
\<close>

text \<open>The statements of an execution before its call.\<close>

definition before_call :: "server \<Rightarrow> (run_state, unit) stm" where
  "before_call srv =
     jbind propagate_headers (\<lambda>_. jbind (renderHeaders srv) (\<lambda>_. jbind (invokeTestMethod srv) (\<lambda>_.
     jbind (node_statement (delay srv)) (\<lambda>_. jbind (node_statement (errorByPercent srv)) (\<lambda>_.
     node_statement (status_code srv))))))"

lemma doExecute_split: "doExecuteSingle srv s = jbind (before_call srv) (\<lambda>_ s'. call srv (getNext (instruction s')) s') s"
  unfolding doExecuteSingle_def before_call_def by (simp add: jbind_def split: prod.split sum.split)

text \<open>The part of \<open>call\<close> behind the choice of an invoker.\<close>

definition invoke_next :: "server \<Rightarrow> remote_invoker \<Rightarrow> Instruction \<Rightarrow> string option \<Rightarrow> (run_state, unit) stm" where
  "invoke_next srv invoke i address =
     jbind (render_in srv address) (\<lambda>c.
     jbind (on_node 1 (\<lambda>n. n\<lparr>node_call := c\<rparr>)) (\<lambda>_ s2.
       if c = None \<or> c = Some [] then (Inr (), s2)
       else let sent = i\<lparr>inst_trace := (inst_trace (instruction s2) ! 1) # tl (inst_trace i)\<rparr>;
                s3 = s2\<lparr>invocations := invocations s2 @ [sent]\<rparr>
            in jbind (jlift (invoke (length (invocations s2)) sent (the_context s2)))
                 (\<lambda>r. on_context (\<lambda>c. c\<lparr>response := Some r\<rparr>)) s3))"

lemma call_split: "call srv nxt s = (case nxt of
    None \<Rightarrow> (Inr (), s)
  | Some i \<Rightarrow> (case currentNode i of
        None \<Rightarrow> (Inr (), s)
      | Some node \<Rightarrow>
          let s1 = (case node_call node of
                Some c \<Rightarrow> if take (length ''dubbo://'') c = ''dubbo://''
                  then snd (on_node 1 (\<lambda>n. n\<lparr>node_call := Some (drop (length ''dubbo://'') c), node_by := ''dubbo''\<rparr>) s) else s
              | None \<Rightarrow> s)
          in case invokers srv (node_by (inst_trace (instruction s1) ! 1)) of
               None \<Rightarrow> (Inl (IllegalState (''Protocol not supported in this instance: '' @ [CHR 0x27] @ node_by (inst_trace (instruction s1) ! 1) @ [CHR 0x27])), s1)
             | Some invoke \<Rightarrow> invoke_next srv invoke i (node_call (inst_trace (instruction s1) ! 1)) s1))"
  unfolding call_def invoke_next_def Let_def ..

lemma map_update_same: "(\<And>x. g (f x) = g x) \<Longrightarrow> map g (xs[n := f (xs ! n)]) = map g xs"
  by (induction xs arbitrary: n) (auto split: nat.split)

locale node_frame = statement_frame R for R :: "run_state \<Rightarrow> run_state \<Rightarrow> bool" +
  assumes frame_counters: "R s (s\<lparr>draws := k\<rparr>)" "R s (s\<lparr>clock_reads := n\<rparr>)" "R s (s\<lparr>sleeps := ms\<rparr>)"
    and frame_context: "(\<And>c. response (f c) = response c) \<Longrightarrow> R s (s\<lparr>the_context := f (the_context s)\<rparr>)"
    and frame_response: "R s (s\<lparr>the_context := (the_context s)\<lparr>response := Some r\<rparr>\<rparr>)"
    and frame_node: "(\<And>x. node_code (g x) = node_code x) \<Longrightarrow> (\<And>x. node_responseHeaders (g x) = node_responseHeaders x) \<Longrightarrow>
      R s (snd (on_node i g s))"
begin

lemma frames_basic: "frames R (render_in srv t)" "frames R (nanoTime srv)" "frames R (draw srv n)" "frames R (sleep k)"
  by (simp_all add: frames_def render_in_def nanoTime_def draw_def sleep_def frame_counters split: prod.split)

lemma frames_on_context:
  "(\<And>c. response (f c) = response c) \<Longrightarrow> frames R (on_context f)" "frames R (on_context (\<lambda>c. c\<lparr>response := Some r\<rparr>))"
  by (simp_all add: frames_def on_context_def frame_context frame_response)

lemma frames_on_node:
  "(\<And>x. node_code (g x) = node_code x) \<Longrightarrow> (\<And>x. node_responseHeaders (g x) = node_responseHeaders x) \<Longrightarrow> frames R (on_node i g)"
  by (simp add: frames_def frame_node)

lemma frames_propagate: "frames R propagate_headers"
proof -
  have "R s (snd (on_node 0 (\<lambda>n. n\<lparr>node_headers := Some ((case node_headers n of Some hs \<Rightarrow> hs | None \<Rightarrow> []) @ new)\<rparr>) s))" for s new
    by (rule frame_node) simp_all
  then show ?thesis by (simp add: frames_def propagate_headers_def Let_def frame_refl split: option.split)
qed

lemma frames_render_keys: "frames R (render_header_keys srv hs)"
proof (induction srv hs rule: render_header_keys.induct)
  case (1 srv)
  show ?case unfolding render_header_keys.simps by (rule frames_unchanged)
next
  case (2 srv k v hs)
  then show ?case unfolding render_header_keys.simps by (intro frames_bind frames_basic frames_on_context) simp_all
qed

lemma frames_renderHeaders: "frames R (renderHeaders srv)"
  using frames_render_keys [of srv] by (simp add: frames_def renderHeaders_def frame_refl split: option.split)

lemma frames_method: "frames R (invokeTestMethod srv)"
proof -
  have "frames R (jbind (draw srv n) (\<lambda>i. on_context (\<lambda>c. c\<lparr>invokeResult := Some (test_method i)\<rparr>)))" for n
    by (intro frames_bind frames_basic frames_on_context) simp
  then show ?thesis by (simp add: frames_def invokeTestMethod_def frame_refl split: option.split)
qed

lemma frames_node: "(\<And>n. frames R (f n)) \<Longrightarrow> frames R (node_statement f)"
  by (simp add: frames_def node_statement_def frame_refl split: option.split)

lemma frames_delay: "frames R (delay srv node)"
  unfolding delay_def by (intro frames_if frames_basic frames_unchanged)

lemma frames_percent: "frames R (errorByPercent srv node)"
proof (cases "node_errorByPercent node")
  case None
  then show ?thesis by (simp only: errorByPercent_def option.case frames_unchanged)
next
  case (Some p)
  then show ?thesis unfolding errorByPercent_def by (simp only: option.case) (intro frames_if frames_bind frames_basic frames_unchanged)
qed

lemma frames_status: "frames R (status_code srv node)"
  unfolding status_code_def by (intro frames_if frames_unchanged)

lemmas frames_parts = frames_propagate frames_renderHeaders frames_method frames_node frames_delay frames_percent frames_status

lemma frames_before: "frames R (before_call srv)"
  unfolding before_call_def by (intro frames_bind frames_parts)

lemma frames_wait: "frames R (wait_time srv rate st n)"
  unfolding wait_time_def by (intro frames_if frames_bind frames_basic frames_unchanged)

lemma frames_caught: "frames R (caught srv h tmpl e)"
  unfolding caught_def by (intro frames_if frames_on_context frames_bind frames_basic frames_unchanged)

lemma frames_timing: "frames R (jbind (nanoTime srv) (\<lambda>now. on_context (\<lambda>c. c\<lparr>delay_nanos := now - starts\<rparr>)))"
  by (intro frames_bind frames_basic frames_on_context) simp

end

end
