(* ===== verification/ServiceCalls.thy ===== *)
theory ServiceCalls
  imports ServiceProps ServiceFrames
begin

text \<open>
  What a node sends to other nodes: nothing when its own behaviour ends it with an error, one
  instruction per execution otherwise, and always a shorter one than it received. So the calls
  of a case come to an end.
\<close>

section \<open>Statements that send nothing\<close>

definition codes :: "run_state \<Rightarrow> int list" where
  "codes s = map node_code (inst_trace (instruction s))"

definition unsent :: "run_state \<Rightarrow> run_state \<Rightarrow> bool" where
  "unsent s s' \<longleftrightarrow> invocations s' = invocations s \<and> codes s' = codes s \<and> inst_rr (instruction s') = inst_rr (instruction s)"

abbreviation quiet :: "(run_state, 'a) stm \<Rightarrow> bool" where
  "quiet \<equiv> frames unsent"

lemma quiet_def: "quiet m \<longleftrightarrow> (\<forall>s. invocations (snd (m s)) = invocations s \<and> codes (snd (m s)) = codes s \<and>
    inst_rr (instruction (snd (m s))) = inst_rr (instruction s))"
  by (simp add: frames_def unsent_def)

lemma quietD: "quiet m \<Longrightarrow> m s = (r, s') \<Longrightarrow> invocations s' = invocations s \<and> codes s' = codes s \<and>
    inst_rr (instruction s') = inst_rr (instruction s)"
  using framesD [of unsent m s r s'] by (simp add: unsent_def)

interpretation quiet: node_frame unsent
proof
  show "unsent s (snd (on_node i g s))" if "\<And>x. node_code (g x) = node_code x" for s i g
    using that by (simp add: unsent_def on_node_def codes_def map_update_same)
qed (simp_all add: unsent_def codes_def)

lemma quiet_on_context: "quiet (on_context f)"
  by (simp add: quiet_def on_context_def codes_def)

lemma quiet_on_node: "(\<And>x. node_code (f x) = node_code x) \<Longrightarrow> quiet (on_node n f)"
  by (simp add: quiet_def on_node_def codes_def map_update_same)

lemmas quiet_bind = quiet.frames_bind
lemmas quiet_jret = quiet.frames_unchanged
lemmas quiet_basic = quiet.frames_basic quiet_on_context
lemmas quiet_parts = quiet.frames_parts
lemmas quiet_before = quiet.frames_before
lemmas quiet_caught = quiet.frames_caught
lemmas quiet_wait = quiet.frames_wait

section \<open>A failing node\<close>

lemma bad_code_fails:
  assumes "codes s = c # cs" and "c \<noteq> 200"
  shows "\<exists>e s'. before_call srv s = (Inl e, s')"
proof (cases "before_call srv s")
  case (Pair r s')
  show ?thesis
  proof (cases r)
    case (Inr u)
    let ?m = "jbind propagate_headers (\<lambda>_. jbind (renderHeaders srv) (\<lambda>_. jbind (invokeTestMethod srv) (\<lambda>_.
      jbind (node_statement (delay srv)) (\<lambda>_. node_statement (errorByPercent srv)))))"
    have "before_call srv s = jbind ?m (\<lambda>_. node_statement (status_code srv)) s"
      unfolding before_call_def by (simp add: jbind_def split: prod.split sum.split)
    with Pair Inr obtain v where m: "?m s = (Inr (), v)" and n: "node_statement (status_code srv) v = (Inr u, s')"
      by (auto simp: jbind_Inr_iff)
    have "quiet ?m" by (intro quiet_bind quiet_parts)
    from quietD [OF this m] assms(1) have "codes v = c # cs" by simp
    then obtain node rest where t: "inst_trace (instruction v) = node # rest" "node_code node = c"
      by (cases "inst_trace (instruction v)") (auto simp: codes_def)
    with n assms(2) show ?thesis by (simp add: node_statement_def currentNode_def status_code_def split: if_splits)
  qed (use Pair in simp)
qed

text \<open>
  A node with a status of its own other than 200 always fails and then calls nobody: the
  execution ends with an exception, and nothing has been sent to another node, whatever its
  delays, random errors, test methods and templates did before.
\<close>
theorem failing_node_calls_nobody:
  assumes "currentNode (instruction s) = Some node" and "node_code node \<noteq> 200"
  shows "\<exists>e s'. doExecuteSingle srv s = (Inl e, s') \<and> invocations s' = invocations s"
proof -
  have "codes s = node_code node # map node_code (tl (inst_trace (instruction s)))"
    using assms(1) by (auto simp: currentNode_def codes_def split: list.splits)
  from bad_code_fails [OF this assms(2), of srv] obtain e s' where b: "before_call srv s = (Inl e, s')" by blast
  then have "doExecuteSingle srv s = (Inl e, s')" unfolding doExecute_split by (rule jbind_Inl)
  with quietD [OF quiet_before b] show ?thesis by blast
qed

definition missing_instruction :: Instruction where
  "missing_instruction = (demo_instruction 1)\<lparr>inst_trace := [new_node\<lparr>node_code := 404\<rparr>, new_node\<lparr>node_call := Some ''b''\<rparr>]\<rparr>"

theorem failing_node_calls_nobody_witness:
  "\<exists>e s'. doExecuteSingle demo_server (demo_state missing_instruction) = (Inl e, s') \<and> invocations s' = []"
proof -
  have "currentNode (instruction (demo_state missing_instruction)) = Some (new_node\<lparr>node_code := 404\<rparr>)"
    by (simp add: demo_state_def missing_instruction_def currentNode_def)
  from failing_node_calls_nobody [OF this, of demo_server] show ?thesis by (simp add: demo_state_def)
qed

section \<open>One call at most\<close>

text \<open>
  What a statement sends that works on an instruction without round-robin values: at most
  \<open>n\<close> instructions, each to be executed once, without such values and with one node less.
\<close>

definition kept :: "run_state \<Rightarrow> run_state \<Rightarrow> bool" where
  "kept s s' \<longleftrightarrow> length (inst_trace (instruction s')) = length (inst_trace (instruction s)) \<and>
     inst_rr (instruction s') = inst_rr (instruction s)"

definition next_of :: "run_state \<Rightarrow> Instruction \<Rightarrow> bool" where
  "next_of s j \<longleftrightarrow> inst_times j = 1 \<and> inst_threads j = 1 \<and> inst_rr j = inst_rr (instruction s) \<and>
     length (inst_trace j) + 1 = length (inst_trace (instruction s))"

definition calls :: "nat \<Rightarrow> (run_state, 'a) stm \<Rightarrow> bool" where
  "calls n m \<longleftrightarrow> (\<forall>s r s'. inst_rr (instruction s) = [] \<longrightarrow> m s = (r, s') \<longrightarrow>
     (\<exists>js. invocations s' = invocations s @ js \<and> length js \<le> n \<and> list_all (next_of s) js) \<and> kept s s')"

lemma callsD:
  assumes "calls n m" and "inst_rr (instruction s) = []" and "m s = (r, s')"
  obtains js where "invocations s' = invocations s @ js" "length js \<le> n" "list_all (next_of s) js" "kept s s'"
  using assms unfolding calls_def by blast

lemma codes_length: "codes s' = codes s \<Longrightarrow> length (inst_trace (instruction s')) = length (inst_trace (instruction s))"
  unfolding codes_def by (metis length_map)

lemma quiet_kept: "quiet m \<Longrightarrow> m s = (r, s') \<Longrightarrow> kept s s'"
  using quietD [of m s r s'] codes_length [of s' s] by (simp add: kept_def)

lemma calls_quiet:
  assumes "quiet m"
  shows "calls 0 m"
  unfolding calls_def
proof (intro allI impI conjI)
  fix s r s'
  assume m: "m s = (r, s')"
  have i: "invocations s' = invocations s" using quietD [OF assms m] by (rule conjunct1)
  show "\<exists>js. invocations s' = invocations s @ js \<and> length js \<le> 0 \<and> list_all (next_of s) js"
    by (rule exI [of _ "[]"]) (simp add: i)
  show "kept s s'" by (rule quiet_kept [OF assms m])
qed

lemma calls_mono: "calls n m \<Longrightarrow> n \<le> k \<Longrightarrow> calls k m"
  unfolding calls_def by (meson order_trans)

lemma next_of_kept: "kept s s' \<Longrightarrow> next_of s = next_of s'"
  by (rule ext) (simp only: next_of_def kept_def)

lemma calls_seq:
  assumes "calls n m" and "inst_rr (instruction s) = []" and "m s = (r, u)" and "calls k m'" and "m' u = (r', s')"
  shows "(\<exists>js. invocations s' = invocations s @ js \<and> length js \<le> n + k \<and> list_all (next_of s) js) \<and> kept s s'"
proof -
  obtain js where j: "invocations u = invocations s @ js" "length js \<le> n" "list_all (next_of s) js" "kept s u"
    using callsD [OF assms(1-3)] by blast
  have rr: "inst_rr (instruction u) = []" using assms(2) j(4) by (simp add: kept_def)
  obtain ks where k: "invocations s' = invocations u @ ks" "length ks \<le> k" "list_all (next_of u) ks" "kept u s'"
    using callsD [OF assms(4) rr assms(5)] by blast
  have "list_all (next_of s) (js @ ks)" using j(3) k(3) next_of_kept [OF j(4)] by simp
  moreover have "kept s s'" using j(4) k(4) by (simp add: kept_def)
  ultimately show ?thesis using j k by (intro conjI exI [of _ "js @ ks"]) simp_all
qed

lemma calls_bind:
  assumes "calls n m" and "\<And>x. calls k (f x)"
  shows "calls (n + k) (jbind m f)"
  unfolding calls_def
proof (intro allI impI)
  fix s r s'
  assume rr: "inst_rr (instruction s) = []" and b: "jbind m f s = (r, s')"
  obtain q u where u: "m s = (q, u)" by fastforce
  show "(\<exists>js. invocations s' = invocations s @ js \<and> length js \<le> n + k \<and> list_all (next_of s) js) \<and> kept s s'"
  proof (cases q)
    case (Inl e)
    with b u have "s' = u" by (simp add: jbind_def)
    with callsD [OF assms(1) rr u] show ?thesis by (metis trans_le_add1)
  next
    case (Inr x)
    with b u have "f x u = (r, s')" by (simp add: jbind_def)
    from calls_seq [OF assms(1) rr u assms(2) this] show ?thesis .
  qed
qed

lemma calls_bind_quiet: "quiet m \<Longrightarrow> (\<And>x. calls k (f x)) \<Longrightarrow> calls k (jbind m f)"
  using calls_bind [OF calls_quiet] by fastforce

lemma calls_then_quiet: "calls n m \<Longrightarrow> (\<And>x. quiet (f x)) \<Longrightarrow> calls n (jbind m f)"
  using calls_bind [OF _ calls_quiet] by fastforce

section \<open>The call\<close>

definition sends_next :: "run_state \<Rightarrow> run_state \<Rightarrow> bool" where
  "sends_next s s' \<longleftrightarrow> (\<exists>js. invocations s' = invocations s @ js \<and> length js \<le> 1 \<and> list_all (next_of s) js) \<and> kept s s'"

lemma unsent_kept: "unsent s s' \<Longrightarrow> kept s s'"
  using codes_length [of s' s] by (simp add: unsent_def kept_def)

lemma sends_quiet: "unsent s s' \<Longrightarrow> sends_next s s'"
  unfolding sends_next_def using unsent_kept [of s s'] by (simp add: unsent_def)

lemma sends_after:
  assumes "unsent s u" and "sends_next u s'"
  shows "sends_next s s'"
proof -
  have k: "kept s u" by (rule unsent_kept [OF assms(1)])
  have "kept s s'" using k assms(2) by (simp add: sends_next_def kept_def)
  then show ?thesis using assms next_of_kept [OF k] by (simp add: sends_next_def unsent_def)
qed

lemma invoke_sends:
  assumes "invoke_next srv invoke i address s = (r, s')"
    and "inst_times i = 1" and "inst_threads i = 1" and "inst_rr i = inst_rr (instruction s)"
    and "inst_trace i \<noteq> []" and "length (inst_trace i) + 1 = length (inst_trace (instruction s))"
  shows "sends_next s s'"
proof -
  obtain q u where u: "render_in srv address s = (q, u)" by fastforce
  from framesD [OF quiet_basic(1) u] have qu: "unsent s u" .
  show ?thesis
  proof (cases q)
    case (Inl e)
    with assms(1) u have "s' = u" by (simp add: invoke_next_def jbind_def)
    with qu show ?thesis by (simp add: sends_quiet)
  next
    case (Inr c)
    define s2 where "s2 = snd (on_node 1 (\<lambda>n. n\<lparr>node_call := c\<rparr>) u)"
    have on: "on_node 1 (\<lambda>n. n\<lparr>node_call := c\<rparr>) u = (Inr (), s2)" by (simp add: s2_def on_node_def)
    have "quiet (on_node 1 (\<lambda>n. n\<lparr>node_call := c\<rparr>))" by (rule quiet_on_node) simp
    from framesD [OF this on] qu have s2: "unsent s s2" by (simp add: unsent_def)
    define sent where "sent = i\<lparr>inst_trace := (inst_trace (instruction s2) ! 1) # tl (inst_trace i)\<rparr>"
    then have sent_eq: "i\<lparr>inst_trace := inst_trace (instruction s2) ! Suc 0 # tl (inst_trace i)\<rparr> = sent" by simp
    have l: "kept s s2" by (rule unsent_kept [OF s2])
    have "next_of s sent" using assms(2-6) l by (simp add: next_of_def sent_def kept_def)
    then have sent: "sends_next s (s2\<lparr>invocations := invocations s2 @ [sent], the_context := c'\<rparr>)" for c'
      using s2 l by (simp add: sends_next_def unsent_def kept_def)
    have k: "s2\<lparr>invocations := invocations s2 @ [sent]\<rparr> = s2\<lparr>invocations := invocations s2 @ [sent], the_context := the_context s2\<rparr>" by simp
    from assms(1) u Inr on show ?thesis
      using sent sends_quiet [OF s2] sent [of "the_context s2", folded k]
      by (auto simp: invoke_next_def jbind_def on_context_def Let_def sent_eq split: if_splits sum.splits)
  qed
qed

lemma call_sends:
  assumes "call srv (getNext (instruction s)) s = (r, s')"
  shows "sends_next s s'"
proof (cases "getNext (instruction s)")
  case None
  with assms show ?thesis by (simp add: call_def sends_quiet unsent_def)
next
  case (Some i)
  then have i: "inst_times i = 1" "inst_threads i = 1" "inst_rr i = inst_rr (instruction s)" and t: "length (inst_trace i) + 1 = length (inst_trace (instruction s))"
    by (auto simp: getNext_def split: if_splits)
  show ?thesis
  proof (cases "currentNode i")
    case None
    with assms Some show ?thesis by (simp add: call_def sends_quiet unsent_def)
  next
    case (Some node)
    define s1 where "s1 = (case node_call node of
        Some c \<Rightarrow> if take (length ''dubbo://'') c = ''dubbo://''
          then snd (on_node 1 (\<lambda>n. n\<lparr>node_call := Some (drop (length ''dubbo://'') c), node_by := ''dubbo''\<rparr>) s) else s
      | None \<Rightarrow> s)"
    have "quiet (on_node 1 (\<lambda>n. n\<lparr>node_call := Some c, node_by := ''dubbo''\<rparr>))" for c by (rule quiet_on_node) simp
    then have "unsent s (snd (on_node 1 (\<lambda>n. n\<lparr>node_call := Some c, node_by := ''dubbo''\<rparr>) s))" for c
      unfolding frames_def by blast
    then have s1: "unsent s s1" by (simp add: s1_def unsent_def split: option.split)
    have k: "kept s s1" by (rule unsent_kept [OF s1])
    have t1: "inst_trace i \<noteq> []" "length (inst_trace i) + 1 = length (inst_trace (instruction s1))"
      "inst_rr i = inst_rr (instruction s1)"
      using Some k t i(3) by (auto simp: currentNode_def kept_def)
    have c: "(case invokers srv (node_by (inst_trace (instruction s1) ! 1)) of
        None \<Rightarrow> (Inl (IllegalState (''Protocol not supported in this instance: '' @ [CHR 0x27] @ node_by (inst_trace (instruction s1) ! 1) @ [CHR 0x27])), s1)
      | Some invoke \<Rightarrow> invoke_next srv invoke i (node_call (inst_trace (instruction s1) ! 1)) s1) = (r, s')"
      using assms unfolding call_split \<open>getNext (instruction s) = Some i\<close> option.case Some Let_def s1_def [symmetric] .
    show ?thesis
    proof (cases "invokers srv (node_by (inst_trace (instruction s1) ! 1))")
      case None
      with c have "s' = s1" by simp
      with s1 show ?thesis by (simp add: sends_quiet)
    next
      case (Some invoke)
      with c have "invoke_next srv invoke i (node_call (inst_trace (instruction s1) ! 1)) s1 = (r, s')" by simp
      from sends_after [OF s1 invoke_sends [OF this i(1,2) t1(3,1,2)]] show ?thesis .
    qed
  qed
qed

lemma doExecute_calls: "calls 1 (doExecuteSingle srv)"
proof -
  have "calls 1 (\<lambda>s. call srv (getNext (instruction s)) s)"
    unfolding calls_def using call_sends unfolding sends_next_def by blast
  then have "calls 1 (jbind (before_call srv) (\<lambda>_ s. call srv (getNext (instruction s)) s))"
    by (intro calls_bind_quiet quiet_before)
  then show ?thesis unfolding calls_def doExecute_split .
qed

section \<open>Executions\<close>

lemma attempt_calls: "calls 1 (attempt srv n)"
proof -
  have "attempt srv n s = doExecuteSingle srv s" if "inst_rr (instruction s) = []" for s
    using that by (simp add: attempt_def processLoop_def)
  then show ?thesis using doExecute_calls [of srv] unfolding calls_def by metis
qed

lemma calls_seq_quiet:
  "calls n m \<Longrightarrow> inst_rr (instruction s) = [] \<Longrightarrow> m s = (q, u) \<Longrightarrow> quiet m' \<Longrightarrow> m' u = (r', s') \<Longrightarrow>
     (\<exists>js. invocations s' = invocations s @ js \<and> length js \<le> n \<and> list_all (next_of s) js) \<and> kept s s'"
  using calls_seq [of n m s q u 0 m' r' s'] calls_quiet [of m'] by simp

lemma calls_catch:
  assumes "calls n m" and "\<And>e. quiet (h e)"
  shows "calls n (jcatch m h)"
  unfolding calls_def
proof (intro allI impI)
  fix s r s'
  assume rr: "inst_rr (instruction s) = []" and c: "jcatch m h s = (r, s')"
  obtain q u where u: "m s = (q, u)" by fastforce
  obtain m' where m': "quiet m'" "m' u = (r, s')"
  proof (cases q)
    case (Inl e)
    with c u have "h e u = (r, s')" by (simp add: jcatch_def)
    show ?thesis by (rule that [OF assms(2) \<open>h e u = (r, s')\<close>])
  next
    case (Inr x)
    with c u have "jret x u = (r, s')" by (simp add: jcatch_def)
    show ?thesis by (rule that [OF quiet_jret(1) \<open>jret x u = (r, s')\<close>])
  qed
  from calls_seq_quiet [OF assms(1) rr u m'] show "(\<exists>js. invocations s' = invocations s @ js \<and> length js \<le> n \<and> list_all (next_of s) js) \<and> kept s s'" .
qed

lemma calls_finally:
  assumes "calls n m" and "quiet f"
  shows "calls n (jfinally m f)"
  unfolding calls_def
proof (intro allI impI)
  fix s r s'
  assume rr: "inst_rr (instruction s) = []" and c: "jfinally m f s = (r, s')"
  obtain q u where u: "m s = (q, u)" by fastforce
  obtain q' where "f u = (q', s')" using c u by (auto simp: jfinally_def split: prod.splits sum.splits)
  from calls_seq_quiet [OF assms(1) rr u assms(2) this] show "(\<exists>js. invocations s' = invocations s @ js \<and> length js \<le> n \<and> list_all (next_of s) js) \<and> kept s s'" .
qed

lemma single_calls: "calls 1 (executeSingle srv h rate st n)"
proof -
  have sl: "quiet (if wait \<ge> 5 then sleep wait else jret ())" for wait
    by (simp only: quiet_basic quiet_jret split: if_split) simp
  have f: "quiet (jbind (nanoTime srv) (\<lambda>now. on_context (\<lambda>c. c\<lparr>delay_nanos := now - starts\<rparr>)))" for starts
    by (intro quiet_bind quiet_basic)
  have "calls 1 (jbind (wait_time srv rate st n) (\<lambda>wait.
         jbind (if wait \<ge> 5 then sleep wait else jret ()) (\<lambda>_.
         jbind (nanoTime srv) (\<lambda>requestStarts.
         jbind (jfinally (jcatch (attempt srv n) (caught srv h tmpl))
             (jbind (nanoTime srv) (\<lambda>now. on_context (\<lambda>c. c\<lparr>delay_nanos := now - requestStarts\<rparr>)))) (\<lambda>_.
         jbind (render_in srv (Some tmpl)) (\<lambda>t s'.
         (Inr (delay_nanos (the_context s'), case t of Some x \<Rightarrow> x | None \<Rightarrow> []), s')))))))" for tmpl
    by (intro calls_bind_quiet calls_then_quiet quiet_wait sl quiet_basic calls_finally calls_catch attempt_calls
        quiet_caught f quiet_bind quiet_jret(4))
  then show ?thesis unfolding calls_def executeSingle_def Let_def by blast
qed

lemma executions_calls: "calls n (executions srv rate st i n)"
proof (induction n arbitrary: i)
  case 0
  show ?case unfolding executions.simps by (intro calls_quiet quiet_jret)
next
  case (Suc n)
  have "calls (1 + n) (executions srv rate st i (Suc n))"
    unfolding executions.simps
    by (intro calls_bind single_calls calls_then_quiet Suc.IH quiet_jret)
  then show ?case by simp
qed

lemma quiet_set_result: "quiet (set_result v)"
  by (simp add: quiet_def set_result_def on_context_def codes_def split: option.split)

lemma quiet_response_headers: "quiet (render_response_headers srv hs)"
proof (induction srv hs rule: render_response_headers.induct)
  case (1 srv)
  show ?case unfolding render_response_headers.simps by (rule quiet_jret)
next
  case (2 srv k v hs)
  then show ?case unfolding render_response_headers.simps by (intro quiet_bind quiet_basic quiet_on_node) simp_all
qed

lemma quiet_headers_of_node: "quiet (\<lambda>s1. case currentNode (instruction s1) of
    None \<Rightarrow> (Inl NullPointer, s1) | Some node \<Rightarrow> render_response_headers srv (node_responseHeaders node) s1)"
  using quiet_response_headers [of srv] by (simp add: quiet_def split: option.split)

text \<open>An execution on one thread sends at most one instruction per repetition, each of them shorter.\<close>

lemma execute_sends:
  assumes "inst_rr (instruction s) = []" and "inst_threads (instruction s) \<le> 1" and "execute srv s = (r, s')"
  obtains js where "invocations s' = invocations s @ js" "length js \<le> nat (max 1 (inst_times (instruction s)))"
    "list_all (next_of s) js"
proof -
  let ?n = "nat (inst_times (instruction s))"
  have e: "\<exists>m. calls (nat (max 1 (inst_times (instruction s)))) m \<and> m s = (r, s')"
  proof (cases "inst_times (instruction s) \<le> 1")
    case True
    have c: "calls 1 (jbind (executeSingle srv False (0, 1) 0 0) (\<lambda>x. jbind (set_result (JStr (snd x))) (\<lambda>_. jret (JStr (snd x)))))"
      by (intro calls_then_quiet single_calls quiet_bind quiet_set_result quiet_jret)
    have n: "nat (max 1 (inst_times (instruction s))) = 1" using True by simp
    show ?thesis
      unfolding n by (intro exI conjI, rule c) (use assms(3) in \<open>simp only: execute_def if_P [OF True]\<close>)
  next
    case False
    define i where "i = instruction s"
    define run where "run = jbind (nanoTime srv) (\<lambda>startTime.
        if collects (inst_collectBy i) then executions srv (inst_qps i, 1) startTime 0 ?n else jret [])"
    have "calls ?n (if b then executions srv q st 0 ?n else jret [])" for b q st
      using executions_calls calls_mono [OF calls_quiet [OF quiet_jret(1)]] by (cases b) simp_all
    then have c: "calls ?n run" unfolding run_def by (intro calls_bind_quiet quiet_basic)
    have "\<not> inst_threads i > 1" using assms(2) by (simp add: i_def)
    then have "executeForTimes srv (collects (inst_collectBy i)) s = run s"
      unfolding executeForTimes_def Let_def i_def [symmetric] run_def by simp
    then have "execute srv s = jbind run (\<lambda>results. jbind (jlift (collect_results srv (inst_collectBy i) results)) (\<lambda>result.
        jbind (set_result result) (\<lambda>_. jbind (\<lambda>s1. case currentNode (instruction s1) of
          None \<Rightarrow> (Inl NullPointer, s1) | Some node \<Rightarrow> render_response_headers srv (node_responseHeaders node) s1) (\<lambda>_. jret result)))) s"
      unfolding execute_def Let_def i_def [symmetric] if_not_P [OF False [folded i_def]] by (simp only: jbind_def)
    with assms(3) have m: "jbind run (\<lambda>results. jbind (jlift (collect_results srv (inst_collectBy i) results)) (\<lambda>result.
        jbind (set_result result) (\<lambda>_. jbind (\<lambda>s1. case currentNode (instruction s1) of
          None \<Rightarrow> (Inl NullPointer, s1) | Some node \<Rightarrow> render_response_headers srv (node_responseHeaders node) s1) (\<lambda>_. jret result)))) s = (r, s')"
      by (simp only:)
    have k: "calls ?n (jbind run (\<lambda>results. jbind (jlift (collect_results srv (inst_collectBy i) results)) (\<lambda>result.
        jbind (set_result result) (\<lambda>_. jbind (\<lambda>s1. case currentNode (instruction s1) of
          None \<Rightarrow> (Inl NullPointer, s1) | Some node \<Rightarrow> render_response_headers srv (node_responseHeaders node) s1) (\<lambda>_. jret result)))))"
      by (intro calls_then_quiet c quiet_bind quiet_jret quiet_set_result quiet_headers_of_node)
    have n: "nat (max 1 (inst_times (instruction s))) = ?n" using False by simp
    show ?thesis unfolding n by (intro exI conjI, rule k, rule m)
  qed
  then obtain m where m: "calls (nat (max 1 (inst_times (instruction s)))) m" "m s = (r, s')" by blast
  from callsD [OF m(1) assms(1) m(2)] show ?thesis using that by blast
qed

text \<open>
  C27. The nodes of a case without round-robin values cannot call each other for ever:
  whatever an execution of such an instruction on one thread sends to another node has no
  round-robin values, asks for one thread and has strictly fewer nodes, so the relation
  between an instruction and what its execution sends is well-founded, for every server,
  every state and every answer of the others, and what is sent is again in its domain.
\<close>
theorem calls_end:
  "wf {(j, i). \<exists>srv s r s' js. instruction s = i \<and> inst_rr i = [] \<and> inst_threads i \<le> 1 \<and> execute srv s = (r, s') \<and>
      invocations s' = invocations s @ js \<and> j \<in> set js} \<and>
   {j. \<exists>srv s r s' js. inst_rr (instruction s) = [] \<and> inst_threads (instruction s) \<le> 1 \<and> execute srv s = (r, s') \<and>
      invocations s' = invocations s @ js \<and> j \<in> set js} \<subseteq> {i. inst_rr i = [] \<and> inst_threads i = 1}"
proof -
  have n: "next_of s j" if k: "inst_rr (instruction s) = []" "inst_threads (instruction s) \<le> 1" "execute srv s = (r, s')"
    and js: "invocations s' = invocations s @ js" "j \<in> set js" for srv s r s' js j
  proof -
    obtain ks where "invocations s' = invocations s @ ks" "list_all (next_of s) ks"
      using execute_sends [OF k] by blast
    with js show ?thesis by (simp add: list_all_iff)
  qed
  show ?thesis
  proof (rule conjI [OF wf_subset [OF wf_measure [of "\<lambda>i. length (inst_trace i)"]]]; clarify)
    fix j srv s r s' js
    assume "inst_rr (instruction s) = []" "inst_threads (instruction s) \<le> 1" "execute srv s = (r, s')"
      "invocations s' = invocations s @ js" "j \<in> set js"
    note j = n [OF this]
    from j show "(j, instruction s) \<in> measure (\<lambda>i. length (inst_trace i))" by (simp add: next_of_def)
  next
    fix j srv s r s' js
    assume rr: "inst_rr (instruction s) = []" and "inst_threads (instruction s) \<le> 1" "execute srv s = (r, s')"
      "invocations s' = invocations s @ js" "j \<in> set js"
    note j = n [OF this]
    from j rr show "inst_rr j = [] \<and> inst_threads j = 1" by (simp add: next_of_def)
  qed
qed

text \<open>
  A round-robin value may replace the nodes themselves by more of them, and goes on with what
  is sent: this execution sends an instruction of as many nodes as it has itself.
\<close>

definition longer_trace :: Instruction where
  "longer_trace = (demo_instruction 1)\<lparr>inst_rr := [(''trace'', [JStr ''three nodes''])],
     inst_trace := [new_node, new_node\<lparr>node_call := Some ''b''\<rparr>]\<rparr>"

definition patching_server :: server where
  "patching_server = demo_server\<lparr>patched := \<lambda>ps i. if ps = [(''/trace'', JStr ''three nodes'')]
     then Inr (i\<lparr>inst_trace := [new_node, new_node\<lparr>node_call := Some ''b''\<rparr>, new_node\<lparr>node_call := Some ''a''\<rparr>]\<rparr>) else Inl NullPointer\<rparr>"

lemma round_robin_lengthens:
  "case invocations (snd (execute patching_server (demo_state longer_trace))) of
     [j] \<Rightarrow> length (inst_trace j) = length (inst_trace longer_trace) \<and> inst_rr j = inst_rr longer_trace
   | _ \<Rightarrow> False"
  by code_simp

section \<open>Propagated headers\<close>

text \<open>
  The headers named in \<open>propagateHeaders\<close> are added to the node that is executed, which is not
  part of what is sent on: the next node does not get them.
\<close>

definition propagating :: run_state where
  "propagating = (demo_state ((demo_instruction 1)\<lparr>inst_propagateHeaders := Some ''x-env'',
     inst_trace := [new_node, new_node\<lparr>node_call := Some ''b''\<rparr>]\<rparr>))\<lparr>the_context := new_context\<lparr>requestHeaders := Some [(''x-env'', ''dev'')]\<rparr>\<rparr>"

lemma propagated_not_sent:
  "case execute demo_server propagating of (r, s) \<Rightarrow>
     map node_headers (inst_trace (instruction s)) = [Some [(''x-env'', ''dev'')], Some []] \<and>
     map (\<lambda>i. map node_headers (inst_trace i)) (invocations s) = [[Some []]]"
  by code_simp

section \<open>The address is rendered once\<close>

text \<open>
  The address of the next node is rendered in place, in the instruction all repetitions share:
  a second execution finds the text the first one made, so a random number in an address is
  drawn once for all repetitions that have no round-robin values.
\<close>

definition random_address :: Instruction where
  "random_address = (demo_instruction 3)\<lparr>inst_trace := [new_node, new_node\<lparr>node_call := Some ''b{{randomDigits(1)}}''\<rparr>]\<rparr>"

theorem address_rendered_once:
  "map (\<lambda>i. map node_call (inst_trace i)) (invocations (snd (execute demo_server (demo_state random_address)))) =
     [[Some ''b0''], [Some ''b0''], [Some ''b0'']] \<and>
   next_below (machine demo_server) 0 10 \<noteq> next_below (machine demo_server) 1 10"
  by code_simp

end
