(* ===== verification/ServiceReturns.thy ===== *)
theory ServiceReturns
  imports ServiceProps ServiceFrames
begin

text \<open>
  A repeated case returns: whatever its nodes and the servers behind them do, an exception in
  one execution becomes the result of that execution, and the others go on.
\<close>

section \<open>What executions keep\<close>

text \<open>The number of nodes, their response headers and the template stay; a response is not taken back.\<close>

definition stays :: "run_state \<Rightarrow> run_state \<Rightarrow> bool" where
  "stays s s' \<longleftrightarrow> map node_responseHeaders (inst_trace (instruction s')) = map node_responseHeaders (inst_trace (instruction s)) \<and>
     inst_traceNodeTmpl (instruction s') = inst_traceNodeTmpl (instruction s) \<and>
     (response (the_context s) \<noteq> None \<longrightarrow> response (the_context s') \<noteq> None)"

interpretation stays: node_frame stays
proof
  show "stays s (snd (on_node i g s))" if "\<And>x. node_responseHeaders (g x) = node_responseHeaders x" for s i g
    using that by (simp add: stays_def on_node_def map_update_same)
qed (simp_all add: stays_def)

lemma stays_invocations: "stays s (s\<lparr>invocations := js\<rparr>)"
  by (simp add: stays_def)

lemma stays_invoke: "frames stays (invoke_next srv invoke i address)"
proof -
  have "frames stays (jbind (jlift q) (\<lambda>r. on_context (\<lambda>c. c\<lparr>response := Some r\<rparr>)))" for q
    by (intro stays.frames_bind stays.frames_unchanged stays.frames_on_context)
  then have "stays t (snd (jbind (jlift q) (\<lambda>r. on_context (\<lambda>c. c\<lparr>response := Some r\<rparr>)) t))" for q t
    unfolding frames_def by blast
  from stays.frame_trans [OF stays_invocations this]
  have last: "frames stays (\<lambda>s2. if c = None \<or> c = Some [] then (Inr (), s2)
    else let sent = i\<lparr>inst_trace := (inst_trace (instruction s2) ! 1) # tl (inst_trace i)\<rparr>;
             s3 = s2\<lparr>invocations := invocations s2 @ [sent]\<rparr>
         in jbind (jlift (invoke (length (invocations s2)) sent (the_context s2)))
              (\<lambda>r. on_context (\<lambda>c. c\<lparr>response := Some r\<rparr>)) s3)" for c :: "string option"
    by (simp add: frames_def Let_def stays.frame_refl)
  show ?thesis unfolding invoke_next_def
    by (intro stays.frames_bind stays.frames_basic stays.frames_on_node last) simp_all
qed

lemma stays_call: "frames stays (call srv nxt)"
proof (rule stays.framesI)
  fix s r s'
  assume c: "call srv nxt s = (r, s')"
  show "stays s s'"
  proof (cases nxt)
    case None
    with c show ?thesis by (simp add: call_def stays.frame_refl)
  next
    case (Some i)
    show ?thesis
    proof (cases "currentNode i")
      case None
      with c Some show ?thesis by (simp add: call_def stays.frame_refl)
    next
      case (Some node)
      define s1 where "s1 = (case node_call node of
          Some c \<Rightarrow> if take (length ''dubbo://'') c = ''dubbo://''
            then snd (on_node 1 (\<lambda>n. n\<lparr>node_call := Some (drop (length ''dubbo://'') c), node_by := ''dubbo''\<rparr>) s) else s
        | None \<Rightarrow> s)"
      have "stays s (snd (on_node 1 (\<lambda>n. n\<lparr>node_call := Some c, node_by := ''dubbo''\<rparr>) s))" for c
        by (rule stays.frame_node) simp_all
      then have s1: "stays s s1" by (simp add: s1_def stays.frame_refl split: option.split)
      define address where "address = node_call (inst_trace (instruction s1) ! 1)"
      show ?thesis
      proof (cases "invokers srv (node_by (inst_trace (instruction s1) ! 1))")
        case None
        with c \<open>nxt = Some i\<close> Some have "s' = s1" by (simp add: call_split s1_def [symmetric])
        with s1 show ?thesis by simp
      next
        case (Some invoke)
        with c \<open>nxt = Some i\<close> \<open>currentNode i = Some node\<close>
        have "invoke_next srv invoke i (node_call (inst_trace (instruction s1) ! 1)) s1 = (r, s')"
          by (simp add: call_split s1_def [symmetric])
        from stays.frame_trans [OF s1 framesD [OF stays_invoke this]] show ?thesis .
      qed
    qed
  qed
qed

lemma stays_doExecute: "frames stays (doExecuteSingle srv)"
proof -
  have "frames stays (\<lambda>s. call srv (getNext (instruction s)) s)" using stays_call by (simp add: frames_def)
  then have "frames stays (jbind (before_call srv) (\<lambda>_ s. call srv (getNext (instruction s)) s))"
    by (intro stays.frames_bind stays.frames_before)
  then show ?thesis unfolding frames_def doExecute_split .
qed

lemma stays_attempt: "frames stays (attempt srv n)"
proof (rule stays.framesI)
  fix s r s'
  assume a: "attempt srv n s = (r, s')"
  show "stays s s'"
  proof (cases "processLoop srv (instruction s) n")
    case (Inl e)
    with a show ?thesis by (simp add: attempt_def stays.frame_refl)
  next
    case (Inr o')
    show ?thesis
    proof (cases o')
      case None
      with a Inr have "doExecuteSingle srv s = (r, s')" by (simp add: attempt_def)
      from framesD [OF stays_doExecute this] show ?thesis .
    next
      case (Some i)
      obtain u where u: "doExecuteSingle srv (s\<lparr>instruction := i\<rparr>) = (r, u)" "s' = u\<lparr>instruction := instruction s\<rparr>"
        using a Inr Some by (auto simp: attempt_def on_copy_def split: prod.splits)
      from framesD [OF stays_doExecute u(1)] show ?thesis by (simp add: stays_def u(2))
    qed
  qed
qed

section \<open>Executions return\<close>

text \<open>A template none of whose expressions fails, whatever the context.\<close>

definition safe_template :: "server \<Rightarrow> string \<Rightarrow> bool" where
  "safe_template srv t \<longleftrightarrow> (\<forall>ctx. first_failure (machine srv) ctx (pieces t) = None)"

lemma safe_render: "safe_template srv t \<Longrightarrow> \<exists>x s'. render_in srv (Some t) s = (Inr x, s')"
proof -
  assume "safe_template srv t"
  moreover have "failure (render_template vm ctx (Some t) k) = first_failure vm ctx (pieces t)" for vm ctx k
    unfolding render_template_def option.case failure_bind_jret run_one_pass run_failure ..
  ultimately have "failure (render_template (machine srv) (the_context s) (Some t) (draws s)) = None"
    by (simp add: safe_template_def)
  then show ?thesis
    by (cases "render_template (machine srv) (the_context s) (Some t) (draws s)")
      (auto simp: failure_def render_in_def split: sum.splits)
qed

lemma template_stays: "stays s s' \<Longrightarrow> template (instruction s') = template (instruction s)"
  unfolding stays_def template_def by (metis length_map)

lemma wait_returns: "\<exists>w s'. wait_time srv rate st n s = (Inr w, s')"
  by (simp add: wait_time_def nanoTime_def jbind_def)

lemma single_returns:
  assumes "safe_template srv (template (instruction s))"
  shows "\<exists>x s'. executeSingle srv True rate st n s = (Inr x, s') \<and> stays s s'"
proof -
  let ?t = "template (instruction s)"
  let ?f = "\<lambda>starts. jbind (nanoTime srv) (\<lambda>now. on_context (\<lambda>c. c\<lparr>delay_nanos := now - starts\<rparr>))"
  let ?body = "\<lambda>starts. jfinally (jcatch (attempt srv n) (caught srv True ?t)) (?f starts)"
  obtain w s1 where w: "wait_time srv rate st n s = (Inr w, s1)" using wait_returns by blast
  have s1: "stays s s1" by (rule framesD [OF stays.frames_wait w])
  define sl :: "(run_state, unit) stm" where "sl = (if w \<ge> 5 then sleep w else jret ())"
  have "\<exists>s2. sl s1 = (Inr (), s2)" by (simp add: sl_def sleep_def)
  then obtain s2 where s2: "sl s1 = (Inr (), s2)" by blast
  have "frames stays sl" unfolding sl_def by (intro stays.frames_if stays.frames_basic stays.frames_unchanged)
  with s2 have f2: "stays s1 s2" by (rule framesD [rotated])
  obtain starts s3 where s3: "nanoTime srv s2 = (Inr starts, s3)" by (simp add: nanoTime_def)
  have f3: "stays s2 s3" by (rule framesD [OF stays.frames_basic(2) s3])
  have "\<exists>s4. ?body starts s3 = (Inr (), s4)"
    by (simp add: jfinally_def jcatch_def caught_def nanoTime_def jbind_def on_context_def split: prod.split sum.split)
  then obtain s4 where s4: "?body starts s3 = (Inr (), s4)" by blast
  have f4: "stays s3 s4"
    by (rule framesD [OF stays.frames_finally [OF stays.frames_catch [OF stays_attempt stays.frames_caught] stays.frames_timing] s4])
  obtain x s5 where s5: "render_in srv (Some ?t) s4 = (Inr x, s5)" using safe_render [OF assms] by blast
  have f5: "stays s4 s5" by (rule framesD [OF stays.frames_basic(1) s5])
  have "executeSingle srv True rate st n s = (Inr (delay_nanos (the_context s5), case x of Some y \<Rightarrow> y | None \<Rightarrow> []), s5)"
    unfolding executeSingle_def Let_def
    by (rule bind_step, rule w, rule bind_step, rule s2 [unfolded sl_def], rule bind_step, rule s3,
        rule bind_step, rule s4, rule bind_step, rule s5) (simp split: option.split)
  moreover have "stays s s5"
    using s1 f2 f3 f4 f5 stays.frame_trans by blast
  ultimately show ?thesis by blast
qed

lemma executions_return:
  assumes "safe_template srv (template (instruction s))"
  shows "\<exists>rs s'. executions srv rate st i n s = (Inr rs, s') \<and> stays s s'"
  using assms
proof (induction n arbitrary: i s)
  case 0
  show ?case by (simp add: stays.frame_refl)
next
  case (Suc n)
  obtain x u where u: "executeSingle srv True rate st i s = (Inr x, u)" "stays s u"
    using single_returns [OF Suc.prems] by blast
  have "safe_template srv (template (instruction u))" using Suc.prems template_stays [OF u(2)] by simp
  from Suc.IH [OF this] obtain rs t where t: "executions srv rate st (i + 1) n u = (Inr rs, t)" "stays u t" by blast
  have "executions srv rate st i (Suc n) s = (Inr (x # rs), t)"
    unfolding executions.simps by (rule bind_step, rule u(1), rule bind_step, rule t(1)) simp
  with stays.frame_trans [OF u(2) t(2)] show ?case by blast
qed

text \<open>
  C28. A repeated case that counts its results returns them on one thread, if the text a node
  adds to its results can be rendered, the context has a response, as a new one has, and the
  first node of the case has no response headers to render: no status, random error, unreachable node, unknown protocol or failing header
  template of any execution aborts the case.
\<close>
theorem repeated_case_returns:
  assumes "1 < inst_times (instruction s)" and "inst_threads (instruction s) \<le> 1"
    and "inst_collectBy (instruction s) = ''stat_count''" and "response (the_context s) \<noteq> None"
    and "inst_trace (instruction s) = node # rest" and "node_responseHeaders node = []"
    and "safe_template srv (template (instruction s))"
  shows "\<exists>entries s'. execute srv s = (Inr (JMap entries), s')"
proof -
  define u where "u = s\<lparr>clock_reads := clock_reads s + 1\<rparr>"
  have n: "nanoTime srv s = (Inr (nano_time srv (clock_reads s)), u)" by (simp add: nanoTime_def u_def)
  have su: "stays s u" by (simp add: u_def stays.frame_counters)
  obtain rs t where t: "executions srv (inst_qps (instruction s), 1) (nano_time srv (clock_reads s)) 0 (nat (inst_times (instruction s))) u = (Inr rs, t)"
    and ut: "stays u t" using executions_return [of srv u] assms(7) template_stays [OF su] by metis
  have e: "executeForTimes srv True s = (Inr rs, t)"
    unfolding executeForTimes_def Let_def by (rule bind_step, rule n) (use assms(2) t in simp)
  define entries where "entries = map (\<lambda>(k, n). (k, JNum (nat_str n))) (group_counts rs)"
  have c: "collect_results srv ''stat_count'' rs = Inr (JMap entries)"
    by (simp add: collect_results_def group_count entries_def)
  have st: "stays s t" by (rule stays.frame_trans [OF su ut])
  then obtain r where r: "response (the_context t) = Some r" using assms(4) by (auto simp: stays_def)
  define v where "v = t\<lparr>the_context := (the_context t)\<lparr>response := Some (r\<lparr>resp_result := JMap entries\<rparr>)\<rparr>\<rparr>"
  have v: "set_result (JMap entries) t = (Inr (), v)" using r by (simp add: set_result_def on_context_def v_def)
  have "map node_responseHeaders (inst_trace (instruction v)) = [] # map node_responseHeaders rest"
    using st assms(5,6) by (simp add: stays_def v_def)
  then obtain node' where "currentNode (instruction v) = Some node'" "node_responseHeaders node' = []"
    by (cases "inst_trace (instruction v)") (auto simp: currentNode_def)
  then have h: "(case currentNode (instruction v) of None \<Rightarrow> (Inl NullPointer, v)
      | Some node \<Rightarrow> render_response_headers srv (node_responseHeaders node) v) = (Inr (), v)" by simp
  have "collects ''stat_count''" by (simp add: collects_def)
  then have "execute srv s = (Inr (JMap entries), v)"
    using assms(1) bind_step [of "executeForTimes srv True" s rs t]
    by (simp add: execute_def assms(3) jbind_def e c v h)
  then show ?thesis by blast
qed

lemma demo_pieces: "pieces ''{{env(APP)}} -> {{resultBody()}}'' =
    [Plain [], Expression ''env(APP)'', Plain '' -> '', Expression ''resultBody()'', Plain []]"
  by code_simp

lemma demo_safe: "safe_template demo_server ''{{env(APP)}} -> {{resultBody()}}''"
proof -
  have "match_function ''env(APP)'' = Some (''env'', ''APP'')" "match_function ''resultBody()'' = Some (''resultBody'', [])"
    by code_simp+
  moreover have "split_params ''APP'' = [''APP'']" by code_simp
  ultimately have "expr_failure demo_vm ctx ''env(APP)'' = None" "expr_failure demo_vm ctx ''resultBody()'' = None" for ctx
    by (simp_all add: expr_failure_def failure_def calc_def exprFuncs_def jbind_def list_get_def rbind_def)
  then show ?thesis by (simp add: safe_template_def demo_pieces demo_server_def)
qed

theorem repeated_case_returns_witness:
  "\<exists>entries s'. execute demo_server (demo_state (demo_instruction 3)) = (Inr (JMap entries), s')"
proof (rule repeated_case_returns)
  show "safe_template demo_server (template (instruction (demo_state (demo_instruction 3))))"
    using demo_safe by (simp add: template_def demo_state_def demo_instruction_def)
  show "inst_trace (instruction (demo_state (demo_instruction 3))) = new_node # [new_node\<lparr>node_call := Some ''b''\<rparr>]"
    by (simp add: demo_state_def demo_instruction_def)
qed (simp_all add: demo_state_def demo_instruction_def new_context_def new_node_def)

end
