(* ===== verification/ServiceThreads.thy ===== *)
theory ServiceThreads
  imports ServiceFrames Runs
begin

text \<open>
  The thread pool of \<open>PowerfulService.executeForTimes\<close>: several tasks execute one instruction in
  one context. They share both, but for the results in the context (answer, test method,
  delay), which \<open>RenderingContext\<close> keeps in a \<open>ThreadLocal\<close>. \<open>executeSingle\<close> is cut into its
  statements, each of which is atomic; between them any other thread may go on. The pool has
  at most 200 threads and no queue; all tasks of a case are submitted before the first of
  them goes on, so each has a thread of its own and the 201st is refused. Not represented:
  what the collections do when two threads change them at the same instant, that the other
  tasks are not waited for when one fails, that a task which ends before all are submitted
  leaves its thread, with its results, to another one, and the threads other requests use.
\<close>

section \<open>The statements of one thread\<close>

text \<open>
  What a thread does next, with its local variables: the template, the waiting time, the
  start, a patched copy of the instruction, the exception caught, the delay read.
\<close>

datatype phase =
    Begin
  | Asleep string int
  | Start string
  | Patch string int
  | Body string int "Instruction option" nat
  | Catch string int java_error
  | Finish string int
  | ReadDelay string
  | Render string int
  | Failed java_error

record thread =
  th_phase :: phase
  th_count :: nat
  th_left :: nat
  th_results :: "Result list"

definition new_thread :: "int \<Rightarrow> thread" where
  "new_thread n = \<lparr>th_phase = Begin, th_count = 0, th_left = nat n, th_results = []\<rparr>"

definition body_statements :: "server \<Rightarrow> (run_state, unit) stm list" where
  "body_statements srv = [propagate_headers, renderHeaders srv, invokeTestMethod srv, node_statement (delay srv),
     node_statement (errorByPercent srv), node_statement (status_code srv), \<lambda>s. call srv (getNext (instruction s)) s]"

text \<open>A statement on the shared instruction or on the thread's own copy.\<close>

definition on_instruction :: "Instruction option \<Rightarrow> (run_state, unit) stm \<Rightarrow> run_state \<Rightarrow> (java_error + unit) \<times> Instruction option \<times> run_state" where
  "on_instruction copy m s = (case copy of
      None \<Rightarrow> (case m s of (r, s') \<Rightarrow> (r, None, s'))
    | Some i \<Rightarrow> (case m (s\<lparr>instruction := i\<rparr>) of (r, s') \<Rightarrow> (r, Some (instruction s'), s'\<lparr>instruction := instruction s\<rparr>)))"

definition active :: "thread \<Rightarrow> bool" where
  "active t \<longleftrightarrow> (case th_phase t of Begin \<Rightarrow> 0 < th_left t | Failed e \<Rightarrow> False | _ \<Rightarrow> True)"

definition thread_step :: "server \<Rightarrow> int \<times> int \<Rightarrow> int \<Rightarrow> thread \<Rightarrow> run_state \<Rightarrow> thread \<times> run_state" where
  "thread_step srv rate startTime t s = (case th_phase t of
      Begin \<Rightarrow> (case wait_time srv rate startTime (th_count t) s of
          (Inl e, s') \<Rightarrow> (t\<lparr>th_phase := Failed e\<rparr>, s')
        | (Inr w, s') \<Rightarrow> (t\<lparr>th_phase := Asleep (template (instruction s)) w\<rparr>, s'))
    | Asleep tmpl w \<Rightarrow> (t\<lparr>th_phase := Start tmpl\<rparr>, if w \<ge> 5 then snd (sleep w s) else s)
    | Start tmpl \<Rightarrow> (t\<lparr>th_phase := Patch tmpl (nano_time srv (clock_reads s))\<rparr>, s\<lparr>clock_reads := clock_reads s + 1\<rparr>)
    | Patch tmpl starts \<Rightarrow> (case processLoop srv (instruction s) (th_count t) of
          Inl e \<Rightarrow> (t\<lparr>th_phase := Catch tmpl starts e\<rparr>, s)
        | Inr copy \<Rightarrow> (t\<lparr>th_phase := Body tmpl starts copy 0\<rparr>, s))
    | Body tmpl starts copy pc \<Rightarrow> (case on_instruction copy (body_statements srv ! pc) s of
          (Inl e, _, s') \<Rightarrow> (t\<lparr>th_phase := Catch tmpl starts e\<rparr>, s')
        | (Inr _, copy', s') \<Rightarrow>
            (t\<lparr>th_phase := if pc + 1 < length (body_statements srv) then Body tmpl starts copy' (pc + 1) else Finish tmpl starts\<rparr>, s'))
    | Catch tmpl starts e \<Rightarrow> (t\<lparr>th_phase := Finish tmpl starts\<rparr>, snd (caught srv True tmpl e s))
    | Finish tmpl starts \<Rightarrow> (t\<lparr>th_phase := ReadDelay tmpl\<rparr>,
        snd (jbind (nanoTime srv) (\<lambda>now. on_context (\<lambda>c. c\<lparr>delay_nanos := now - starts\<rparr>)) s))
    | ReadDelay tmpl \<Rightarrow> (t\<lparr>th_phase := Render tmpl (delay_nanos (the_context s))\<rparr>, s)
    | Render tmpl d \<Rightarrow> (case render_in srv (Some tmpl) s of
          (Inl e, s') \<Rightarrow> (t\<lparr>th_phase := Failed e\<rparr>, s')
        | (Inr x, s') \<Rightarrow> (t\<lparr>th_phase := Begin, th_count := th_count t + 1, th_left := th_left t - 1,
            th_results := th_results t @ [(d, case x of Some y \<Rightarrow> y | None \<Rightarrow> [])]\<rparr>, s'))
    | Failed e \<Rightarrow> (t, s))"

section \<open>The pool\<close>

text \<open>The results a thread has in the context, and the state as the thread sees it.\<close>

record own_results =
  own_response :: "PowerfulResponse option"
  own_invokeResult :: "string option"
  own_delay :: int

definition own_of :: "run_state \<Rightarrow> own_results" where
  "own_of s = \<lparr>own_response = response (the_context s), own_invokeResult = invokeResult (the_context s), own_delay = delay_nanos (the_context s)\<rparr>"

definition with_own :: "own_results \<Rightarrow> run_state \<Rightarrow> run_state" where
  "with_own c s = s\<lparr>the_context := (the_context s)\<lparr>response := own_response c, invokeResult := own_invokeResult c, delay_nanos := own_delay c\<rparr>\<rparr>"

definition fresh_results :: own_results where
  "fresh_results = \<lparr>own_response = Some new_response, own_invokeResult = None, own_delay = 0\<rparr>"

lemma own_simps_thread [simp]:
  "own_of (with_own c s) = c" "with_own c (with_own c' s) = with_own c s" "with_own (own_of s) s = s"
  "instruction (with_own c s) = instruction s"
  by (simp_all add: own_of_def with_own_def)

text \<open>Any active thread may go next; a schedule says which. \<open>shared\<close> has the results of the caller.\<close>

record pool_state =
  threads :: "thread list"
  owns :: "own_results list"
  shared :: run_state

definition can_go :: "pool_state \<Rightarrow> nat \<Rightarrow> bool" where
  "can_go p i \<longleftrightarrow> i < length (threads p) \<and> active (threads p ! i)"

definition go :: "server \<Rightarrow> int \<times> int \<Rightarrow> int \<Rightarrow> nat \<Rightarrow> pool_state \<Rightarrow> pool_state" where
  "go srv rate startTime i p = (case thread_step srv rate startTime (threads p ! i) (with_own (owns p ! i) (shared p)) of
     (t, s) \<Rightarrow> \<lparr>threads = (threads p)[i := t], owns = (owns p)[i := own_of s], shared = with_own (own_of (shared p)) s\<rparr>)"

definition ended :: "pool_state \<Rightarrow> bool" where
  "ended p \<longleftrightarrow> list_all (\<lambda>t. \<not> active t) (threads p)"

text \<open>\<open>future.get()\<close> of one task after the other.\<close>

definition pool_result :: "pool_state \<Rightarrow> java_error + Result list list" where
  "pool_result p = rmap (\<lambda>t. case th_phase t of Failed e \<Rightarrow> Inl (TaskFailed e) | _ \<Rightarrow> Inr (th_results t)) (threads p)"

section \<open>Every schedule comes to an end\<close>

text \<open>The statements a thread has before it.\<close>

definition rank :: "phase \<Rightarrow> nat" where
  "rank ph = (case ph of Asleep _ _ \<Rightarrow> 15 | Start _ \<Rightarrow> 14 | Patch _ _ \<Rightarrow> 13 | Body _ _ _ pc \<Rightarrow> 5 + (7 - pc) | Catch _ _ _ \<Rightarrow> 4
     | Finish _ _ \<Rightarrow> 3 | ReadDelay _ \<Rightarrow> 2 | Render _ _ \<Rightarrow> 1 | _ \<Rightarrow> 0)"

definition thread_work :: "thread \<Rightarrow> nat" where
  "thread_work t = (case th_phase t of Begin \<Rightarrow> 16 * th_left t | Failed _ \<Rightarrow> 0 | ph \<Rightarrow> 16 * (th_left t - 1) + rank ph)"

lemma body_length [simp]: "length (body_statements srv) = 7"
  by (simp add: body_statements_def)

lemma step_works:
  assumes "active t"
  shows "thread_work (fst (thread_step srv rate st t s)) < thread_work t"
proof (cases "th_phase t")
  case Begin
  then show ?thesis using assms
    by (cases "wait_time srv rate st (th_count t) s"; cases "fst (wait_time srv rate st (th_count t) s)")
      (simp_all add: active_def thread_work_def thread_step_def rank_def)
next
  case (Patch tmpl starts)
  then show ?thesis
    by (cases "processLoop srv (instruction s) (th_count t)") (simp_all add: thread_work_def thread_step_def rank_def)
next
  case (Body tmpl starts copy pc)
  obtain r copy' s' where "on_instruction copy (body_statements srv ! pc) s = (r, copy', s')" by (metis prod_cases3)
  with Body show ?thesis by (cases r) (auto simp: thread_work_def thread_step_def rank_def)
next
  case (Render tmpl d)
  then show ?thesis
    by (cases "render_in srv (Some tmpl) s"; cases "fst (render_in srv (Some tmpl) s)")
      (simp_all add: thread_work_def thread_step_def rank_def)
next
  case (Failed e)
  then show ?thesis using assms by (simp add: active_def)
qed (simp_all add: thread_work_def thread_step_def rank_def)

definition pool_work :: "pool_state \<Rightarrow> nat" where
  "pool_work p = (\<Sum>t\<leftarrow>threads p. thread_work t)"

lemma sum_list_less: "i < length xs \<Longrightarrow> f y < f (xs ! i) \<Longrightarrow> (\<Sum>x\<leftarrow>xs[i := y]. f x) < (\<Sum>x\<leftarrow>xs. f x :: nat)"
  by (induction xs arbitrary: i) (auto split: nat.split)

lemma go_works: "can_go p i \<Longrightarrow> pool_work (go srv rate st i p) < pool_work p"
  using step_works [of "threads p ! i" srv rate st "with_own (owns p ! i) (shared p)"]
  by (auto simp: can_go_def go_def pool_work_def intro!: sum_list_less split: prod.split)

interpretation pool: metered_runs can_go "go srv rate st" "\<lambda>_. True" "\<lambda>p. int (pool_work p)" "\<lambda>_. - 1"
  for srv rate st
proof
  show "int (pool_work (go srv rate st i p)) \<le> int (pool_work p) + - 1" if "can_go p i" for p i
    using go_works [OF that, of srv rate st] by linarith
qed simp

section \<open>Results\<close>

text \<open>A thread that has not failed has a result for every execution that is over.\<close>

definition counted :: "nat \<Rightarrow> thread \<Rightarrow> bool" where
  "counted n t \<longleftrightarrow> (case th_phase t of
      Failed _ \<Rightarrow> True
    | Begin \<Rightarrow> length (th_results t) + th_left t = n
    | _ \<Rightarrow> length (th_results t) + th_left t = n \<and> 0 < th_left t)"

lemma step_counts:
  assumes "active t" and "counted n t"
  shows "counted n (fst (thread_step srv rate st t s))"
proof (cases "th_phase t")
  case Begin
  then show ?thesis using assms
    by (cases "wait_time srv rate st (th_count t) s"; cases "fst (wait_time srv rate st (th_count t) s)")
      (simp_all add: active_def counted_def thread_step_def)
next
  case (Patch tmpl starts)
  then show ?thesis using assms
    by (cases "processLoop srv (instruction s) (th_count t)") (simp_all add: counted_def thread_step_def)
next
  case (Body tmpl starts copy pc)
  obtain r copy' s' where "on_instruction copy (body_statements srv ! pc) s = (r, copy', s')" by (metis prod_cases3)
  with Body show ?thesis using assms by (cases r) (auto simp: counted_def thread_step_def)
next
  case (Render tmpl d)
  then show ?thesis using assms
    by (cases "render_in srv (Some tmpl) s"; cases "fst (render_in srv (Some tmpl) s)")
      (auto simp: counted_def thread_step_def)
qed (use assms in \<open>simp_all add: counted_def thread_step_def active_def\<close>)

interpretation counted_pool: metered_runs can_go "go srv rate st" "\<lambda>p. list_all2 counted ns (threads p)" "\<lambda>_. 0" "\<lambda>_. 0"
  for srv rate st ns
proof
  show "list_all2 counted ns (threads (go srv rate st i p))" if "list_all2 counted ns (threads p)" "can_go p i" for p i
  proof -
    have i: "i < length (threads p)" "active (threads p ! i)" using that(2) by (simp_all add: can_go_def)
    have "counted (ns ! i) (threads p ! i)" using that(1) i(1) by (simp add: list_all2_conv_all_nth)
    then have "counted (ns ! i) (fst (thread_step srv rate st (threads p ! i) (with_own (owns p ! i) (shared p))))"
      by (rule step_counts [OF i(2)])
    from list_all2_update_cong [OF that(1) this, of i] show ?thesis
      by (simp add: go_def split: prod.split) auto
  qed
qed simp

lemma counted_new: "list_all2 counted (map nat ts) (map new_thread ts)"
  by (simp add: list_all2_conv_all_nth counted_def new_thread_def)

lemma pool_result_lengths:
  "list_all2 counted ns qs \<Longrightarrow> list_all (\<lambda>t. \<not> active t) qs \<Longrightarrow>
    rmap (\<lambda>t. case th_phase t of Failed e \<Rightarrow> Inl (TaskFailed e) | _ \<Rightarrow> Inr (th_results t)) qs = Inr rss \<Longrightarrow> map length rss = ns"
proof (induction ns qs arbitrary: rss rule: list_all2_induct)
  case (Cons n ns t qs)
  from Cons.prems obtain rs rss' where r: "rss = rs # rss'"
    "(case th_phase t of Failed e \<Rightarrow> Inl (TaskFailed e) | _ \<Rightarrow> Inr (th_results t)) = Inr rs"
    "rmap (\<lambda>t. case th_phase t of Failed e \<Rightarrow> Inl (TaskFailed e) | _ \<Rightarrow> Inr (th_results t)) qs = Inr rss'"
    by (auto simp: rbind_eq_Inr)
  have "th_phase t = Begin" "th_left t = 0" using Cons.prems(1) r(2) by (auto simp: active_def split: phase.splits)
  with Cons.hyps(1) r(2) have "length rs = n" by (simp add: counted_def)
  with Cons.IH Cons.prems(1) r show ?case by simp
qed simp

definition start_pool :: "int list \<Rightarrow> run_state \<Rightarrow> pool_state" where
  "start_pool ts s = \<lparr>threads = map new_thread ts, owns = replicate (length ts) fresh_results, shared = s\<rparr>"

lemma start_work: "pool_work (start_pool ts s) = 16 * sum_list (map nat ts)"
  by (induction ts) (simp_all add: start_pool_def pool_work_def thread_work_def new_thread_def)

section \<open>Scheduled pools\<close>

text \<open>A scheduler picks one of the threads that can go on, by its number among them.\<close>

type_synonym scheduler = "pool_state \<Rightarrow> nat"

definition runnable :: "pool_state \<Rightarrow> nat list" where
  "runnable p = filter (can_go p) [0..<length (threads p)]"

lemma runnable_pick:
  assumes "runnable p \<noteq> []"
  shows "can_go p (runnable p ! (k mod length (runnable p)))"
proof -
  have "runnable p ! (k mod length (runnable p)) \<in> set (runnable p)" using assms by simp
  then show ?thesis unfolding runnable_def by auto
qed

lemma nothing_runnable: "runnable p = [] \<longleftrightarrow> ended p"
  by (auto simp: runnable_def ended_def can_go_def filter_empty_conv list_all_length)

function run_pool :: "scheduler \<Rightarrow> server \<Rightarrow> int \<times> int \<Rightarrow> int \<Rightarrow> pool_state \<Rightarrow> pool_state" where
  "run_pool sched srv rate st p = (if runnable p = [] then p
     else run_pool sched srv rate st (go srv rate st (runnable p ! (sched p mod length (runnable p))) p))"
  by pat_completeness auto
termination
  by (relation "measure (\<lambda>(_, _, _, _, p). pool_work p)") (simp_all add: go_works runnable_pick)

declare run_pool.simps [simp del]

lemma run_pool_runs: "\<exists>schedule. runs can_go (go srv rate st) p schedule (run_pool sched srv rate st p)"
proof (induction sched srv rate st p rule: run_pool.induct)
  case (1 sched srv rate st p)
  show ?case
  proof (cases "runnable p = []")
    case True
    then show ?thesis by (auto simp: run_pool.simps [of _ _ _ _ p] runs_simps intro!: exI [of _ "[]"])
  next
    case False
    with "1.IH" obtain schedule where
      "runs can_go (go srv rate st) (go srv rate st (runnable p ! (sched p mod length (runnable p))) p) schedule (run_pool sched srv rate st p)"
      by (auto simp: run_pool.simps [of _ _ _ _ p])
    from run_more [of can_go, OF runnable_pick [OF False] this] show ?thesis ..
  qed
qed

lemma run_pool_ended: "ended (run_pool sched srv rate st p)"
proof (induction sched srv rate st p rule: run_pool.induct)
  case (1 sched srv rate st p)
  then show ?case by (cases "runnable p = []") (simp_all add: run_pool.simps [of _ _ _ _ p] nothing_runnable)
qed

text \<open>
  The pool of \<open>PowerfulService\<close> under a scheduler. When a task is refused, \<open>submit\<close> throws in
  the caller; those accepted before run nevertheless.
\<close>

definition maximumPoolSize :: nat where
  "maximumPoolSize = 200"

definition scheduled_pool :: "scheduler \<Rightarrow> server \<Rightarrow> int \<Rightarrow> int list \<Rightarrow> (run_state, Result list list) stm" where
  "scheduled_pool sched srv st ts s =
     (let p = run_pool sched srv (inst_qps (instruction s), int (length ts)) st (start_pool (take maximumPoolSize ts) s)
      in (if length ts \<le> maximumPoolSize then pool_result p else Inl (LibraryFailure ''RejectedExecutionException''), shared p))"

definition with_pool :: "scheduler \<Rightarrow> server \<Rightarrow> server" where
  "with_pool sched srv = srv\<lparr>pool := scheduled_pool sched srv\<rparr>"

lemma scheduled_pool_lengths:
  assumes "scheduled_pool sched srv st ts s = (Inr rss, s')"
  shows "map length rss = map nat ts"
proof -
  have few: "length ts \<le> maximumPoolSize" using assms by (auto simp: scheduled_pool_def Let_def split: if_splits)
  let ?rate = "(inst_qps (instruction s), int (length ts))"
  let ?p = "run_pool sched srv ?rate st (start_pool ts s)"
  obtain schedule where "runs can_go (go srv ?rate st) (start_pool ts s) schedule ?p" using run_pool_runs by blast
  then have "list_all2 counted (map nat ts) (threads ?p)"
    using counted_pool.run_meter [of srv ?rate st "start_pool ts s" schedule ?p "map nat ts"] counted_new
    by (simp add: start_pool_def)
  with assms few pool_result_lengths run_pool_ended show ?thesis
    by (auto simp: scheduled_pool_def Let_def ended_def pool_result_def)
qed

section \<open>One thread alone\<close>

text \<open>The statements of a body one after the other.\<close>

fun run_list :: "('s, unit) stm list \<Rightarrow> ('s, unit) stm" where
  "run_list [] = jret ()"
| "run_list (m # ms) = jbind m (\<lambda>_. run_list ms)"

lemma body_in_order: "run_list (body_statements srv) s = doExecuteSingle srv s"
proof -
  have last: "jbind (m :: (run_state, unit) stm) (\<lambda>_. jret ()) = m" for m
    by (rule ext) (simp add: jbind_def split: prod.split sum.split)
  have "run_list (body_statements srv) = doExecuteSingle srv"
    unfolding body_statements_def doExecuteSingle_def run_list.simps last ..
  then show ?thesis by simp
qed

lemma attempt_statements: "attempt srv n s = (case processLoop srv (instruction s) n of
    Inl e \<Rightarrow> (Inl e, s)
  | Inr copy \<Rightarrow> (case on_instruction copy (run_list (body_statements srv)) s of (r, _, s') \<Rightarrow> (r, s')))"
  by (auto simp: attempt_def on_instruction_def on_copy_def body_in_order split: sum.split option.split prod.split)

lemma on_instruction_bind:
  "on_instruction copy (jbind m f) s = (case on_instruction copy m s of
      (Inl e, copy', s') \<Rightarrow> (Inl e, copy', s')
    | (Inr x, copy', s') \<Rightarrow> on_instruction copy' (f x) s')"
  by (auto simp: on_instruction_def jbind_def split: option.split prod.split sum.split)

text \<open>One thread that sees \<open>s\<close>, called by one with results \<open>c\<close>.\<close>

definition alone :: "own_results \<Rightarrow> thread \<Rightarrow> run_state \<Rightarrow> pool_state" where
  "alone c t s = \<lparr>threads = [t], owns = [own_of s], shared = with_own c s\<rparr>"

lemma alone_steps:
  assumes "active t" and "thread_step srv rate st t s = (t', s')"
  shows "run_pool sched srv rate st (alone c t s) = run_pool sched srv rate st (alone c t' s')"
proof -
  have "runnable (alone c t s) = [0]" using assms(1) by (simp add: runnable_def can_go_def alone_def)
  moreover have "go srv rate st 0 (alone c t s) = alone c t' s'" using assms(2) by (simp add: go_def alone_def)
  ultimately show ?thesis by (subst run_pool.simps) simp
qed

lemma alone_stops: "\<not> active t \<Longrightarrow> run_pool sched srv rate st (alone c t s) = alone c t s"
  by (subst run_pool.simps) (simp add: runnable_def can_go_def alone_def)

lemma alone_body:
  assumes "pc < 7"
  shows "run_pool sched srv rate st (alone c (t\<lparr>th_phase := Body tmpl starts copy pc\<rparr>) s) =
    (case on_instruction copy (run_list (drop pc (body_statements srv))) s of
        (Inl e, _, s') \<Rightarrow> run_pool sched srv rate st (alone c (t\<lparr>th_phase := Catch tmpl starts e\<rparr>) s')
      | (Inr _, _, s') \<Rightarrow> run_pool sched srv rate st (alone c (t\<lparr>th_phase := Finish tmpl starts\<rparr>) s'))"
  using assms
proof (induction "7 - pc" arbitrary: pc copy s)
  case (Suc k)
  obtain r copy' s' where b: "on_instruction copy (body_statements srv ! pc) s = (r, copy', s')" by (metis prod_cases3)
  have d: "drop pc (body_statements srv) = body_statements srv ! pc # drop (pc + 1) (body_statements srv)"
    using Suc.prems by (simp add: Cons_nth_drop_Suc)
  have a: "active (t\<lparr>th_phase := Body tmpl starts copy pc\<rparr>)" by (simp add: active_def)
  show ?case
  proof (cases r)
    case (Inl e)
    with b have "thread_step srv rate st (t\<lparr>th_phase := Body tmpl starts copy pc\<rparr>) s = (t\<lparr>th_phase := Catch tmpl starts e\<rparr>, s')"
      by (simp add: thread_step_def)
    from alone_steps [OF a this] show ?thesis using b Inl by (simp add: d on_instruction_bind)
  next
    case (Inr x)
    show ?thesis
    proof (cases "pc + 1 < 7")
      case True
      with b Inr have "thread_step srv rate st (t\<lparr>th_phase := Body tmpl starts copy pc\<rparr>) s = (t\<lparr>th_phase := Body tmpl starts copy' (pc + 1)\<rparr>, s')"
        by (simp add: thread_step_def)
      from alone_steps [OF a this] Suc.hyps(1) [of "pc + 1" copy' s'] Suc.hyps(2) True show ?thesis
        using b Inr by (simp add: d on_instruction_bind)
    next
      case False
      with b Inr have "thread_step srv rate st (t\<lparr>th_phase := Body tmpl starts copy pc\<rparr>) s = (t\<lparr>th_phase := Finish tmpl starts\<rparr>, s')"
        by (simp add: thread_step_def)
      moreover have "drop (pc + 1) (body_statements srv) = []" using False by simp
      moreover have "on_instruction copy' (jret ()) s' = (Inr (), copy', s')"
        by (simp add: on_instruction_def split: option.split)
      ultimately show ?thesis using alone_steps [OF a] b Inr by (simp add: d on_instruction_bind)
    qed
  qed
qed simp

text \<open>The end of \<open>executeSingle\<close>, from its \<open>finally\<close> on.\<close>

definition closing :: "server \<Rightarrow> string \<Rightarrow> int \<Rightarrow> (run_state, Result) stm" where
  "closing srv tmpl starts = jbind (jbind (nanoTime srv) (\<lambda>now. on_context (\<lambda>c. c\<lparr>delay_nanos := now - starts\<rparr>))) (\<lambda>_.
     jbind (render_in srv (Some tmpl)) (\<lambda>t s'. (Inr (delay_nanos (the_context s'), case t of Some x \<Rightarrow> x | None \<Rightarrow> []), s')))"

text \<open>The thread after an execution.\<close>

definition after_execution :: "thread \<Rightarrow> java_error + Result \<Rightarrow> thread" where
  "after_execution t r = (case r of
      Inl e \<Rightarrow> t\<lparr>th_phase := Failed e\<rparr>
    | Inr x \<Rightarrow> t\<lparr>th_phase := Begin, th_count := th_count t + 1, th_left := th_left t - 1, th_results := th_results t @ [x]\<rparr>)"

lemma delay_kept: "render_in srv tmpl s = (r, s') \<Longrightarrow> the_context s' = the_context s"
  by (auto simp: render_in_def split: prod.splits)

lemma alone_closing:
  "run_pool sched srv rate st (alone c (t\<lparr>th_phase := Finish tmpl starts\<rparr>) s) =
    (case closing srv tmpl starts s of (r, s') \<Rightarrow> run_pool sched srv rate st (alone c (after_execution t r) s'))"
proof -
  let ?run = "run_pool sched srv rate st"
  let ?s = "snd (jbind (nanoTime srv) (\<lambda>now. on_context (\<lambda>c. c\<lparr>delay_nanos := now - starts\<rparr>)) s)"
  obtain r s' where r: "render_in srv (Some tmpl) ?s = (r, s')" by (cases "render_in srv (Some tmpl) ?s")
  note c = delay_kept [OF r]
  have "?run (alone c (t\<lparr>th_phase := Finish tmpl starts\<rparr>) s) = ?run (alone c (t\<lparr>th_phase := ReadDelay tmpl\<rparr>) ?s)"
    by (rule alone_steps) (simp_all add: active_def thread_step_def)
  also have "\<dots> = ?run (alone c (t\<lparr>th_phase := Render tmpl (delay_nanos (the_context ?s))\<rparr>) ?s)"
    by (rule alone_steps) (simp_all add: active_def thread_step_def)
  also have "\<dots> = ?run (alone c (after_execution t (rbind r (\<lambda>x. Inr (delay_nanos (the_context ?s), case x of Some y \<Rightarrow> y | None \<Rightarrow> [])))) s')"
    by (rule alone_steps) (use r in \<open>cases r; simp_all add: active_def thread_step_def after_execution_def\<close>)+
  also have "closing srv tmpl starts s = (rbind r (\<lambda>x. Inr (delay_nanos (the_context ?s), case x of Some y \<Rightarrow> y | None \<Rightarrow> [])), s')"
    using r c by (cases r) (simp_all add: closing_def jbind_def nanoTime_def on_context_def)
  ultimately show ?thesis by simp
qed

lemma executeSingle_closing:
  "executeSingle srv True rate st n s = jbind (wait_time srv rate st n) (\<lambda>w s1.
     let s2 = (if w \<ge> 5 then snd (sleep w s1) else s1);
         starts = nano_time srv (clock_reads s2);
         s3 = s2\<lparr>clock_reads := clock_reads s2 + 1\<rparr>
     in case attempt srv n s3 of
          (Inl e, s4) \<Rightarrow> closing srv (template (instruction s)) starts (snd (caught srv True (template (instruction s)) e s4))
        | (Inr _, s4) \<Rightarrow> closing srv (template (instruction s)) starts s4) s"
  by (simp add: executeSingle_def jbind_def closing_def Let_def nanoTime_def sleep_def jfinally_def jcatch_def caught_def on_context_def
      split: prod.split sum.split)

lemma alone_attempt:
  "run_pool sched srv rate st (alone c (t\<lparr>th_phase := Patch tmpl starts\<rparr>) s) = (case attempt srv (th_count t) s of
      (Inl e, s') \<Rightarrow> run_pool sched srv rate st (alone c (t\<lparr>th_phase := Catch tmpl starts e\<rparr>) s')
    | (Inr _, s') \<Rightarrow> run_pool sched srv rate st (alone c (t\<lparr>th_phase := Finish tmpl starts\<rparr>) s'))"
proof (cases "processLoop srv (instruction s) (th_count t)")
  case (Inl e)
  have "run_pool sched srv rate st (alone c (t\<lparr>th_phase := Patch tmpl starts\<rparr>) s) = run_pool sched srv rate st (alone c (t\<lparr>th_phase := Catch tmpl starts e\<rparr>) s)"
    by (rule alone_steps) (use Inl in \<open>simp_all add: active_def thread_step_def\<close>)
  with Inl show ?thesis by (simp add: attempt_statements)
next
  case (Inr copy)
  have "run_pool sched srv rate st (alone c (t\<lparr>th_phase := Patch tmpl starts\<rparr>) s) = run_pool sched srv rate st (alone c (t\<lparr>th_phase := Body tmpl starts copy 0\<rparr>) s)"
    by (rule alone_steps) (use Inr in \<open>simp_all add: active_def thread_step_def\<close>)
  also have "\<dots> = (case on_instruction copy (run_list (body_statements srv)) s of
        (Inl e, _, s') \<Rightarrow> run_pool sched srv rate st (alone c (t\<lparr>th_phase := Catch tmpl starts e\<rparr>) s')
      | (Inr _, _, s') \<Rightarrow> run_pool sched srv rate st (alone c (t\<lparr>th_phase := Finish tmpl starts\<rparr>) s'))"
    by (subst alone_body) simp_all
  finally show ?thesis using Inr by (simp add: attempt_statements split: prod.split sum.split)
qed

lemma alone_execution:
  assumes "th_phase t = Begin" and "0 < th_left t"
  shows "run_pool sched srv rate st (alone c t s) =
    (case executeSingle srv True rate st (th_count t) s of (r, s') \<Rightarrow> run_pool sched srv rate st (alone c (after_execution t r) s'))"
proof -
  let ?run = "run_pool sched srv rate st" and ?tmpl = "template (instruction s)"
  obtain w s1 where w: "wait_time srv rate st (th_count t) s = (w, s1)" by fastforce
  have a: "active t" using assms by (simp add: active_def)
  show ?thesis
  proof (cases w)
    case (Inl e)
    then have "thread_step srv rate st t s = (after_execution t (Inl e), s1)"
      using assms w by (simp add: thread_step_def after_execution_def)
    from alone_steps [OF a this] show ?thesis using w Inl by (simp add: executeSingle_closing jbind_def)
  next
    case (Inr v)
    let ?s2 = "if v \<ge> 5 then snd (sleep v s1) else s1"
    let ?starts = "nano_time srv (clock_reads ?s2)" and ?s3 = "?s2\<lparr>clock_reads := clock_reads ?s2 + 1\<rparr>"
    have "?run (alone c t s) = ?run (alone c (t\<lparr>th_phase := Asleep ?tmpl v\<rparr>) s1)"
      by (rule alone_steps [OF a]) (use assms w Inr in \<open>simp add: thread_step_def\<close>)
    also have "\<dots> = ?run (alone c (t\<lparr>th_phase := Start ?tmpl\<rparr>) ?s2)"
      by (rule alone_steps) (simp_all add: active_def thread_step_def)
    also have "\<dots> = ?run (alone c (t\<lparr>th_phase := Patch ?tmpl ?starts\<rparr>) ?s3)"
      by (rule alone_steps) (simp_all add: active_def thread_step_def)
    also have "\<dots> = (case attempt srv (th_count t) ?s3 of
          (Inl e, s4) \<Rightarrow> ?run (alone c (t\<lparr>th_phase := Catch ?tmpl ?starts e\<rparr>) s4)
        | (Inr _, s4) \<Rightarrow> ?run (alone c (t\<lparr>th_phase := Finish ?tmpl ?starts\<rparr>) s4))"
      by (rule alone_attempt)
    also have "\<dots> = (case executeSingle srv True rate st (th_count t) s of (r, s') \<Rightarrow> ?run (alone c (after_execution t r) s'))"
    proof -
      have "?run (alone c (t\<lparr>th_phase := Catch ?tmpl ?starts e\<rparr>) s4) =
          ?run (alone c (t\<lparr>th_phase := Finish ?tmpl ?starts\<rparr>) (snd (caught srv True ?tmpl e s4)))" for e s4
        by (rule alone_steps) (simp_all add: active_def thread_step_def)
      moreover obtain r4 s4 where at: "attempt srv (th_count t) ?s3 = (r4, s4)" by fastforce
      moreover have "executeSingle srv True rate st (th_count t) s = (case r4 of
          Inl e \<Rightarrow> closing srv ?tmpl ?starts (snd (caught srv True ?tmpl e s4))
        | Inr _ \<Rightarrow> closing srv ?tmpl ?starts s4)"
        using at w Inr by (simp add: executeSingle_closing jbind_def Let_def split del: if_split)
      ultimately show ?thesis by (cases r4) (simp_all add: alone_closing split del: if_split)
    qed
    finally show ?thesis .
  qed
qed

lemma alone_all:
  assumes "th_phase t = Begin" and "th_left t = n" and "q = run_pool sched srv rate st (alone c t s)"
  shows "(pool_result q, owns q, shared q) = (case executions srv rate st (th_count t) n s of
      (Inl e, s') \<Rightarrow> (Inl (TaskFailed e), [own_of s'], with_own c s')
    | (Inr rs, s') \<Rightarrow> (Inr [th_results t @ rs], [own_of s'], with_own c s'))"
  using assms
proof (induction n arbitrary: t s q)
  case 0
  have "\<not> active t" using "0.prems" by (simp add: active_def)
  with "0.prems" show ?case by (simp add: alone_stops, simp add: alone_def pool_result_def)
next
  case (Suc n)
  obtain r u where e: "executeSingle srv True rate st (th_count t) s = (r, u)" by fastforce
  have q: "q = run_pool sched srv rate st (alone c (after_execution t r) u)"
    using alone_execution [of t] Suc.prems e by simp
  show ?case
  proof (cases r)
    case (Inl err)
    have "q = alone c (after_execution t r) u"
      unfolding q by (rule alone_stops) (simp add: Inl after_execution_def active_def)
    then show ?thesis using Inl e by (simp add: after_execution_def pool_result_def jbind_def alone_def)
  next
    case (Inr x)
    let ?t = "after_execution t r"
    have t: "th_phase ?t = Begin" "th_left ?t = n" "th_count ?t = th_count t + 1" "th_results ?t = th_results t @ [x]"
      using Inr Suc.prems(2) by (simp_all add: after_execution_def)
    from Suc.IH [OF t(1,2) q] show ?thesis
      unfolding t using e Inr by (simp add: jbind_def split: prod.split sum.split)
  qed
qed

text \<open>
  C17. The pool with a single task, whatever the scheduler, does what the sequential
  repetition does in a thread that has no results yet: the same results in the same final
  state, and the same exception, wrapped, where one is thrown; the results the caller has in
  the context stay. The statement-wise model of a thread thus refines \<open>executeSingle\<close>.
\<close>
theorem one_task_is_sequential:
  "scheduled_pool sched srv st [n] s = (case executions srv (inst_qps (instruction s), 1) st 0 (nat n) (with_own fresh_results s) of
      (Inl e, s') \<Rightarrow> (Inl (TaskFailed e), with_own (own_of s) s')
    | (Inr rs, s') \<Rightarrow> (Inr [rs], with_own (own_of s) s'))"
proof -
  have "start_pool [n] s = alone (own_of s) (new_thread n) (with_own fresh_results s)"
    by (simp add: start_pool_def alone_def)
  moreover have "th_phase (new_thread n) = Begin" "th_left (new_thread n) = nat n" "th_count (new_thread n) = 0" "th_results (new_thread n) = []"
    by (simp_all add: new_thread_def)
  ultimately show ?thesis
    using alone_all [of "new_thread n" "nat n" _ sched srv "(inst_qps (instruction s), 1)" st "own_of s" "with_own fresh_results s"]
    by (simp add: scheduled_pool_def maximumPoolSize_def Let_def split: prod.splits sum.splits)
qed

text \<open>Too many threads: the case fails with the exception of \<open>submit\<close>, though most of its tasks have run.\<close>

lemma pool_refuses:
  assumes "maximumPoolSize < length ts"
  shows "fst (scheduled_pool sched srv st ts s) = Inl (LibraryFailure ''RejectedExecutionException'')"
  using assms by (simp add: scheduled_pool_def Let_def)

end
