(* ===== verification/ServicePools.thy ===== *)
theory ServicePools
  imports ServiceThreads ServiceCalls
begin

text \<open>
  The service over its own thread pool, under any scheduler: what was proved of every pool
  that keeps \<open>pool_law\<close> holds of it; threads that take turns keep their answers apart.
\<close>

section \<open>Two threads, one context\<close>

text \<open>A service that answers each call with the number of the call.\<close>

definition numbering_server :: server where
  "numbering_server = demo_server\<lparr>invokers := \<lambda>by. Some (\<lambda>k i c. Inr \<lparr>resp_headers = [], resp_result = JStr (nat_str k), resp_status = Some ''200''\<rparr>)\<rparr>"

definition two_threads :: run_state where
  "two_threads = demo_state ((demo_instruction 2)\<lparr>inst_threads := 2\<rparr>)"

text \<open>One thread after the other, and the threads in turn.\<close>

definition first_come :: scheduler where
  "first_come p = 0"

definition in_turn :: scheduler where
  "in_turn p = (case map thread_work (threads p) of [a, b] \<Rightarrow> if a < b then 1 else 0 | _ \<Rightarrow> 0)"

definition texts :: "java_error + Result list list \<Rightarrow> java_error + string list list" where
  "texts r = rbind r (\<lambda>rss. Inr (map (map snd) rss))"

lemma answers_kept_apart:
  "texts (fst (scheduled_pool first_come numbering_server 0 [1, 1] two_threads)) = Inr [[''a -> 0''], [''a -> 1'']]"
  "texts (fst (scheduled_pool in_turn numbering_server 0 [1, 1] two_threads)) = Inr [[''a -> 0''], [''a -> 1'']]"
  by code_simp+

section \<open>What the schedule cannot change\<close>

text \<open>
  How often a thread may still call another node: once for each execution it has before it,
  and for the one it is in until the call is over.
\<close>

definition calls_left :: "thread \<Rightarrow> nat" where
  "calls_left t = (case th_phase t of
      Catch _ _ _ \<Rightarrow> th_left t - 1
    | Finish _ _ \<Rightarrow> th_left t - 1
    | ReadDelay _ \<Rightarrow> th_left t - 1
    | Render _ _ \<Rightarrow> th_left t - 1
    | Failed _ \<Rightarrow> 0
    | _ \<Rightarrow> th_left t)"

definition in_body :: "thread \<Rightarrow> bool" where
  "in_body t \<longleftrightarrow> (case th_phase t of Begin \<Rightarrow> True | Failed _ \<Rightarrow> True
     | Body _ _ _ pc \<Rightarrow> pc < 7 \<and> 0 < th_left t | _ \<Rightarrow> 0 < th_left t)"

lemma quiet_invocations: "quiet m \<Longrightarrow> invocations (snd (m s)) = invocations s"
  by (simp add: quiet_def)

lemma body_sends:
  assumes "pc < 7"
  shows "length (invocations (snd ((body_statements srv ! pc) s))) \<le> length (invocations s) + (if pc = 6 then 1 else 0)"
proof (cases "pc = 6")
  case True
  obtain r s' where c: "call srv (getNext (instruction s)) s = (r, s')" by fastforce
  from call_sends [OF c] obtain js where "invocations s' = invocations s @ js" "length js \<le> 1" by (auto simp: sends_next_def)
  then show ?thesis using c True by (simp add: body_statements_def)
next
  case False
  with assms have "pc = 0 \<or> pc = 1 \<or> pc = 2 \<or> pc = 3 \<or> pc = 4 \<or> pc = 5" by linarith
  then have "quiet (body_statements srv ! pc)"
    unfolding body_statements_def by (elim disjE) (simp_all add: quiet_parts)
  with False show ?thesis by (simp add: quiet_invocations)
qed

lemma on_instruction_sends:
  assumes "\<And>s. length (invocations (snd (m s))) \<le> length (invocations s) + k" and "on_instruction copy m s = (r, copy', s')"
  shows "length (invocations s') \<le> length (invocations s) + k"
proof (cases copy)
  case None
  with assms(1) [of s] assms(2) show ?thesis by (cases "m s") (auto simp: on_instruction_def)
next
  case (Some i)
  with assms(1) [of "s\<lparr>instruction := i\<rparr>"] assms(2) show ?thesis
    by (cases "m (s\<lparr>instruction := i\<rparr>)") (auto simp: on_instruction_def)
qed

lemma step_sends:
  assumes "active t" and "in_body t" and "thread_step srv rate st t s = (t', s')"
  shows "in_body t' \<and> length (invocations s') + calls_left t' \<le> length (invocations s) + calls_left t"
proof (cases "th_phase t")
  case Begin
  obtain r u where w: "wait_time srv rate st (th_count t) s = (r, u)" by fastforce
  have "invocations u = invocations s" using quietD [OF quiet_wait w] by simp
  with Begin assms w show ?thesis by (cases r) (auto simp: thread_step_def calls_left_def in_body_def active_def)
next
  case (Asleep tmpl w)
  with assms show ?thesis by (auto simp: thread_step_def calls_left_def in_body_def sleep_def)
next
  case (Start tmpl)
  with assms show ?thesis by (auto simp: thread_step_def calls_left_def in_body_def)
next
  case (Patch tmpl starts)
  with assms show ?thesis by (auto simp: thread_step_def calls_left_def in_body_def split: sum.splits)
next
  case (Body tmpl starts copy pc)
  with assms(2) have pc: "pc < 7" and left: "0 < th_left t" by (simp_all add: in_body_def)
  obtain r copy' u where b: "on_instruction copy (body_statements srv ! pc) s = (r, copy', u)" by (metis prod_cases3)
  have "length (invocations u) \<le> length (invocations s) + (if pc = 6 then 1 else 0)"
    using body_sends [OF pc] by (rule on_instruction_sends [OF _ b])
  with Body assms(3) b pc left show ?thesis
    by (cases r) (auto simp: thread_step_def calls_left_def in_body_def split: if_splits)
next
  case (Catch tmpl starts e)
  have "invocations (snd (caught srv True tmpl e s)) = invocations s" by (rule quiet_invocations [OF quiet_caught])
  with Catch assms show ?thesis by (auto simp: thread_step_def calls_left_def in_body_def)
next
  case (Finish tmpl starts)
  with assms show ?thesis by (auto simp: thread_step_def calls_left_def in_body_def jbind_def nanoTime_def on_context_def)
next
  case (ReadDelay tmpl)
  with assms show ?thesis by (auto simp: thread_step_def calls_left_def in_body_def)
next
  case (Render tmpl d)
  obtain r u where w: "render_in srv (Some tmpl) s = (r, u)" by fastforce
  have "invocations u = invocations s" using quietD [OF quiet_basic(1) w] by simp
  with Render assms w show ?thesis by (cases r) (auto simp: thread_step_def calls_left_def in_body_def)
qed (use assms in \<open>auto simp: active_def\<close>)

definition pool_calls :: "pool_state \<Rightarrow> nat" where
  "pool_calls p = length (invocations (shared p)) + (\<Sum>t\<leftarrow>threads p. calls_left t)"

lemma sum_list_swap: "i < length xs \<Longrightarrow> (\<Sum>x\<leftarrow>xs[i := y]. f x) + f (xs ! i) = (\<Sum>x\<leftarrow>xs. f x) + (f y :: nat)"
  by (induction xs arbitrary: i) (auto split: nat.split)

interpretation calling_pool: metered_runs can_go "go srv rate st" "\<lambda>p. list_all in_body (threads p)" "\<lambda>p. int (pool_calls p)" "\<lambda>_. 0"
  for srv rate st
proof
  fix p i
  assume inv: "list_all in_body (threads p)" and i: "can_go p i"
  obtain t s where step: "thread_step srv rate st (threads p ! i) (with_own (owns p ! i) (shared p)) = (t, s)" by fastforce
  have b: "i < length (threads p)" "active (threads p ! i)" "in_body (threads p ! i)"
    using inv i by (simp_all add: can_go_def list_all_length)
  have w: "invocations (with_own c u) = invocations u" for c u by (simp add: with_own_def)
  from step_sends [OF b(2,3) step] have t: "in_body t"
    and c: "length (invocations s) + calls_left t \<le> length (invocations (shared p)) + calls_left (threads p ! i)"
    by (simp_all add: w)
  have g: "go srv rate st i p = \<lparr>threads = (threads p)[i := t], owns = (owns p)[i := own_of s], shared = with_own (own_of (shared p)) s\<rparr>"
    by (simp add: go_def step)
  show "list_all in_body (threads (go srv rate st i p))"
    using inv t b(1) by (auto simp: g list_all_length nth_list_update)
  have "pool_calls (go srv rate st i p) \<le> pool_calls p"
    using c sum_list_swap [OF b(1), of calls_left t] by (simp add: pool_calls_def g w)
  then show "int (pool_calls (go srv rate st i p)) \<le> int (pool_calls p) + 0" by simp
qed

lemma start_calls:
  "pool_calls (start_pool ts s) = length (invocations s) + sum_list (map nat ts)" "list_all in_body (threads (start_pool ts s))"
  by (simp_all add: pool_calls_def start_pool_def calls_left_def in_body_def new_thread_def list_all_iff comp_def)

text \<open>
  C16. Whatever the order in which the threads of the pool take their turns, for as many
  tasks as the pool accepts: it comes to an end; no node is called more often than the tasks
  have executions, however these fail or what they share; and if no task has failed in the
  end, each has exactly as many results as it had executions.
\<close>
theorem pool_counts_every_schedule:
  assumes "length ts \<le> maximumPoolSize" and "runs can_go (go srv rate st) (start_pool ts s) schedule p"
  shows "length schedule \<le> 16 * sum_list (map nat ts) \<and>
    length (invocations (shared p)) \<le> length (invocations s) + sum_list (map nat ts) \<and>
    (\<forall>rss. ended p \<and> pool_result p = Inr rss \<longrightarrow> map length rss = map nat ts)"
proof (intro conjI allI impI)
  have "int (pool_work p) \<le> int (16 * sum_list (map nat ts)) - int (length schedule)"
    using pool.run_meter [OF assms(2)] by (simp add: start_work sum_list_triv)
  then show "length schedule \<le> 16 * sum_list (map nat ts)" by linarith
  have "int (pool_calls p) \<le> int (length (invocations s) + sum_list (map nat ts))"
    using calling_pool.run_meter [OF assms(2)] start_calls [of ts s] by (simp add: sum_list_triv)
  then show "length (invocations (shared p)) \<le> length (invocations s) + sum_list (map nat ts)" by (simp add: pool_calls_def)
  fix rss
  assume e: "ended p \<and> pool_result p = Inr rss"
  have "list_all2 counted (map nat ts) (threads p)"
    using counted_pool.run_meter [OF assms(2), of "map nat ts"] counted_new by (simp add: start_pool_def)
  then show "map length rss = map nat ts"
    using pool_result_lengths e by (simp add: ended_def pool_result_def)
qed

lemma with_pool_law: "pool_law (with_pool sched srv)"
  unfolding pool_law_def using scheduled_pool_lengths by (auto simp: with_pool_def)

lemma pool_in_turn_ends:
  "texts (pool_result (run_pool in_turn numbering_server (0, 2) 0 (start_pool [2, 1] two_threads))) =
    Inr [[''a -> 0'', ''a -> 1''], [''a -> 2'']]"
  by code_simp

theorem pool_counts_every_schedule_witness:
  "\<exists>schedule p. runs can_go (go numbering_server (0, 2) 0) (start_pool [2, 1] two_threads) schedule p \<and>
    length (invocations (shared p)) \<le> 3 \<and> texts (pool_result p) = Inr [[''a -> 0'', ''a -> 1''], [''a -> 2'']]"
proof -
  let ?p = "run_pool in_turn numbering_server (0, 2) 0 (start_pool [2, 1] two_threads)"
  obtain schedule where r: "runs can_go (go numbering_server (0, 2) 0) (start_pool [2, 1] two_threads) schedule ?p"
    using run_pool_runs by blast
  have n: "length [2, 1 :: int] \<le> maximumPoolSize" by (simp add: maximumPoolSize_def)
  have "length (invocations (shared ?p)) \<le> length (invocations two_threads) + sum_list (map nat [2, 1])"
    using pool_counts_every_schedule [OF n r] by blast
  then have "length (invocations (shared ?p)) \<le> 3" by (simp add: two_threads_def demo_state_def)
  with r pool_in_turn_ends show ?thesis by blast
qed

text \<open>
  Under every scheduler of the thread pool, a case repeated n times is executed n times
  and every execution is counted once: the statistics returned for \<open>stat_count\<close> list every
  returned text once, and their counts add up to n.
\<close>
theorem every_schedule_counts_all:
  assumes "1 < inst_times (instruction s)" and "inst_collectBy (instruction s) = ''stat_count''"
    and "execute (with_pool sched srv) s = (Inr result, s')"
  shows "\<exists>counts. result = JMap (map (\<lambda>(k, n). (k, JNum (nat_str n))) counts) \<and> distinct (map fst counts) \<and>
    int (\<Sum>p\<leftarrow>counts. snd p) = inst_times (instruction s)"
  using every_execution_counted [OF with_pool_law assms] .

theorem every_schedule_counts_all_witness:
  "\<exists>counts. fst (execute (with_pool in_turn numbering_server) two_threads) = Inr (JMap (map (\<lambda>(k, n). (k, JNum (nat_str n))) counts)) \<and>
    distinct (map fst counts) \<and> int (\<Sum>p\<leftarrow>counts. snd p) = 2"
proof -
  have r: "fst (execute (with_pool in_turn numbering_server) two_threads) = Inr (JMap [(''a -> 0'', JNum ''1''), (''a -> 1'', JNum ''1'')])"
    by code_simp
  then obtain s' where e: "execute (with_pool in_turn numbering_server) two_threads = (Inr (JMap [(''a -> 0'', JNum ''1''), (''a -> 1'', JNum ''1'')]), s')"
    by (cases "execute (with_pool in_turn numbering_server) two_threads") simp
  have i: "inst_times (instruction two_threads) = 2" "inst_collectBy (instruction two_threads) = ''stat_count''"
    by (simp_all add: two_threads_def demo_state_def demo_instruction_def)
  then have "1 < inst_times (instruction two_threads)" by simp
  from every_schedule_counts_all [OF this i(2) e] show ?thesis unfolding i(1) r sum.inject .
qed

end
