(* ===== verification/CaseApiJava.thy ===== *)
theory CaseApiJava
  imports PowerfulServiceJava CaseValidatorJava JsValue "HOL-Library.AList"
begin

text \<open>
  \<open>core/cases/StaticResources.java\<close>, \<open>core/controllers/RequestCaseApiController.java\<close> and
  \<open>HttpController.java\<close>: the cases a server was configured with, the addresses the front end
  asks for, running a case, and executing an instruction another node sent. Raw cases are kept
  as JSON documents; the configuration is given parsed, groups being maps or missing. Jackson's
  writer and reader and \<open>String.replaceAll\<close> are arguments.
\<close>

section \<open>The configured cases\<close>

type_synonym case_sets = "(string \<times> (string \<times> jsv) list) list"

record resources =
  rawCases :: "(string \<times> jsv) list"
  rawCaseSets :: "case_sets option"
  targetMapping :: "(string \<times> string) list"

text \<open>\<open>caseSets.remove(name)\<close> for the sets the property does not name.\<close>

definition selected :: "string option \<Rightarrow> (string \<times> 'a) list \<Rightarrow> (string \<times> 'a) list" where
  "selected property sets = (case property of
      None \<Rightarrow> sets
    | Some p \<Rightarrow> if p = [] then sets else filter (\<lambda>(name, _). name \<in> set (java_split CHR '','' p)) sets)"

text \<open>\<open>rawCases::putAll\<close>: a case of a later set replaces one of the same name.\<close>

definition put_all :: "(string \<times> jsv) list \<Rightarrow> (string \<times> jsv) list \<Rightarrow> (string \<times> jsv) list" where
  "put_all new m = fold (\<lambda>(k, v). AList.update k v) new m"

definition load_resources ::
  "string option \<Rightarrow> (string \<times> (string \<times> jsv) list option) list option \<Rightarrow> (string \<times> string) list \<Rightarrow> java_error + resources" where
  "load_resources property requestCases targetMappings = (case requestCases of
      None \<Rightarrow> if property = None \<or> property = Some [] then Inr \<lparr>rawCases = [], rawCaseSets = None, targetMapping = targetMappings\<rparr>
        else Inl NullPointer
    | Some sets \<Rightarrow> rbind (rmap (\<lambda>(name, cs). case cs of Some ps \<Rightarrow> Inr (name, ps) | None \<Rightarrow> Inl NullPointer) (selected property sets))
        (\<lambda>gs. Inr \<lparr>rawCases = fold (\<lambda>(_, ps). put_all ps) gs [], rawCaseSets = Some gs, targetMapping = targetMappings\<rparr>))"

text \<open>\<open>rawCases.get(name)\<close> with its test for \<open>null\<close>\<close>

definition raw_case :: "resources \<Rightarrow> string \<Rightarrow> jsv option" where
  "raw_case res name = (case map_of (rawCases res) name of
      Some v \<Rightarrow> if v = Null then None else Some v
    | None \<Rightarrow> None)"

definition getRawCaseString :: "(jsv \<Rightarrow> string) \<Rightarrow> resources \<Rightarrow> string \<Rightarrow> string" where
  "getRawCaseString write_json res name = (case raw_case res name of
      None \<Rightarrow> ''Not Found''
    | Some v \<Rightarrow> write_json v)"

record RequestCase =
  case_instruction :: Instruction
  case_name :: "string option"
  case_description :: "string option"
  case_expect :: jobj

definition getCase :: "(jsv \<Rightarrow> java_error + RequestCase) \<Rightarrow> resources \<Rightarrow> string \<Rightarrow> java_error + RequestCase option" where
  "getCase read_case res name = (case raw_case res name of
      None \<Rightarrow> Inr None
    | Some v \<Rightarrow> rbind (read_case v) (\<lambda>c. Inr (Some c)))"

section \<open>Target names\<close>

type_synonym replace_all = "string \<Rightarrow> string \<Rightarrow> string \<Rightarrow> string"

definition replace_target :: "replace_all \<Rightarrow> bool \<Rightarrow> string \<times> string \<Rightarrow> string \<Rightarrow> string" where
  "replace_target replaceAll trace target src = (case target of (name, value) \<Rightarrow>
     if value = [] then src
     else if trace
     then if CHR ''/'' \<in> set src then replaceAll (''^'' @ name @ ''/'') (value @ ''/'') src
          else replaceAll (''^'' @ name @ ''$'') value src
     else replaceAll (''<'' @ name @ ''>'') value src)"

definition replaceTargets :: "replace_all \<Rightarrow> (string \<times> string) list \<Rightarrow> bool \<Rightarrow> string option \<Rightarrow> java_error + string option" where
  "replaceTargets replaceAll mapping trace src = (case src of
      Some t \<Rightarrow> Inr (Some (fold (replace_target replaceAll trace) mapping t))
    | None \<Rightarrow> if list_ex (\<lambda>(_, value). value \<noteq> []) mapping then Inl NullPointer else Inr None)"

definition map_calls :: "(string option \<Rightarrow> java_error + string option) \<Rightarrow> Instruction \<Rightarrow> java_error + Instruction" where
  "map_calls f i = rbind (rmap (\<lambda>n. rbind (f (node_call n)) (\<lambda>c. Inr (n\<lparr>node_call := c\<rparr>))) (inst_trace i))
     (\<lambda>t. Inr (i\<lparr>inst_trace := t\<rparr>))"

section \<open>The addresses of the front end\<close>

text \<open>\<open>/caseList\<close>\<close>

definition casesForFront :: "resources \<Rightarrow> java_error + jsv" where
  "casesForFront res = (case rawCaseSets res of
      None \<Rightarrow> Inl NullPointer
    | Some sets \<Rightarrow> Inr (Arr (map (\<lambda>(group, cs). Obj [(''group'', Str group), (''cases'', Arr (map (\<lambda>(name, _). Str name) cs))]) sets)))"

section \<open>Running a case\<close>

text \<open>
  The private \<open>execute\<close>: the first node of the trace stands for this server. The state holds
  the random numbers and clock readings used before.
\<close>

definition run_case ::
  "server \<Rightarrow> 'd platform \<Rightarrow> replace_all \<Rightarrow> resources \<Rightarrow> RequestCase \<Rightarrow> (string \<times> string) list \<Rightarrow> bool \<Rightarrow> (run_state, jobj) stm" where
  "run_case srv pf replaceAll res requestCase params validated s0 =
     (case rbind (map_calls (replaceTargets replaceAll (targetMapping res) True) (case_instruction requestCase))
         (map_calls (replaceTargets replaceAll (targetMapping res) False)) of
        Inl e \<Rightarrow> (Inl e, s0)
      | Inr i \<Rightarrow>
          let s = s0\<lparr>instruction := i\<lparr>inst_trace := new_node # inst_trace i\<rparr>,
              the_context := new_context\<lparr>request_params := params\<rparr>\<rparr>
          in jbind (execute srv) (\<lambda>result.
               if validated
               then jbind (jlift (validate pf (case_expect requestCase) result)) (\<lambda>passed.
                 jret (JMap [(''result'', result), (''passed'', JBool passed)]))
               else jret result) s)"

text \<open>\<open>/e/{name}\<close>; \<open>Inr None\<close> is the answer 404.\<close>

definition rCase ::
  "server \<Rightarrow> 'd platform \<Rightarrow> replace_all \<Rightarrow> (jsv \<Rightarrow> java_error + RequestCase) \<Rightarrow> resources \<Rightarrow> string \<Rightarrow> (string \<times> string) list \<Rightarrow> bool \<Rightarrow>
     (run_state, jobj option) stm" where
  "rCase srv pf replaceAll read_case res name params validated =
     jbind (jlift (getCase read_case res name)) (\<lambda>c. case c of
         None \<Rightarrow> jret None
       | Some requestCase \<Rightarrow> jbind (run_case srv pf replaceAll res requestCase params validated) (\<lambda>r. jret (Some r)))"

section \<open>Executing what another node sent\<close>

record http_request =
  http_method :: string
  http_headers :: "(string \<times> string list) list"
  servlet_path :: string
  http_params :: "(string \<times> string) list"

record http_answer =
  answer_status :: int
  answer_body :: "string option"
  answer_headers :: "(string \<times> string) list"

text \<open>Several values of a header are joined with commas.\<close>

definition transformRequestHeaders :: "http_request \<Rightarrow> (string \<times> string) list" where
  "transformRequestHeaders req = map (\<lambda>(name, values). (name, join_with '','' values)) (http_headers req)"

definition response_headers_of :: "run_state \<Rightarrow> (string \<times> string) list" where
  "response_headers_of s = (case currentNode (instruction s) of Some node \<Rightarrow> node_responseHeaders node | None \<Rightarrow> [])"

text \<open>
  An exception that escapes, here for a trace without nodes, is answered with 500 by the
  framework as well.
\<close>

definition http_execute :: "server \<Rightarrow> Instruction \<Rightarrow> http_request \<Rightarrow> run_state \<Rightarrow> http_answer \<times> run_state" where
  "http_execute srv i req s0 =
     (let s = s0\<lparr>instruction := i, the_context := new_context\<lparr>request_method := http_method req,
            requestHeaders := Some (transformRequestHeaders req), request_path := servlet_path req, request_params := http_params req\<rparr>\<rparr>
      in case execute srv s of
          (Inr _, s') \<Rightarrow> (\<lparr>answer_status = 200,
             answer_body = Some (to_string (case response (the_context s') of Some r \<Rightarrow> resp_result r | None \<Rightarrow> JNull)),
             answer_headers = response_headers_of s'\<rparr>, s')
        | (Inl e, s') \<Rightarrow> (\<lparr>answer_status = (case e of Wrapped _ (StatusCode c) \<Rightarrow> c | _ \<Rightarrow> 500),
             answer_body = get_message srv e, answer_headers = response_headers_of s'\<rparr>, s'))"

end
