(* ===== verification/FrontServer.thy ===== *)
theory FrontServer
  imports AppErrors CaseApiJava ServiceProps
begin

text \<open>
  The page and its server together: the menu the server offers is one the page can render, a
  click on any of its entries shows the configured case, and the statistics of a validated run
  are the counts of its executions.
\<close>

section \<open>The configured cases\<close>

lemma map_of_put_all: "map_of (put_all new m) k = (case map_of (rev new) k of Some v \<Rightarrow> Some v | None \<Rightarrow> map_of m k)"
proof (induction new arbitrary: m)
  case (Cons kv new)
  obtain k' v where kv: "kv = (k', v)" by fastforce
  have "put_all (kv # new) m = put_all new (AList.update k' v m)" by (simp add: put_all_def kv)
  with Cons.IH [of "AList.update k' v m"] show ?case
    by (simp add: kv map_add_def update_conv' split: option.split)
qed (simp add: put_all_def)

text \<open>The case a name stands for: that of the last set which has it.\<close>

definition later_case :: "case_sets \<Rightarrow> string \<Rightarrow> jsv option" where
  "later_case gs name = map_of (concat (rev (map snd gs))) name"

lemma map_of_put_sets:
  assumes "\<forall>(g, ps)\<in>set gs. distinct (map fst ps)"
  shows "map_of (fold (\<lambda>(_, ps). put_all ps) gs m) name =
    (case later_case gs name of Some v \<Rightarrow> Some v | None \<Rightarrow> map_of m name)"
  using assms
proof (induction gs arbitrary: m)
  case (Cons gp gs)
  obtain g ps where gp: "gp = (g, ps)" by fastforce
  have d: "distinct (map fst ps)" "\<forall>(g, ps)\<in>set gs. distinct (map fst ps)" using Cons.prems gp by auto
  show ?case
    using Cons.IH [OF d(2), of "put_all ps m"] map_of_rev_eq [OF d(1)]
    by (simp add: gp later_case_def map_of_put_all map_add_def split: option.split)
qed (simp add: later_case_def)

lemma load_sets:
  "load_resources None (Some (map (\<lambda>(g, ps). (g, Some ps)) gs)) tm =
     Inr \<lparr>rawCases = fold (\<lambda>(_, ps). put_all ps) gs [], rawCaseSets = Some gs, targetMapping = tm\<rparr>"
proof -
  have "rmap (\<lambda>(name, cs). case cs of Some ps \<Rightarrow> Inr (name, ps) | None \<Rightarrow> Inl NullPointer) (map (\<lambda>(g, ps). (g, Some ps)) gs) = Inr gs"
    by (induction gs) auto
  then show ?thesis by (simp add: load_resources_def selected_def)
qed

section \<open>The menu\<close>

lemma renderable_names: "list_all renderable (map (\<lambda>(name, _). Str name) cs)"
  by (induction cs) auto

lemma menu_served:
  fixes gs :: case_sets
  shows "menu (Arr (map (\<lambda>(group, cs). Obj [(''group'', Str group), (''cases'', Arr (map (\<lambda>(name, _). Str name) cs))]) gs)) =
    Inr (map (\<lambda>(g, ps). (Str g, map (\<lambda>(name, _). Str name) ps)) gs)"
proof -
  have "menu_group (Obj [(''group'', Str g), (''cases'', Arr (map (\<lambda>(name, _). Str name) ps))]) =
      Inr (Str g, map (\<lambda>(name, _). Str name) ps)" for g and ps :: "(string \<times> jsv) list"
    using renderable_names [of ps] by (simp add: menu_group_def array_items_def)
  then have "rmap menu_group (map (\<lambda>(g, ps). Obj [(''group'', Str g), (''cases'', Arr (map (\<lambda>(name, _). Str name) ps))]) gs) =
      Inr (map (\<lambda>(g, ps). (Str g, map (\<lambda>(name, _). Str name) ps)) gs)"
    by (induction gs) auto
  then show ?thesis by (simp add: menu_def array_items_def)
qed

section \<open>A click\<close>

text \<open>What is relied on of Jackson: the text it writes for a JSON document parses to it.\<close>

definition writes_json :: "(jsv \<Rightarrow> string) \<Rightarrow> bool" where
  "writes_json w \<longleftrightarrow> (\<forall>v. json_value v \<and> wf_js v \<longrightarrow> JSON_parse (w v) = Inr v)"

text \<open>A case the page can receive: a well-formed document other than \<open>null\<close>.\<close>

definition served_document :: "jsv \<Rightarrow> bool" where
  "served_document v \<longleftrightarrow> json_value v \<and> wf_js v \<and> v \<noteq> Null"

lemma not_found_unreadable: "\<not> is_ok (JSON_parse ''Not Found'')"
  by code_simp

lemma later_case_set: "later_case gs name = Some v \<Longrightarrow> \<exists>g ps. (g, ps) \<in> set gs \<and> (name, v) \<in> set ps"
  unfolding later_case_def by (drule map_of_SomeD) (auto, blast)

lemma later_case_None: "later_case gs name = None \<longleftrightarrow> (\<forall>(g, ps)\<in>set gs. name \<notin> fst ` set ps)"
  unfolding later_case_def map_of_eq_None_iff by fastforce

text \<open>
  C25. Page and server agree, for a configuration of groups of cases, none of which is \<open>null\<close> in
  the file, with a document other than \<open>null\<close> for each case, on a server that is not restricted
  to some of the groups. The page can render its menu, with the groups and names in their
  order. The server's answer for a name shows the form of the configured case, if the form can
  show it at all, and of the case of the last group when several groups use the name; the
  answer for any other name leaves the page as it was. (Which name the server is asked for on
  a click is another matter, see \<^verbatim>\<open>UriTs\<close>.)
\<close>
theorem served_cases_shown:
  assumes "load_resources None (Some (map (\<lambda>(g, ps). (g, Some ps)) gs)) tm = Inr res"
    and "writes_json write_json"
    and "\<forall>(g, ps)\<in>set gs. distinct (map fst ps) \<and> list_all (\<lambda>(n, v). served_document v) ps"
  shows "rbind (case casesForFront res of Inr v \<Rightarrow> Inr v | Inl e \<Rightarrow> Inl NotModelled) menu =
      Inr (map (\<lambda>(g, ps). (Str g, map (\<lambda>(name, _). Str name) ps)) gs) \<and>
    receiveCase (Str (getRawCaseString write_json res name)) s =
      (case later_case gs name of
          Some doc \<Rightarrow> (case postToView doc of Inr d \<Rightarrow> setDisplayData d s | Inl _ \<Rightarrow> s)
        | None \<Rightarrow> s)"
proof -
  have res: "rawCaseSets res = Some gs" "rawCases res = fold (\<lambda>(_, ps). put_all ps) gs []"
    using assms(1) unfolding load_sets by auto
  have d: "\<forall>(g, ps)\<in>set gs. distinct (map fst ps)" using assms(3) by auto
  have raw: "map_of (rawCases res) name = later_case gs name"
    unfolding res(2) map_of_put_sets [OF d] by (simp split: option.split)
  have "receiveCase (Str (getRawCaseString write_json res name)) s =
      (case later_case gs name of
          Some doc \<Rightarrow> (case postToView doc of Inr d \<Rightarrow> setDisplayData d s | Inl _ \<Rightarrow> s)
        | None \<Rightarrow> s)"
  proof (cases "later_case gs name")
    case None
    then have "getRawCaseString write_json res name = ''Not Found''"
      by (simp add: getRawCaseString_def raw_case_def raw)
    then show ?thesis
      using not_found_unreadable None by (cases "JSON_parse ''Not Found''") (simp_all add: receiveCase_def)
  next
    case (Some doc)
    from later_case_set [OF this] assms(3) have v: "served_document doc" by (fastforce simp: list_all_iff)
    then have t: "JSON_parse (write_json doc) = Inr doc"
      using assms(2) by (simp add: writes_json_def served_document_def)
    have "getRawCaseString write_json res name = write_json doc"
      using v Some by (simp add: getRawCaseString_def raw_case_def raw served_document_def)
    with t Some show ?thesis by (simp add: receiveCase_def)
  qed
  then show ?thesis by (simp add: casesForFront_def res(1) menu_served)
qed

definition demo_sets :: case_sets where
  "demo_sets = [(''base'', [(''a'', Obj [(''trace'', Arr [])])]), (''more'', [(''a'', initial_case)])]"

lemma json_print_writes: "writes_json (json_print [] [])"
  using JSON_parse_print [where gap = "[]"] by (simp add: writes_json_def)

theorem served_cases_shown_witness:
  "\<exists>res. load_resources None (Some (map (\<lambda>(g, ps). (g, Some ps)) demo_sets)) [] = Inr res \<and>
     displayed (receiveCase (Str (getRawCaseString (json_print [] []) res ''a'')) demo_start) = initial_case \<and>
     receiveCase (Str (getRawCaseString (json_print [] []) res ''b'')) demo_start = demo_start"
proof -
  obtain res where r: "load_resources None (Some (map (\<lambda>(g, ps). (g, Some ps)) demo_sets)) [] = Inr res"
    unfolding load_sets by blast
  have d: "\<forall>(g, ps)\<in>set demo_sets. distinct (map fst ps) \<and> list_all (\<lambda>(n, v). served_document v) ps"
    by code_simp
  have l: "later_case demo_sets ''a'' = Some initial_case" "later_case demo_sets ''b'' = None" by code_simp+
  have p: "postToView initial_case = Inr initial_case" by code_simp
  have a: "displayed (receiveCase (Str (getRawCaseString (json_print [] []) res ''a'')) demo_start) = initial_case"
    using served_cases_shown [OF r json_print_writes d, of "''a''" demo_start] l p by simp
  have b: "receiveCase (Str (getRawCaseString (json_print [] []) res ''b'')) demo_start = demo_start"
    using served_cases_shown [OF r json_print_writes d, of "''b''" demo_start] l by simp
  from r a b show ?thesis by blast
qed

text \<open>A configuration without cases has no menu: the address fails.\<close>

theorem no_cases_no_menu: "load_resources None None tm = Inr res \<Longrightarrow> casesForFront res = Inl NullPointer"
  by (auto simp: load_resources_def casesForFront_def)

section \<open>Validated runs\<close>

lemma map_calls_keeps: "map_calls f i = Inr i' \<Longrightarrow> inst_times i' = inst_times i \<and> inst_collectBy i' = inst_collectBy i"
  by (auto simp: map_calls_def rbind_eq_Inr)

text \<open>What a validated run returns: the result of the execution, and what the validator says of it.\<close>

lemma run_case_validated:
  assumes "run_case srv pf replaceAll res c params True s0 = (Inr result, s')"
  obtains i s r u b where "inst_times i = inst_times (case_instruction c)" "inst_collectBy i = inst_collectBy (case_instruction c)"
    "instruction s = i" "execute srv s = (Inr r, u)" "validate pf (case_expect c) r = Inr b"
    "result = JMap [(''result'', r), (''passed'', JBool b)]"
proof -
  let ?m = "rbind (map_calls (replaceTargets replaceAll (targetMapping res) True) (case_instruction c))
    (map_calls (replaceTargets replaceAll (targetMapping res) False))"
  obtain i where i: "?m = Inr i" using assms by (cases ?m) (simp_all add: run_case_def)
  then obtain i1 where "map_calls (replaceTargets replaceAll (targetMapping res) True) (case_instruction c) = Inr i1"
    "map_calls (replaceTargets replaceAll (targetMapping res) False) i1 = Inr i" unfolding rbind_eq_Inr by blast
  from map_calls_keeps [OF this(1)] map_calls_keeps [OF this(2)]
  have k: "inst_times i = inst_times (case_instruction c)" "inst_collectBy i = inst_collectBy (case_instruction c)" by simp_all
  define s where "s = s0\<lparr>instruction := i\<lparr>inst_trace := new_node # inst_trace i\<rparr>, the_context := new_context\<lparr>request_params := params\<rparr>\<rparr>"
  have "jbind (execute srv) (\<lambda>result. jbind (jlift (validate pf (case_expect c) result)) (\<lambda>passed.
      jret (JMap [(''result'', result), (''passed'', JBool passed)]))) s = (Inr result, s')"
    using assms unfolding run_case_def i sum.case Let_def if_True s_def .
  then obtain r u where e: "execute srv s = (Inr r, u)"
    and v: "jbind (jlift (validate pf (case_expect c) r)) (\<lambda>passed. jret (JMap [(''result'', r), (''passed'', JBool passed)])) u = (Inr result, s')"
    unfolding jbind_Inr_iff by blast
  from v obtain b where "validate pf (case_expect c) r = Inr b" "result = JMap [(''result'', r), (''passed'', JBool b)]"
    by (cases "validate pf (case_expect c) r") auto
  with k e show ?thesis by (intro that [of "instruction s" s r u b]) (simp_all add: s_def)
qed

text \<open>
  C26. A validated run of a case that counts its results is judged by its counts: if the case is
  repeated n times, an \<open>int\<close>, on one thread or on several, and expects a range of counts for each text, the
  answer lists every returned text with its count, the counts add up to n, and it says the
  case passed exactly if no other text was returned and each count is in its range.
\<close>
theorem validated_run_counts:
  assumes "pool_law srv" and "counts_ok pf emb"
    and "1 < inst_times (case_instruction c)" and "in_int (inst_times (case_instruction c))" and "inst_collectBy (case_instruction c) = ''stat_count''"
    and "case_expect c = JMap (map (\<lambda>(k, r). (k, range_expect r)) ranges)" and "distinct (map fst ranges)"
    and "run_case srv pf replaceAll res c params True s0 = (Inr result, s')"
  shows "\<exists>counts. distinct (map fst counts) \<and> int (\<Sum>p\<leftarrow>counts. snd p) = inst_times (case_instruction c) \<and>
    result = JMap [(''result'', JMap (map (\<lambda>(k, n). (k, count_result n)) counts)),
      (''passed'', JBool (set (map fst counts) \<subseteq> set (map fst ranges) \<and>
        list_all (\<lambda>(k, lo, hi). case map_of counts k of Some n \<Rightarrow> lo \<le> n \<and> n \<le> hi | None \<Rightarrow> False) ranges))]"
proof -
  obtain i s r u b where i: "inst_times i = inst_times (case_instruction c)" "inst_collectBy i = inst_collectBy (case_instruction c)"
    "instruction s = i" and e: "execute srv s = (Inr r, u)" and v: "validate pf (case_expect c) r = Inr b"
    and res: "result = JMap [(''result'', r), (''passed'', JBool b)]"
    using run_case_validated [OF assms(8)] by blast
  obtain counts where r: "r = JMap (map (\<lambda>(k, n). (k, count_result n)) counts)" and d: "distinct (map fst counts)"
    and n: "int (\<Sum>p\<leftarrow>counts. snd p) = inst_times (instruction s)"
    using every_execution_counted [OF assms(1) _ _ e] i assms(3,5) unfolding count_result_def by auto
  have few: "list_all (\<lambda>(k, n). is_count n) counts"
  proof -
    have "m \<le> (\<Sum>p\<leftarrow>counts. snd p)" if "(k, m) \<in> set counts" for k m
      using member_le_sum_list [of m "map snd counts"] that by force
    moreover have "(\<Sum>p\<leftarrow>counts. snd p) < 2 ^ 31" using n i(1,3) assms(4) by (simp add: in_int_def)
    ultimately show ?thesis unfolding list_all_iff is_count_def by (auto intro: le_less_trans)
  qed
  have "b = (set (map fst counts) \<subseteq> set (map fst ranges) \<and>
      list_all (\<lambda>(k, lo, hi). case map_of counts k of Some n \<Rightarrow> lo \<le> n \<and> n \<le> hi | None \<Rightarrow> False) ranges)"
    using statistics_validated [OF assms(2,7) few] v unfolding r assms(6) by simp
  with res r have "result = JMap [(''result'', JMap (map (\<lambda>(k, n). (k, count_result n)) counts)),
      (''passed'', JBool (set (map fst counts) \<subseteq> set (map fst ranges) \<and>
        list_all (\<lambda>(k, lo, hi). case map_of counts k of Some n \<Rightarrow> lo \<le> n \<and> n \<le> hi | None \<Rightarrow> False) ranges))]"
    by (simp only:)
  moreover have "int (\<Sum>p\<leftarrow>counts. snd p) = inst_times (case_instruction c)" using n i by simp
  ultimately show ?thesis by (intro exI [of _ counts] conjI d)
qed

definition demo_case :: RequestCase where
  "demo_case = \<lparr>case_instruction = (demo_instruction 3)\<lparr>inst_trace := [new_node\<lparr>node_call := Some ''b''\<rparr>]\<rparr>, case_name = None,
     case_description = None, case_expect = JMap (map (\<lambda>(k, r). (k, range_expect r)) [(''a -> v1'', (3, 3))])\<rparr>"

definition no_resources :: resources where
  "no_resources = \<lparr>rawCases = [], rawCaseSets = None, targetMapping = []\<rparr>"

definition no_replace :: replace_all where
  "no_replace pattern replacement t = t"

lemma demo_case_runs: "fst (run_case demo_server counting no_replace no_resources demo_case [] True (demo_state (demo_instruction 1))) =
   Inr (JMap [(''result'', JMap [(''a -> v1'', JNum ''3'')]), (''passed'', JBool True)])"
  by code_simp

theorem validated_run_counts_witness:
  "\<exists>counts. distinct (map fst counts) \<and> int (\<Sum>p\<leftarrow>counts. snd p) = 3 \<and>
     JMap [(''result'', JMap [(''a -> v1'', JNum ''3'')]), (''passed'', JBool True)] =
     JMap [(''result'', JMap (map (\<lambda>(k, n). (k, count_result n)) counts)),
      (''passed'', JBool (set (map fst counts) \<subseteq> set (map fst [(''a -> v1'', (3 :: nat, 3 :: nat))]) \<and>
        list_all (\<lambda>(k, lo, hi). case map_of counts k of Some n \<Rightarrow> lo \<le> n \<and> n \<le> hi | None \<Rightarrow> False) [(''a -> v1'', (3, 3))]))]"
proof -
  obtain s' where r: "run_case demo_server counting no_replace no_resources demo_case [] True (demo_state (demo_instruction 1)) =
      (Inr (JMap [(''result'', JMap [(''a -> v1'', JNum ''3'')]), (''passed'', JBool True)]), s')"
    using demo_case_runs by (metis prod.collapse)
  have a: "1 < inst_times (case_instruction demo_case)" "inst_collectBy (case_instruction demo_case) = ''stat_count''"
    "case_expect demo_case = JMap (map (\<lambda>(k, r). (k, range_expect r)) [(''a -> v1'', (3, 3))])"
    "distinct (map fst [(''a -> v1'', (3 :: nat, 3 :: nat))])" "in_int (inst_times (case_instruction demo_case))"
    by (simp_all add: demo_case_def demo_instruction_def in_int_def)
  have t: "inst_times (case_instruction demo_case) = 3" by (simp add: demo_case_def demo_instruction_def)
  from validated_run_counts [OF demo_pool counting_ok a(1,5,2-4) r] show ?thesis unfolding t .
qed

end
