(* ===== verification/FormSchema.thy ===== *)
theory FormSchema
  imports FormCases
begin

text \<open>
  \<open>powerful-front/src/schema.json\<close>, the contract between the form library and the page, and
  what it is worth: a state that conforms to it is posted, and what the form shows after the
  case was posted, saved or edited as text conforms again.
\<close>

section \<open>Schemas\<close>

text \<open>
  The keywords the file uses, with JSON Schema's reading of them. A member that is absent or
  holds \<open>undefined\<close> is not looked at, members a schema does not name may hold anything; no
  document has a number that is not finite. Default values have no part in it.
\<close>

datatype schema =
    TextSchema "string list option"
  | NumberSchema (whole: bool) (lowest: int) (highest: "int option") (default_value: "int option")
  | ArraySchema schema
  | ObjectSchema "(string \<times> schema) list"

text \<open>A canonical decimal is whole if its scale is not negative.\<close>

definition whole_num :: "jsnum \<Rightarrow> bool" where
  "whole_num n = (case n of Fin m e \<Rightarrow> m = 0 \<or> 0 \<le> e \<or> m mod 10 ^ nat (- e) = 0 | _ \<Rightarrow> False)"

definition num_between :: "int \<Rightarrow> int option \<Rightarrow> jsnum \<Rightarrow> bool" where
  "num_between lo hi n = (case n of
      Fin m e \<Rightarrow> lo * 10 ^ nat (- e) \<le> m * 10 ^ nat e \<and>
        (case hi of Some h \<Rightarrow> m * 10 ^ nat e \<le> h * 10 ^ nat (- e) | None \<Rightarrow> True)
    | _ \<Rightarrow> False)"

fun conforms :: "schema \<Rightarrow> jsv \<Rightarrow> bool" where
  "conforms (TextSchema allowed) v = (case v of
      Str s \<Rightarrow> (case allowed of Some ts \<Rightarrow> s \<in> set ts | None \<Rightarrow> True)
    | _ \<Rightarrow> False)"
| "conforms (NumberSchema w lo hi d) v = (case v of Num n \<Rightarrow> (w \<longrightarrow> whole_num n) \<and> num_between lo hi n | _ \<Rightarrow> False)"
| "conforms (ArraySchema s) v = (case v of Arr xs \<Rightarrow> list_all (conforms s) xs | _ \<Rightarrow> False)"
| "conforms (ObjectSchema members) v = (case v of
      Obj ps \<Rightarrow> list_all (\<lambda>(k, s). mem ps k = Undef \<or> conforms s (mem ps k)) members
    | _ \<Rightarrow> False)"

text \<open>The schema of the form.\<close>

definition rows_schema :: schema where
  "rows_schema = ArraySchema (ObjectSchema [(''name'', TextSchema None), (''value'', TextSchema None)])"

definition node_schema :: schema where
  "node_schema = ObjectSchema [
     (''call'', TextSchema None),
     (''by'', TextSchema (Some [''http'', ''grpc'', ''dubbo'', ''thrift''])),
     (''method'', TextSchema (Some [''GET'', ''POST'', ''DELETE'', ''PUT''])),
     (''times'', NumberSchema True 1 None (Some 1)),
     (''threads'', NumberSchema True 1 None (Some 1)),
     (''delay'', NumberSchema False 0 None (Some 0)),
     (''errorByPercent'', NumberSchema True 0 (Some 100) (Some 0)),
     (''callTestMethod'', NumberSchema True 0 (Some 100) (Some 0)),
     (''headers'', rows_schema),
     (''queries'', rows_schema)]"

definition form_schema :: schema where
  "form_schema = ObjectSchema [
     (''trace'', ArraySchema node_schema),
     (''times'', NumberSchema True 1 None None),
     (''threads'', NumberSchema True 1 None None),
     (''traceNodeTmpl'', TextSchema None),
     (''propagateHeaders'', TextSchema None)]"

section \<open>Conforming states\<close>

declare conforms.simps [simp del]

lemma conforms_cases [simp]:
  "conforms (TextSchema None) v \<longleftrightarrow> (\<exists>s. v = Str s)"
  "conforms (TextSchema (Some ts)) v \<longleftrightarrow> (\<exists>s. v = Str s \<and> s \<in> set ts)"
  "conforms (NumberSchema w lo hi d) v \<longleftrightarrow> (\<exists>n. v = Num n \<and> (w \<longrightarrow> whole_num n) \<and> num_between lo hi n)"
  "conforms (ArraySchema s) v \<longleftrightarrow> (\<exists>xs. v = Arr xs \<and> list_all (conforms s) xs)"
  by (cases v; simp add: conforms.simps)+

lemma conforms_object: "conforms (ObjectSchema members) v \<longleftrightarrow>
    (\<exists>ps. v = Obj ps \<and> (\<forall>(k, s)\<in>set members. mem ps k = Undef \<or> conforms s (mem ps k)))"
  by (cases v) (simp_all add: conforms.simps list_all_iff)

lemma conforms_memberD:
  "conforms (ObjectSchema members) (Obj ps) \<Longrightarrow> (k, s) \<in> set members \<Longrightarrow> mem ps k = Undef \<or> conforms s (mem ps k)"
  unfolding conforms_object by auto

lemma conforms_row:
  assumes "conforms (ObjectSchema [(''name'', TextSchema None), (''value'', TextSchema None)]) h"
  shows "form_row h"
  using assms by (auto simp: conforms_object form_row_def text_or_undefined_def)

lemma conforms_rows: "conforms rows_schema v \<Longrightarrow> form_rows v"
proof (cases v)
  case (Arr hs)
  assume "conforms rows_schema v"
  then have "list_all (conforms (ObjectSchema [(''name'', TextSchema None), (''value'', TextSchema None)])) hs"
    by (simp add: rows_schema_def Arr)
  then have "list_all form_row hs" by (rule list.pred_mono_strong) (rule conforms_row)
  then show ?thesis by (simp add: form_rows_def Arr)
qed (simp_all add: rows_schema_def)

lemma form_rows_Undef: "form_rows Undef"
  by (simp add: form_rows_def)

lemma conforms_node:
  assumes "conforms node_schema v"
  shows "form_node v"
proof -
  obtain n where v: "v = Obj n" using assms unfolding node_schema_def conforms_object by blast
  have "mem n ''headers'' = Undef \<or> conforms rows_schema (mem n ''headers'')"
    "mem n ''queries'' = Undef \<or> conforms rows_schema (mem n ''queries'')"
    using assms unfolding v node_schema_def by (rule conforms_memberD, simp)+
  then have "form_rows (mem n ''headers'')" "form_rows (mem n ''queries'')"
    using conforms_rows form_rows_Undef by metis+
  then show ?thesis by (simp add: form_node_def v)
qed

text \<open>The schema asks for no member, the page cannot do without \<open>trace\<close>.\<close>

definition has_trace :: "jsv \<Rightarrow> bool" where
  "has_trace d = (case d of Obj ps \<Rightarrow> mem ps ''trace'' \<noteq> Undef | _ \<Rightarrow> False)"

lemma conforms_form:
  assumes "conforms form_schema d" and "wf_js d" and "has_trace d"
  obtains ps xs where "d = Obj ps" and "map_of ps ''trace'' = Some (Arr xs)" and "list_all (conforms node_schema) xs" and "form_case d"
proof -
  obtain ps where d: "d = Obj ps" using assms(1) unfolding form_schema_def conforms_object by blast
  have "mem ps ''trace'' = Undef \<or> conforms (ArraySchema node_schema) (mem ps ''trace'')"
    using assms(1) unfolding d form_schema_def by (rule conforms_memberD) simp
  with assms(3) obtain xs where xs: "mem ps ''trace'' = Arr xs" "list_all (conforms node_schema) xs"
    by (auto simp: has_trace_def d)
  from xs(2) have "list_all form_node xs" by (rule list.pred_mono_strong) (rule conforms_node)
  with assms(2) have "form_case d" by (simp add: form_case_def d xs(1) del: wf_js_Obj_iff)
  moreover have "map_of ps ''trace'' = Some (Arr xs)" using xs(1) by (auto simp: mem_def split: option.splits)
  ultimately show ?thesis using that d xs(2) by blast
qed

lemma trace_not_required: "conforms form_schema (Obj [])" "viewToPost (Obj []) = Inl TypeError"
  by code_simp+

section \<open>Conforming again\<close>

lemma finite_between: "num_between lo hi n \<Longrightarrow> finite_num n"
  by (cases n) (simp_all add: num_between_def finite_num_def)

lemma conforms_jsonify: "conforms s v \<Longrightarrow> wf_js v \<Longrightarrow> conforms s (jsonify v)"
proof (induction s v rule: conforms.induct)
  case (1 allowed v)
  then show ?case by (cases allowed) auto
next
  case (2 w lo hi d v)
  then show ?case by (auto dest: finite_between)
next
  case (3 s v)
  then obtain xs where v: "v = Arr xs" "list_all (conforms s) xs" by auto
  have "conforms s (jsonify x)" if "x \<in> set xs" for x
    using 3(1) [OF v(1) that] v that 3(3) by (auto simp: list_all_iff)
  then show ?case by (simp add: v(1) list_all_iff)
next
  case (4 members v)
  then obtain ps where v: "v = Obj ps" unfolding conforms_object by blast
  have d: "distinct (map fst ps)" using 4(3) by (simp add: v props_wf_def)
  have "mem (jsonify_props ps) k = Undef \<or> conforms s (mem (jsonify_props ps) k)" if m: "(k, s) \<in> set members" for k s
  proof (cases "mem ps k = Undef")
    case True
    then show ?thesis using mem_jsonify_cases [OF d, of k] by simp
  next
    case False
    with 4(2) m have c: "conforms s (mem ps k)" unfolding v by (auto dest: conforms_memberD)
    have "wf_js (mem ps k)" using wf_mem [OF _ False] 4(3) unfolding v .
    with c have "conforms s (jsonify (mem ps k))" by (rule 4(1) [OF v m refl])
    then show ?thesis using mem_jsonify_cases [OF d, of k] False by simp
  qed
  then show ?case by (auto simp: v conforms_object)
qed

text \<open>Members that are absent, unchanged or conforming make an object conform.\<close>

lemma conforms_agree:
  assumes "conforms (ObjectSchema members) (Obj ps)"
    and "\<And>k s. (k, s) \<in> set members \<Longrightarrow> mem qs k = mem ps k \<or> mem qs k = Undef \<or> conforms s (mem qs k)"
  shows "conforms (ObjectSchema members) (Obj qs)"
  unfolding conforms_object using assms conforms_memberD [OF assms(1)] by (fastforce split: prod.split)

lemma conforms_objToArray: "text_rows v \<Longrightarrow> objToArray v = Undef \<or> conforms rows_schema (objToArray v)"
proof (cases v)
  case (Obj rs)
  assume "text_rows v"
  then have rs: "rs \<noteq> []" "list_all text_prop rs" by (simp_all add: text_rows_def Obj)
  have "conforms (ObjectSchema [(''name'', TextSchema None), (''value'', TextSchema None)]) (row k x)" if "(k, x) \<in> set rs" for k x
  proof -
    have "text_prop (k, x)" using rs(2) that by (simp add: list_all_iff)
    then obtain s where "x = Str s" by (cases x) (simp_all add: text_prop_def)
    then show ?thesis by (simp add: conforms_object row_def mem_def)
  qed
  then have "list_all (conforms (ObjectSchema [(''name'', TextSchema None), (''value'', TextSchema None)])) (map (\<lambda>(k, x). row k x) rs)"
    by (auto simp: list_all_iff)
  then show ?thesis using rs(1) by (simp add: Obj objToArray_def for_in_def rows_schema_def)
qed (simp_all add: text_rows_def objToArray_def)

lemma truthy_text_rows: "text_rows v \<Longrightarrow> \<not> truthy v \<Longrightarrow> v = Undef"
  by (auto simp: text_rows_def split: jsv.splits)

lemma mem_base: "k \<noteq> ''headers'' \<Longrightarrow> k \<noteq> ''queries'' \<Longrightarrow> mem (base n) k = mem n k"
  by (simp add: mem_def base_def own_simps)

lemma mem_put_other: "k \<noteq> j \<Longrightarrow> mem (put_defined j v ps) k = mem ps k"
  by (simp add: put_defined_def mem_def own_simps)

lemma mem_posted_other: "k \<noteq> ''headers'' \<Longrightarrow> k \<noteq> ''queries'' \<Longrightarrow> mem (posted_node n h q) k = mem n k"
  by (simp only: posted_node_def mem_put_other mem_base not_False_eq_True)

lemma mem_view_props: "mem (view_props n) k =
    (if k = ''queries'' then objToArray (mem n ''queries'') else if k = ''headers'' then objToArray (mem n ''headers'') else mem n k)"
  by (simp add: view_props_def mem_def own_simps)

lemma node_conforms_again:
  assumes "conforms node_schema (Obj m)" and "text_rows h" and "text_rows q"
  shows "conforms node_schema (Obj (view_props (posted_node m h q)))"
    and "\<not> truthy h \<Longrightarrow> \<not> truthy q \<Longrightarrow> conforms node_schema (Obj (posted_node m h q))"
proof -
  have r: "s = rows_schema" if "(k, s) \<in> set (case node_schema of ObjectSchema ms \<Rightarrow> ms | _ \<Rightarrow> [])" "k = ''headers'' \<or> k = ''queries''" for k s
    using that by (auto simp: node_schema_def)
  obtain ms where ms: "node_schema = ObjectSchema ms" by (simp add: node_schema_def)
  show "conforms node_schema (Obj (view_props (posted_node m h q)))"
    unfolding ms
  proof (rule conforms_agree [OF assms(1) [unfolded ms]])
    fix k s
    assume k: "(k, s) \<in> set ms"
    show "mem (view_props (posted_node m h q)) k = mem m k \<or> mem (view_props (posted_node m h q)) k = Undef \<or>
        conforms s (mem (view_props (posted_node m h q)) k)"
      using r [of k s] k conforms_objToArray [OF assms(2)] conforms_objToArray [OF assms(3)]
      by (auto simp: ms mem_view_props mem_posted_node mem_posted_other)
  qed
  show "conforms node_schema (Obj (posted_node m h q))" if "\<not> truthy h" "\<not> truthy q"
    unfolding ms
  proof (rule conforms_agree [OF assms(1) [unfolded ms]])
    fix k s
    assume "(k, s) \<in> set ms"
    show "mem (posted_node m h q) k = mem m k \<or> mem (posted_node m h q) k = Undef \<or> conforms s (mem (posted_node m h q) k)"
      using truthy_text_rows assms(2,3) that
      by (cases "k = ''headers'' \<or> k = ''queries''") (auto simp: mem_posted_node mem_posted_other)
  qed
qed

text \<open>A posted node that the form shows, with or without its rows turned into lists.\<close>

definition shows_conforming :: "jsv \<Rightarrow> bool" where
  "shows_conforming y \<longleftrightarrow> text_node y \<and> (case y of
      Obj n \<Rightarrow> conforms node_schema (Obj (view_props n)) \<and>
        (\<not> truthy (mem n ''headers'') \<longrightarrow> \<not> truthy (mem n ''queries'') \<longrightarrow> conforms node_schema y)
    | _ \<Rightarrow> False)"

lemma post_conforming:
  assumes "conforms node_schema x" and "wf_js x"
  shows "\<exists>y. post_node (jsonify x) = Inr y \<and> shows_conforming y"
proof -
  have c: "conforms node_schema (jsonify x)" by (rule conforms_jsonify [OF assms])
  then obtain m where m: "jsonify x = Obj m" unfolding node_schema_def conforms_object by blast
  from post_form_node [OF conforms_node [OF c, unfolded m]] obtain h q where
    p: "post_node (Obj m) = Inr (Obj (posted_node m h q))" "text_rows h" "text_rows q" by blast
  have "shows_conforming (Obj (posted_node m h q))"
    using node_conforms_again [OF c [unfolded m] p(2,3)] by (simp add: shows_conforming_def text_posted_node p mem_posted_node)
  with m p(1) show ?thesis by auto
qed

lemma post_conforming_nodes:
  assumes "\<And>x. x \<in> set xs \<Longrightarrow> conforms node_schema x \<and> wf_js x"
  shows "\<exists>ys. rmap post_node (map jsonify xs) = Inr ys \<and> list_all shows_conforming ys"
  using assms
proof (induction xs)
  case (Cons x xs)
  then obtain ys where ys: "rmap post_node (map jsonify xs) = Inr ys" "list_all shows_conforming ys"
    by (meson list.set_intros(2))
  obtain y where "post_node (jsonify x) = Inr y" "shows_conforming y"
    using post_conforming Cons.prems [of x] by auto
  with ys show ?case by simp
qed simp

lemma shown_conforms:
  assumes "conforms form_schema (Obj ps)" and "wf_js (Obj ps)" and "list_all (conforms node_schema) nodes'"
    and "\<And>k. k \<noteq> ''trace'' \<Longrightarrow> k \<noteq> ''validate'' \<Longrightarrow> mem qs k = mem (jsonify_props ps) k"
    and "mem qs ''trace'' = Arr nodes'"
  shows "conforms form_schema (Obj qs)"
proof -
  have c: "conforms form_schema (Obj (jsonify_props ps))" using conforms_jsonify [OF assms(1,2)] by simp
  show ?thesis unfolding form_schema_def
  proof (rule conforms_agree [OF c [unfolded form_schema_def]])
    fix k s
    assume k: "(k, s) \<in> set [(''trace'', ArraySchema node_schema), (''times'', NumberSchema True 1 None None),
      (''threads'', NumberSchema True 1 None None), (''traceNodeTmpl'', TextSchema None), (''propagateHeaders'', TextSchema None)]"
    show "mem qs k = mem (jsonify_props ps) k \<or> mem qs k = Undef \<or> conforms s (mem qs k)"
    proof (cases "k = ''trace''")
      case True
      with k have "s = ArraySchema node_schema" by simp
      with True assms(3,5) show ?thesis by simp
    next
      case False
      moreover have "k \<noteq> ''validate''" using k by auto
      ultimately show ?thesis using assms(4) by blast
    qed
  qed
qed

lemma valid_state_shown:
  assumes "conforms form_schema d" and "wf_js d" and "has_trace d"
  shows "\<exists>p d'. viewToPost d = Inr p \<and> text_case p \<and> reorder p = p \<and> postToView p = Inr d' \<and> conforms form_schema d' \<and> has_trace d'"
proof -
  obtain ps xs where d: "d = Obj ps" "map_of ps ''trace'' = Some (Arr xs)" "list_all (conforms node_schema) xs" "form_case d"
    using conforms_form [OF assms] by blast
  obtain p where p: "viewToPost d = Inr p" "text_case p" "reorder p = p" using form_case_posted [OF d(4)] by blast
  have "wf_js (Arr xs)" using assms(2) d(2) unfolding d(1) by (rule wf_js_member)
  then obtain ys where ys: "rmap post_node (map jsonify xs) = Inr ys" "list_all shows_conforming ys"
    using post_conforming_nodes [of xs] d(3) by (auto simp: list_all_iff)
  define qs where "qs = own_del ''validate'' (own_put ''trace'' (Arr ys) (jsonify_props ps))"
  have dist: "distinct (map fst ps)" using assms(2) by (simp add: d(1) props_wf_def)
  have q: "p = Obj qs" using p(1) viewToPost_Obj [OF d(2) dist] ys(1) by (simp add: d(1) qs_def)
  have other: "mem qs k = mem (jsonify_props ps) k" if "k \<noteq> ''trace''" "k \<noteq> ''validate''" for k
    using that by (simp add: qs_def mem_def own_simps)
  have t: "map_of qs ''trace'' = Some (Arr ys)" by (simp add: qs_def own_simps)
  obtain nodes where n: "map_of qs ''trace'' = Some (Arr (map Obj nodes))" and j: "json_value (Obj qs)"
    using text_caseE [OF p(2)] unfolding q by (metis jsv.inject(5))
  have y: "ys = map Obj nodes" using t n by simp
  show ?thesis
  proof (cases "\<exists>n\<in>set nodes. truthy (mem n ''headers'') \<or> truthy (mem n ''queries'')")
    case True
    define rs where "rs = own_put ''trace'' (Arr (map (\<lambda>n. Obj (view_props n)) nodes)) qs"
    have v: "postToView p = Inr (Obj rs)" using True by (simp add: q postToView_Obj [OF j n] rs_def)
    have m: "mem rs ''trace'' = Arr (map (\<lambda>n. Obj (view_props n)) nodes)" by (simp add: rs_def mem_def own_simps)
    have "list_all (conforms node_schema) (map (\<lambda>n. Obj (view_props n)) nodes)"
      using ys(2) by (simp add: y list_all_iff shows_conforming_def)
    then have "conforms form_schema (Obj rs)"
      by (rule shown_conforms [OF assms(1,2) [unfolded d(1)] _ _ m]) (simp add: other [symmetric], simp add: rs_def mem_def own_simps)
    then show ?thesis using p v m by (auto simp: has_trace_def)
  next
    case False
    then have v: "postToView p = Inr (Obj qs)" by (simp add: q postToView_Obj [OF j n])
    have m: "mem qs ''trace'' = Arr ys" by (simp add: t mem_def)
    have "list_all (conforms node_schema) ys" using ys(2) False by (simp add: y list_all_iff shows_conforming_def)
    then have "conforms form_schema (Obj qs)"
      by (rule shown_conforms [OF assms(1,2) [unfolded d(1)] _ other m])
    then show ?thesis using p v m by (auto simp: has_trace_def)
  qed
qed

text \<open>
  C15. A state with a trace that the form's schema accepts is posted: \<open>viewToPost\<close> returns a case whose
  headers and queries are texts; showing that case again, as loading, saving or editing it as
  text does, gives a state the schema accepts as well, and posting that gives the same case.
  The schema's verdict is therefore stable over any number of such rounds.
\<close>
theorem valid_states_stay_valid:
  assumes "conforms form_schema d" and "wf_js d" and "has_trace d"
  shows "\<exists>p d'. viewToPost d = Inr p \<and> text_case p \<and> postToView p = Inr d' \<and>
    conforms form_schema d' \<and> has_trace d' \<and> viewToPost d' = Inr p"
proof -
  obtain p d' where p: "viewToPost d = Inr p" "text_case p" "reorder p = p" "postToView p = Inr d'"
    "conforms form_schema d'" "has_trace d'" using valid_state_shown [OF assms] by blast
  have "rbind (postToView p) viewToPost = Inr p"
    using clean_case_round_trip [OF text_case_clean [OF p(2)]] p(3) by simp
  with p show ?thesis by auto
qed

definition valid_form :: jsv where
  "valid_form = Obj [(''times'', Num (Fin 2 0)), (''trace'', Arr [
     Obj [(''by'', Str ''http''), (''delay'', Num (Fin 5 (-1))),
       (''headers'', Arr [Obj [(''name'', Str ''host''), (''value'', Str ''a.b'')], Obj []])]])]"

theorem valid_states_stay_valid_witness:
  "\<exists>p d'. viewToPost valid_form = Inr p \<and> text_case p \<and> postToView p = Inr d' \<and>
    conforms form_schema d' \<and> has_trace d' \<and> viewToPost d' = Inr p"
proof (rule valid_states_stay_valid)
  show "conforms form_schema valid_form" by code_simp
  show "wf_js valid_form" by code_simp
  show "has_trace valid_form" by code_simp
qed

end
