(* ===== verification/UrlBase64Java.thy ===== *)
theory UrlBase64Java
  imports JavaBase
begin

text \<open>
  \<open>PowerfulService.encodeURLBase64\<close> and \<open>decodeURLBase64\<close>: instructions and cases as text that
  stands in an address. Spring's \<open>Base64Utils\<close> is an argument; what is relied on of it is the
  locale \<open>url_codec\<close>, which the URL-safe alphabet of RFC 4648 satisfies.
\<close>

section \<open>The two functions\<close>

type_synonym bytes = "nat list"

definition jtrim :: "string \<Rightarrow> string" where
  "jtrim s = rev (dropWhile (\<lambda>c. of_char c \<le> (32 :: nat)) (rev (dropWhile (\<lambda>c. of_char c \<le> (32 :: nat)) s)))"

text \<open>\<open>getBytes(UTF_8)\<close> for characters below 256\<close>

definition utf8_bytes :: "string \<Rightarrow> bytes" where
  "utf8_bytes s = concat (map (\<lambda>c. let n = of_char c in if n < 128 then [n] else [192 + n div 64, 128 + n mod 64]) s)"

definition encodeURLBase64 :: "(bytes \<Rightarrow> string) \<Rightarrow> string \<Rightarrow> string" where
  "encodeURLBase64 encode content = encode (utf8_bytes (jtrim content))"

text \<open>\<open>new String(bytes)\<close> reads them in the charset of the platform.\<close>

definition decodeURLBase64 :: "(string \<Rightarrow> java_error + bytes) \<Rightarrow> (bytes \<Rightarrow> string) \<Rightarrow> string \<Rightarrow> java_error + string" where
  "decodeURLBase64 decode platform_text base64 = rbind (decode base64) (\<lambda>bs. Inr (platform_text bs))"

section \<open>What is relied on\<close>

definition is_bytes :: "bytes \<Rightarrow> bool" where
  "is_bytes bs \<longleftrightarrow> list_all (\<lambda>b. b < 256) bs"

definition url_letters :: string where
  "url_letters = ''ABCDEFGHIJKLMNOPQRSTUVWXYZabcdefghijklmnopqrstuvwxyz0123456789-_''"

locale url_codec =
  fixes encode :: "bytes \<Rightarrow> string" and decode :: "string \<Rightarrow> java_error + bytes"
  assumes decode_encode: "is_bytes bs \<Longrightarrow> decode (encode bs) = Inr bs"
    and encode_safe: "is_bytes bs \<Longrightarrow> set (encode bs) \<subseteq> insert CHR ''='' (set url_letters)"

lemma of_char_256: "of_char c < (256 :: nat)"
proof -
  have "of_char c \<in> range (of_char :: char \<Rightarrow> nat)" by simp
  then show ?thesis unfolding range_nat_of_char by simp
qed

lemma utf8_is_bytes: "is_bytes (utf8_bytes s)"
proof (induction s)
  case (Cons c s)
  have "192 + of_char c div 64 < (256 :: nat)" "128 + of_char c mod 64 < (256 :: nat)" using of_char_256 [of c] by linarith+
  with Cons show ?case by (simp add: is_bytes_def utf8_bytes_def Let_def)
qed (simp add: is_bytes_def utf8_bytes_def)

text \<open>The charset of the platform reads what UTF-8 wrote.\<close>

definition reads_utf8 :: "(bytes \<Rightarrow> string) \<Rightarrow> bool" where
  "reads_utf8 platform_text \<longleftrightarrow> (\<forall>s. platform_text (utf8_bytes s) = s)"

context url_codec
begin

lemma decode_body: "reads_utf8 platform_text \<Longrightarrow> decodeURLBase64 decode platform_text (encodeURLBase64 encode s) = Inr (jtrim s)"
  by (simp add: encodeURLBase64_def decodeURLBase64_def decode_encode utf8_is_bytes reads_utf8_def)

lemma body_safe: "set (encodeURLBase64 encode s) \<subseteq> insert CHR ''='' (set url_letters)"
  unfolding encodeURLBase64_def by (rule encode_safe [OF utf8_is_bytes])

end

section \<open>RFC 4648\<close>

fun sextets :: "bytes \<Rightarrow> nat list" where
  "sextets [] = []"
| "sextets [a] = [a div 4, a mod 4 * 16]"
| "sextets [a, b] = [a div 4, a mod 4 * 16 + b div 16, b mod 16 * 4]"
| "sextets (a # b # c # bs) = [a div 4, a mod 4 * 16 + b div 16, b mod 16 * 4 + c div 64, c mod 64] @ sextets bs"

fun octets :: "nat list \<Rightarrow> java_error + bytes" where
  "octets [] = Inr []"
| "octets [x] = Inl (IllegalArgument ''Last unit does not have enough valid bits'')"
| "octets [x, y] = Inr [x * 4 + y div 16]"
| "octets [x, y, z] = Inr [x * 4 + y div 16, y mod 16 * 16 + z div 4]"
| "octets (x # y # z # w # xs) = rbind (octets xs) (\<lambda>bs. Inr ([x * 4 + y div 16, y mod 16 * 16 + z div 4, z mod 4 * 64 + w] @ bs))"

definition rfc_encode :: "bytes \<Rightarrow> string" where
  "rfc_encode bs = map ((!) url_letters) (sextets bs) @ replicate ((3 - length bs mod 3) mod 3) CHR ''=''"

definition letter_value :: "char \<Rightarrow> java_error + nat" where
  "letter_value c = (case filter (\<lambda>i. url_letters ! i = c) [0..<64] of
      i # _ \<Rightarrow> Inr i
    | [] \<Rightarrow> Inl (IllegalArgument ''Illegal base64 character''))"

definition rfc_decode :: "string \<Rightarrow> java_error + bytes" where
  "rfc_decode s = rbind (rmap letter_value (takeWhile (\<lambda>c. c \<noteq> CHR ''='') s)) octets"

lemma sextets_small: "is_bytes bs \<Longrightarrow> list_all (\<lambda>x. x < 64) (sextets bs)"
  by (induction bs rule: sextets.induct) (auto simp: is_bytes_def)

lemma digits: "y < k \<Longrightarrow> (x * k + y) div k = x" "y < k \<Longrightarrow> (x * k + y) mod k = y" for x y k :: nat
  by simp_all

lemma regroup:
  fixes a b :: nat
  assumes "b < 256"
  shows "a div 4 * 4 + (a mod 4 * 16 + b div 16) div 16 = a" and "(a mod 4 * 16 + b div 16) mod 16 = b div 16"
proof -
  have "b div 16 < 16" using assms by simp
  from digits [OF this, of "a mod 4"] show "a div 4 * 4 + (a mod 4 * 16 + b div 16) div 16 = a" "(a mod 4 * 16 + b div 16) mod 16 = b div 16"
    by simp_all
qed

lemma regroup_last:
  fixes b c :: nat
  assumes "c < 256"
  shows "(b mod 16 * 4 + c div 64) div 4 = b mod 16" and "(b mod 16 * 4 + c div 64) mod 4 * 64 + c mod 64 = c"
proof -
  have "c div 64 < 4" using assms by simp
  from digits [OF this, of "b mod 16"] show "(b mod 16 * 4 + c div 64) div 4 = b mod 16" "(b mod 16 * 4 + c div 64) mod 4 * 64 + c mod 64 = c"
    by simp_all
qed

lemma octets_sextets: "is_bytes bs \<Longrightarrow> octets (sextets bs) = Inr bs"
proof (induction bs rule: sextets.induct)
  case (4 a b c bs)
  then have "b < 256" "c < 256" "octets (sextets bs) = Inr bs" by (simp_all add: is_bytes_def)
  then show ?case by (simp add: regroup regroup_last del: div_mult_self3 div_mult_self4)
next
  case (3 a b)
  then have "b < 256" by (simp add: is_bytes_def)
  then show ?case by (simp add: regroup del: div_mult_self3 div_mult_self4)
qed simp_all

lemma letters_length: "length url_letters = 64"
  by (simp add: url_letters_def)

lemma letters_distinct: "distinct url_letters"
  by code_simp

lemma letter_value_nth: "x < 64 \<Longrightarrow> letter_value (url_letters ! x) = Inr x"
proof -
  assume x: "x < 64"
  have "filter (\<lambda>i. url_letters ! i = url_letters ! x) [0..<64] = filter (\<lambda>i. i = x) [0..<64]"
    using x letters_distinct by (intro filter_cong) (simp_all add: nth_eq_iff_index_eq letters_length)
  also have "\<dots> = filter (\<lambda>i. i = x) ([0..<x] @ x # [x + 1..<64])"
    using x upt_conv_Cons [of x 64] upt_add_eq_append [of 0 x "64 - x"] by simp
  also have "\<dots> = [x]" by (simp add: filter_empty_conv)
  finally show ?thesis by (simp add: letter_value_def)
qed

lemma letters_no_padding: "x < 64 \<Longrightarrow> url_letters ! x \<noteq> CHR ''=''"
proof -
  assume "x < 64"
  then have "url_letters ! x \<in> set url_letters" by (simp add: letters_length)
  moreover have "CHR ''='' \<notin> set url_letters" by code_simp
  ultimately show ?thesis by metis
qed

lemma takeWhile_padded: "\<forall>y\<in>set ys. y \<noteq> x \<Longrightarrow> takeWhile (\<lambda>y. y \<noteq> x) (ys @ replicate n x) = ys"
  by (induction ys) (cases n, simp_all)

interpretation rfc4648: url_codec rfc_encode rfc_decode
proof
  fix bs
  assume "is_bytes bs"
  then have small: "\<forall>x\<in>set (sextets bs). x < 64" using sextets_small by (simp add: list_all_iff)
  have "takeWhile (\<lambda>c. c \<noteq> CHR ''='') (rfc_encode bs) = map ((!) url_letters) (sextets bs)"
    using small letters_no_padding unfolding rfc_encode_def by (intro takeWhile_padded) auto
  moreover have "rmap letter_value (map ((!) url_letters) xs) = Inr xs" if "\<forall>x\<in>set xs. x < 64" for xs
    using that by (induction xs) (simp_all add: letter_value_nth)
  ultimately show "rfc_decode (rfc_encode bs) = Inr bs"
    using small octets_sextets [OF \<open>is_bytes bs\<close>] by (simp add: rfc_decode_def)
  show "set (rfc_encode bs) \<subseteq> insert CHR ''='' (set url_letters)"
    using small by (auto simp: rfc_encode_def letters_length)
qed

text \<open>A platform on UTF-8, as far as its characters go, and one on ISO 8859-1.\<close>

fun utf8_text :: "bytes \<Rightarrow> string" where
  "utf8_text [] = []"
| "utf8_text [b] = [char_of b]"
| "utf8_text (b # d # bs) = (if b < 128 then char_of b # utf8_text (d # bs) else char_of ((b - 192) * 64 + (d - 128)) # utf8_text bs)"

definition latin1_text :: "bytes \<Rightarrow> string" where
  "latin1_text bs = map char_of bs"

lemma utf8_reads: "reads_utf8 utf8_text"
proof -
  have "utf8_text (utf8_bytes s) = s" for s
  proof (induction s)
    case (Cons c s)
    have "(192 + of_char c div 64 - 192) * 64 + (128 + of_char c mod 64 - 128) = (of_char c :: nat)" by simp
    moreover have "utf8_text (n # bs) = char_of n # utf8_text bs" if "n < 128" for n bs using that by (cases bs) simp_all
    ultimately show ?case using Cons by (simp add: utf8_bytes_def Let_def)
  qed (simp add: utf8_bytes_def)
  then show ?thesis by (simp add: reads_utf8_def)
qed

text \<open>
  An instruction or case that is put into an address arrives: the encoded text needs no
  escaping there, since it has only letters, digits, \<open>-\<close>, \<open>_\<close> and \<open>=\<close>, and decoding it gives
  the text that was encoded, without the blanks around it.
\<close>

lemma body_in_address:
  assumes "url_codec encode decode" and "reads_utf8 platform_text"
  shows "decodeURLBase64 decode platform_text (encodeURLBase64 encode s) = Inr (jtrim s)"
    and "set (encodeURLBase64 encode s) \<subseteq> insert CHR ''='' (set url_letters)"
  using url_codec.decode_body [OF assms] url_codec.body_safe [OF assms(1)] by blast+

lemma body_example:
  "encodeURLBase64 rfc_encode '' a: 1? '' = ''YTogMT8=''" "decodeURLBase64 rfc_decode utf8_text ''YTogMT8='' = Inr ''a: 1?''"
  by code_simp+

text \<open>On a platform that is not on UTF-8 the text arrives changed.\<close>

lemma platform_charset: "decodeURLBase64 rfc_decode latin1_text (encodeURLBase64 rfc_encode [CHR 0xE9]) = Inr [CHR 0xC3, CHR 0xA9]"
  by code_simp

end
