(* ===== verification/CasePagesJava.thy ===== *)
theory CasePagesJava
  imports CaseApiJava UrlBase64Java
begin

text \<open>
  The other addresses of \<open>RequestCaseApiController.java\<close>: the page itself, the list of cases,
  cases given as JSON, YAML or Base64 text, and the report of \<open>/executeAll\<close>, which runs the
  configured cases one after the other while it is written. Jackson's readers and writers are
  arguments.
\<close>

section \<open>Page and lists\<close>

text \<open>\<open>/c\<close>\<close>

definition cases :: "resources \<Rightarrow> java_error + jsv" where
  "cases res = (case rawCaseSets res of
      None \<Rightarrow> Inl NullPointer
    | Some sets \<Rightarrow> Inr (Obj (map (\<lambda>(group, cs). (group, Arr (map (\<lambda>(name, _). Str name) cs))) sets)))"

text \<open>\<open>/\<close>: the name of the view and what it is given.\<close>

definition casesHtml :: "resources \<Rightarrow> string option \<Rightarrow> string \<times> (string \<times> jobj) list" where
  "casesHtml res scope = (let mm = [(''cases'', JList (map (\<lambda>(name, _). JStr name) (rawCases res)))]
     in case scope of
          None \<Rightarrow> (''forward:/index.html'', mm)
        | Some s \<Rightarrow> (''scoped_index'', mm @ [(''scope'', JStr s)]))"

section \<open>Cases sent as text\<close>

text \<open>\<open>/e\<close>\<close>

definition eCase ::
  "server \<Rightarrow> 'd platform \<Rightarrow> replace_all \<Rightarrow> resources \<Rightarrow> RequestCase \<Rightarrow> (string \<times> string) list \<Rightarrow> bool \<Rightarrow> (run_state, jobj) stm" where
  "eCase srv pf replaceAll res requestCase params validated = run_case srv pf replaceAll res requestCase params validated"

text \<open>\<open>/y\<close>; the filter keeps the body of the request as the attribute \<open>realBody\<close>.\<close>

definition yCase ::
  "server \<Rightarrow> 'd platform \<Rightarrow> replace_all \<Rightarrow> resources \<Rightarrow> (string \<Rightarrow> java_error + RequestCase) \<Rightarrow> string \<Rightarrow>
     (string \<times> string) list \<Rightarrow> bool \<Rightarrow> (run_state, jobj) stm" where
  "yCase srv pf replaceAll res read_yaml realBody params validated =
     jbind (jlift (read_yaml realBody)) (\<lambda>c. run_case srv pf replaceAll res c params validated)"

text \<open>\<open>/y/{body}\<close>\<close>

definition yCase_body ::
  "server \<Rightarrow> 'd platform \<Rightarrow> replace_all \<Rightarrow> resources \<Rightarrow> (string \<Rightarrow> java_error + string) \<Rightarrow> (string \<Rightarrow> java_error + RequestCase) \<Rightarrow>
     (jobj \<Rightarrow> java_error + string) \<Rightarrow> string \<Rightarrow> (string \<times> string) list \<Rightarrow> bool \<Rightarrow> (run_state, string) stm" where
  "yCase_body srv pf replaceAll res decoded read_yaml write_yaml given params validated =
     jbind (jlift (decoded given)) (\<lambda>decodedBody.
     jbind (jlift (read_yaml decodedBody)) (\<lambda>requestCase.
     jbind (run_case srv pf replaceAll res requestCase params validated) (\<lambda>result.
     jbind (jlift (write_yaml result)) (\<lambda>shown.
     jret (''----REQUEST----'' @ newline @ decodedBody @ newline @ newline @ ''---RESPONSE----'' @ newline @ shown)))))"

text \<open>\<open>/b\<close>\<close>

definition base64 :: "(bytes \<Rightarrow> string) \<Rightarrow> string \<Rightarrow> string" where
  "base64 encode realBody = encodeURLBase64 encode realBody"

section \<open>The report of all cases\<close>

text \<open>What has been written of the answer is part of the state.\<close>

type_synonym report_state = "string \<times> run_state"

definition println :: "string \<Rightarrow> (report_state, unit) stm" where
  "println line s = (Inr (), fst s @ line @ newline, snd s)"

definition on_server :: "(run_state, 'a) stm \<Rightarrow> (report_state, 'a) stm" where
  "on_server m s = (case m (snd s) of (r, s') \<Rightarrow> (r, fst s, s'))"

definition passed_of :: "jobj \<Rightarrow> java_error + bool" where
  "passed_of result = (case result of
      JMap ps \<Rightarrow> (case map_of ps ''passed'' of Some (JBool b) \<Rightarrow> Inr b | _ \<Rightarrow> Inl NullPointer)
    | _ \<Rightarrow> Inl (LibraryFailure ''ClassCastException''))"

text \<open>How the cases are read and written.\<close>

record mappers =
  read_case :: "jsv \<Rightarrow> java_error + RequestCase"
  write_case :: "jsv \<Rightarrow> string"
  write_result :: "jobj \<Rightarrow> java_error + string"

definition heading :: "string \<Rightarrow> string" where
  "heading name = ''=======executing: '' @ name @ ''======='' @ newline"

definition run_named ::
  "server \<Rightarrow> 'd platform \<Rightarrow> replace_all \<Rightarrow> mappers \<Rightarrow> resources \<Rightarrow> (string \<times> string) list \<Rightarrow> string \<Rightarrow> (run_state, jobj) stm" where
  "run_named srv pf replaceAll ms res params name =
     jbind (jlift (getCase (read_case ms) res name)) (\<lambda>c. case c of
         None \<Rightarrow> jthrow NullPointer
       | Some requestCase \<Rightarrow> run_case srv pf replaceAll res requestCase params True)"

definition executeDuringResponse ::
  "server \<Rightarrow> 'd platform \<Rightarrow> replace_all \<Rightarrow> mappers \<Rightarrow> resources \<Rightarrow> (string \<times> string) list \<Rightarrow> string \<Rightarrow> (report_state, unit) stm" where
  "executeDuringResponse srv pf replaceAll ms res params name =
     jbind (println (''=======executing: '' @ name @ ''=======''))  (\<lambda>_.
     jbind (on_server (run_named srv pf replaceAll ms res params name)) (\<lambda>result.
     jbind (jlift (passed_of result)) (\<lambda>passed.
       if passed then println (''OK'' @ newline)
       else jbind (println (''!!!!!!!failed: '' @ name @ ''!!!!!!!'')) (\<lambda>_.
         jbind (println (''case:'' @ newline @ getRawCaseString (write_case ms) res name)) (\<lambda>_.
         jbind (jlift (write_result ms result)) (\<lambda>shown. println (''result: '' @ shown)))))))"

fun execute_each :: "(string \<Rightarrow> (report_state, unit) stm) \<Rightarrow> string list \<Rightarrow> (report_state, unit) stm" where
  "execute_each one [] = jret ()"
| "execute_each one (name # names) = jbind (one name) (\<lambda>_. execute_each one names)"

text \<open>\<open>/executeAll\<close> and \<open>/executeAll/{set}\<close>\<close>

definition executeAll ::
  "server \<Rightarrow> 'd platform \<Rightarrow> replace_all \<Rightarrow> mappers \<Rightarrow> resources \<Rightarrow> (string \<times> string) list \<Rightarrow> (report_state, unit) stm" where
  "executeAll srv pf replaceAll ms res params =
     execute_each (executeDuringResponse srv pf replaceAll ms res params) (map fst (rawCases res))"

definition executeAll_set ::
  "server \<Rightarrow> 'd platform \<Rightarrow> replace_all \<Rightarrow> mappers \<Rightarrow> resources \<Rightarrow> string \<Rightarrow> (string \<times> string) list \<Rightarrow> (report_state, unit) stm" where
  "executeAll_set srv pf replaceAll ms res set_name params = (case rawCaseSets res of
      None \<Rightarrow> jthrow NullPointer
    | Some sets \<Rightarrow> execute_each (executeDuringResponse srv pf replaceAll ms res params)
        (case map_of sets set_name of Some cs \<Rightarrow> map fst cs | None \<Rightarrow> []))"

end
