(* ===== verification/CaseReports.thy ===== *)
theory CaseReports
  imports CasePagesJava FrontServer
begin

text \<open>
  What the report of \<open>/executeAll\<close> says about the configured cases, and that a case put into an
  address by \<open>/b\<close> is run as \<open>/y\<close> would run it.
\<close>

section \<open>What a report says\<close>

text \<open>The lines of one case; \<open>Some shown\<close> is the result of a case that has not passed.\<close>

definition block :: "mappers \<Rightarrow> resources \<Rightarrow> string \<Rightarrow> string option \<Rightarrow> string" where
  "block ms res name verdict = heading name @ (case verdict of
      None \<Rightarrow> ''OK'' @ newline @ newline
    | Some shown \<Rightarrow> ''!!!!!!!failed: '' @ name @ ''!!!!!!!'' @ newline @ ''case:'' @ newline @ getRawCaseString (write_case ms) res name @ newline @
        ''result: '' @ shown @ newline)"

definition verdict_of :: "mappers \<Rightarrow> jobj \<Rightarrow> string option \<Rightarrow> bool" where
  "verdict_of ms result verdict \<longleftrightarrow> (case verdict of
      None \<Rightarrow> passed_of result = Inr True
    | Some shown \<Rightarrow> passed_of result = Inr False \<and> write_result ms result = Inr shown)"

lemma run_named_passed:
  assumes "run_named srv pf replaceAll ms res params name s = (Inr result, s')"
  shows "\<exists>b. passed_of result = Inr b"
proof -
  from assms obtain c u where "run_case srv pf replaceAll res c params True u = (Inr result, s')"
    by (auto simp: run_named_def jbind_def split: prod.splits sum.splits option.splits)
  then obtain r b where "result = JMap [(''result'', r), (''passed'', JBool b)]" using run_case_validated by metis
  then show ?thesis by (simp add: passed_of_def)
qed

lemma println_then: "jbind (println line) f (w, s) = f () (w @ line @ newline, s)"
  by (simp add: jbind_def println_def)

lemma on_server_then: "jbind (on_server m) f (w, s) = (case m s of (Inl e, s') \<Rightarrow> (Inl e, w, s') | (Inr x, s') \<Rightarrow> f x (w, s'))"
  by (simp add: jbind_def on_server_def split: prod.split)

lemma one_case:
  "case executeDuringResponse srv pf replaceAll ms res params name (w, s) of
     (Inr _, w', s') \<Rightarrow> \<exists>result verdict. run_named srv pf replaceAll ms res params name s = (Inr result, s') \<and>
       verdict_of ms result verdict \<and> w' = w @ block ms res name verdict
   | (Inl e, w', s') \<Rightarrow> (\<exists>t. w' = w @ heading name @ t) \<and>
       (run_named srv pf replaceAll ms res params name s = (Inl e, s') \<or>
        (\<exists>result. run_named srv pf replaceAll ms res params name s = (Inr result, s') \<and> write_result ms result = Inl e))"
proof -
  obtain r u where r: "run_named srv pf replaceAll ms res params name s = (r, u)" by fastforce
  have h: "executeDuringResponse srv pf replaceAll ms res params name (w, s) = (case r of
      Inl e \<Rightarrow> (Inl e, w @ heading name, u)
    | Inr result \<Rightarrow> jbind (jlift (passed_of result)) (\<lambda>passed.
       if passed then println (''OK'' @ newline)
       else jbind (println (''!!!!!!!failed: '' @ name @ ''!!!!!!!'')) (\<lambda>_.
         jbind (println (''case:'' @ newline @ getRawCaseString (write_case ms) res name)) (\<lambda>_.
         jbind (jlift (write_result ms result)) (\<lambda>shown. println (''result: '' @ shown))))) (w @ heading name, u))"
    unfolding executeDuringResponse_def println_then on_server_then r heading_def by (cases r) simp_all
  show ?thesis
  proof (cases r)
    case (Inl e)
    with h r show ?thesis by simp
  next
    case (Inr result)
    obtain b where b: "passed_of result = Inr b" using run_named_passed r Inr by blast
    show ?thesis
    proof (cases b)
      case True
      then have "verdict_of ms result None" using b by (simp add: verdict_of_def)
      moreover have "executeDuringResponse srv pf replaceAll ms res params name (w, s) = (Inr (), w @ block ms res name None, u)"
        using h Inr b True by (simp add: println_def block_def)
      ultimately show ?thesis using r Inr by auto
    next
      case False
      show ?thesis
      proof (cases "write_result ms result")
        case (Inl e)
        with h \<open>r = Inr result\<close> b False r show ?thesis by (simp add: println_def jbind_def)
      next
        case (Inr shown)
        with b False have "verdict_of ms result (Some shown)" by (simp add: verdict_of_def)
        moreover have "executeDuringResponse srv pf replaceAll ms res params name (w, s) = (Inr (), w @ block ms res name (Some shown), u)"
          using h Inr \<open>r = Inr result\<close> b False by (simp add: println_def block_def jbind_def)
        ultimately show ?thesis using r \<open>r = Inr result\<close> by auto
      qed
    qed
  qed
qed

text \<open>The cases a report is about, each run in the state the one before left, with their verdicts.\<close>

fun ran :: "(string \<Rightarrow> (run_state, jobj) stm) \<Rightarrow> mappers \<Rightarrow> string list \<Rightarrow> run_state \<Rightarrow> string option list \<Rightarrow> run_state \<Rightarrow> bool" where
  "ran run ms names s [] s' \<longleftrightarrow> s' = s"
| "ran run ms [] s (v # vs) s' \<longleftrightarrow> False"
| "ran run ms (name # names) s (v # vs) s' \<longleftrightarrow> (case run name s of
      (Inr result, u) \<Rightarrow> verdict_of ms result v \<and> ran run ms names u vs s'
    | (Inl e, u) \<Rightarrow> False)"

definition report_of :: "mappers \<Rightarrow> resources \<Rightarrow> string list \<Rightarrow> string option list \<Rightarrow> string" where
  "report_of ms res names verdicts = concat (map2 (block ms res) names verdicts)"

definition ends_at :: "(string \<Rightarrow> (run_state, jobj) stm) \<Rightarrow> mappers \<Rightarrow> string \<Rightarrow> java_error \<Rightarrow> run_state \<Rightarrow> run_state \<Rightarrow> bool" where
  "ends_at run ms name e u s' \<longleftrightarrow> run name u = (Inl e, s') \<or> (\<exists>result. run name u = (Inr result, s') \<and> write_result ms result = Inl e)"

text \<open>
  A true report of \<open>names\<close> from state \<open>s\<close>: one block with its verdict for each case; if the
  statement threw, for the cases before the one that could not be run or shown.
\<close>

definition true_report ::
  "(string \<Rightarrow> (run_state, jobj) stm) \<Rightarrow> mappers \<Rightarrow> resources \<Rightarrow> string list \<Rightarrow> run_state \<Rightarrow> string \<Rightarrow> (java_error + unit) \<times> report_state \<Rightarrow> bool" where
  "true_report run ms res names s w outcome \<longleftrightarrow> (\<exists>verdicts u. ran run ms names s verdicts u \<and> (case outcome of
      (Inr _, w', s') \<Rightarrow> length verdicts = length names \<and> s' = u \<and> w' = w @ report_of ms res names verdicts
    | (Inl e, w', s') \<Rightarrow> length verdicts < length names \<and> ends_at run ms (names ! length verdicts) e u s' \<and>
        (\<exists>t. w' = w @ report_of ms res names verdicts @ heading (names ! length verdicts) @ t)))"

lemma each_case:
  "true_report (run_named srv pf replaceAll ms res params) ms res names s w
    (execute_each (executeDuringResponse srv pf replaceAll ms res params) names (w, s))"
proof (induction names arbitrary: w s)
  case Nil
  then show ?case by (auto simp: true_report_def report_of_def intro!: exI [of _ "[]"])
next
  case (Cons name names)
  let ?run = "run_named srv pf replaceAll ms res params"
  let ?each = "execute_each (executeDuringResponse srv pf replaceAll ms res params)"
  obtain q x u where q: "executeDuringResponse srv pf replaceAll ms res params name (w, s) = (q, x, u)" by (metis prod_cases3)
  note one = one_case [where srv = srv and pf = pf and replaceAll = replaceAll and ms = ms and res = res and params = params
    and name = name and w = w and s = s, unfolded q]
  show ?case
  proof (cases q)
    case (Inl e)
    with q have "?each (name # names) (w, s) = (Inl e, x, u)" by (simp add: jbind_def)
    with one Inl show ?thesis
      unfolding true_report_def by (intro exI [of _ "[]"] exI [of _ s]) (simp add: ends_at_def report_of_def)
  next
    case (Inr y)
    with one obtain result v where v: "?run name s = (Inr result, u)" "verdict_of ms result v" "x = w @ block ms res name v" by auto
    have e: "?each (name # names) (w, s) = ?each names (x, u)" using q Inr by (simp add: jbind_def)
    have b: "report_of ms res (name # names) (v # vs) = block ms res name v @ report_of ms res names vs" for vs
      by (simp add: report_of_def)
    from Cons.IH [of u x] obtain vs t where vs: "ran ?run ms names u vs t" "case ?each names (x, u) of
        (Inr _, w', s') \<Rightarrow> length vs = length names \<and> s' = t \<and> w' = x @ report_of ms res names vs
      | (Inl e, w', s') \<Rightarrow> length vs < length names \<and> ends_at ?run ms (names ! length vs) e t s' \<and>
          (\<exists>z. w' = x @ report_of ms res names vs @ heading (names ! length vs) @ z)" unfolding true_report_def by (elim exE conjE) (rule that)
    have "ran ?run ms (name # names) s (v # vs) t" using v vs(1) by simp
    then show ?thesis using vs(2) unfolding true_report_def e
      by (intro exI [of _ "v # vs"] exI [of _ t]) (simp add: b v(3) split: sum.splits prod.splits)
  qed
qed

text \<open>
  C18. The report of all cases, or of a group of them, is true: it has one block for each
  case, in the configured order, which says \<open>OK\<close> exactly if the validated run of that case,
  in the state the cases before left the server in, passed, and shows the case and its result
  otherwise. If a case cannot be run or its result not be written, the report ends inside
  its block and no case after it is run.
\<close>
theorem report_is_true:
  "true_report (run_named srv pf replaceAll ms res params) ms res (map fst (rawCases res)) s []
      (executeAll srv pf replaceAll ms res params ([], s)) \<and>
   (rawCaseSets res = Some sets \<and> map_of sets g = Some cs \<longrightarrow>
    true_report (run_named srv pf replaceAll ms res params) ms res (map fst cs) s []
      (executeAll_set srv pf replaceAll ms res g params ([], s)))"
  by (simp add: executeAll_def executeAll_set_def each_case)

text \<open>Two configured cases, one over HTTP and one over a protocol this server does not have.\<close>

definition two_cases :: resources where
  "two_cases = \<lparr>rawCases = [(''a'', Str ''http''), (''b'', Str ''grpc''), (''c'', Str ''http'')],
     rawCaseSets = Some [(''g'', [(''a'', Str ''http''), (''c'', Str ''http'')])], targetMapping = []\<rparr>"

definition demo_mappers :: mappers where
  "demo_mappers = \<lparr>read_case = \<lambda>v. case v of
      Str by \<Rightarrow> Inr \<lparr>case_instruction = (demo_instruction 1)\<lparr>inst_trace := [new_node\<lparr>node_call := Some ''b'', node_by := by\<rparr>]\<rparr>,
        case_name = None, case_description = None, case_expect = JStr ''a -> v1''\<rparr>
    | _ \<Rightarrow> Inl NullPointer,
    write_case = \<lambda>v. ''{}'', write_result = \<lambda>r. Inr (to_string r)\<rparr>"

lemma group_report:
  "fst (snd (executeAll_set demo_server counting no_replace demo_mappers two_cases ''g'' [] ([], demo_state (demo_instruction 1)))) =
     heading ''a'' @ ''OK'' @ newline @ newline @ heading ''c'' @ ''OK'' @ newline @ newline"
  by code_simp

theorem report_is_true_witness:
  "true_report (run_named demo_server counting no_replace demo_mappers two_cases []) demo_mappers two_cases [''a'', ''c''] (demo_state (demo_instruction 1)) []
     (executeAll_set demo_server counting no_replace demo_mappers two_cases ''g'' [] ([], demo_state (demo_instruction 1)))"
proof -
  let ?s = "demo_state (demo_instruction 1)"
  have "rawCaseSets two_cases = Some [(''g'', [(''a'', Str ''http''), (''c'', Str ''http'')])] \<and>
      map_of [(''g'', [(''a'', Str ''http''), (''c'', Str ''http'')])] ''g'' = Some [(''a'', Str ''http''), (''c'', Str ''http'')]"
    by (simp add: two_cases_def)
  then show ?thesis
    using report_is_true [of demo_server counting no_replace demo_mappers two_cases "[]" ?s
      "[(''g'', [(''a'', Str ''http''), (''c'', Str ''http'')])]" "''g''" "[(''a'', Str ''http''), (''c'', Str ''http'')]"] by simp
qed

text \<open>The case after one that throws is never run, and nothing says what went wrong.\<close>

lemma report_breaks_off:
  "fst (snd (executeAll demo_server counting no_replace demo_mappers two_cases [] ([], demo_state (demo_instruction 1)))) =
     heading ''a'' @ ''OK'' @ newline @ newline @ heading ''b''"
  by code_simp

section \<open>Cases in an address\<close>


definition demo_yaml :: "string \<Rightarrow> java_error + RequestCase" where
  "demo_yaml y = (if y = ''by: http'' then read_case demo_mappers (Str ''http'') else Inl NullPointer)"


text \<open>
  The blanks matter: the lines of a YAML text may be indented all alike. Such a text is run
  by \<open>/y\<close>, but without the blanks of its first line it is no YAML, so by its address it is not.
\<close>

definition indented_case :: string where
  "indented_case = ''  by: http'' @ newline @ ''  call: b''"

definition indented_yaml :: "string \<Rightarrow> java_error + RequestCase" where
  "indented_yaml y = (if y = indented_case then read_case demo_mappers (Str ''http'') else Inl (LibraryFailure ''YAMLException''))"

lemma blanks_lost_in_address:
  "fst (yCase demo_server counting no_replace no_resources indented_yaml indented_case [] False (demo_state (demo_instruction 1))) =
     Inr (JStr ''a -> v1'') \<and>
   fst (yCase demo_server counting no_replace no_resources indented_yaml (jtrim indented_case) [] False (demo_state (demo_instruction 1))) =
     Inl (LibraryFailure ''YAMLException'')"
  by code_simp

end
