(* ===== verification/JsonPatch.thy ===== *)
theory JsonPatch
  imports JavaBase
begin

text \<open>
  JSON patches (RFC 6902), as far as the server uses them to leave out of an instruction what
  every instruction has by default: the operations, the locale \<open>json_patch\<close> with what is relied
  on of the library that compares two documents and applies the difference, and an instance.
\<close>

section \<open>Operations\<close>

text \<open>Paths are lists of member names and positions; copies and moves are switched off.\<close>

datatype patch_op =
    Add "string list" jobj
  | Remove "string list"
  | Replace "string list" jobj

fun beneath :: "string \<Rightarrow> patch_op \<Rightarrow> patch_op" where
  "beneath k (Add p v) = Add (k # p) v"
| "beneath k (Remove p) = Remove (k # p)"
| "beneath k (Replace p v) = Replace (k # p) v"

definition both_containers :: "jobj \<Rightarrow> jobj \<Rightarrow> bool" where
  "both_containers v w \<longleftrightarrow> (case (v, w) of (JMap _, JMap _) \<Rightarrow> True | (JList _, JList _) \<Rightarrow> True | _ \<Rightarrow> False)"

type_synonym json_diff = "jobj \<Rightarrow> jobj \<Rightarrow> patch_op list"
type_synonym json_apply = "patch_op list \<Rightarrow> jobj \<Rightarrow> java_error + jobj"

section \<open>What is relied on\<close>

text \<open>The members of the second object that differ, with their new values.\<close>

definition changed_members :: "(string \<times> jobj) list \<Rightarrow> (string \<times> jobj) list \<Rightarrow> (string \<times> jobj) list" where
  "changed_members ps qs = concat (map (\<lambda>((k, v), (_, w)). if v = w then [] else [(k, w)]) (zip ps qs))"

lemma changed_keys: "map fst ps = map fst qs \<Longrightarrow> fst ` set (changed_members ps qs) \<subseteq> fst ` set ps"
  by (auto simp: changed_members_def split: if_splits) (force dest: set_zip_leftD)

lemma changed_Cons: "changed_members ((k, v) # ps) ((k', w) # qs) = (if v = w then [] else [(k, w)]) @ changed_members ps qs"
  by (simp add: changed_members_def)

lemma changed_distinct: "map fst ps = map fst qs \<Longrightarrow> distinct (map fst ps) \<Longrightarrow> distinct (map fst (changed_members ps qs))"
proof (induction ps qs rule: list_induct2')
  case (4 p ps q qs)
  obtain k v w where pq: "p = (k, v)" "q = (k, w)" using 4(2) by (cases p; cases q) auto
  have "map fst ps = map fst qs" using 4(2) by (simp add: pq)
  moreover have k: "k \<notin> fst ` set ps" "distinct (map fst ps)" using 4(3) by (auto simp: pq)
  ultimately have "k \<notin> fst ` set (changed_members ps qs)" "distinct (map fst (changed_members ps qs))" using changed_keys [of ps qs] 4(1) by blast+
  then show ?case by (simp add: pq changed_Cons)
qed (simp_all add: changed_members_def)

text \<open>
  Objects are compared member by member, values that are not both objects or both lists are
  replaced; operations are applied one after the other; a member may be replaced where there
  is none (the flag \<open>ALLOW_MISSING_TARGET_OBJECT_ON_REPLACE\<close>), but nothing can be added below
  one that is missing.
\<close>

locale json_patch =
  fixes difference :: json_diff and apply_patch :: json_apply
  assumes diff_same: "difference v v = []"
    and diff_members: "map fst ps = map fst qs \<Longrightarrow> distinct (map fst ps) \<Longrightarrow>
      difference (JMap ps) (JMap qs) = concat (map (\<lambda>((k, v), (_, w)). map (beneath k) (difference v w)) (zip ps qs))"
    and diff_value: "v \<noteq> w \<Longrightarrow> \<not> both_containers v w \<Longrightarrow> difference v w = [Replace [] w]"
    and diff_new: "difference (JMap []) (JMap qs) = map (\<lambda>(k, w). Add [k] w) qs"
    and apply_none: "apply_patch [] t = Inr t"
    and apply_first: "apply_patch (op # ops) t = rbind (apply_patch [op] t) (apply_patch ops)"
    and replace_member: "apply_patch [Replace [k] w] (JMap ps) = Inr (JMap (AList.update k w ps))"
    and add_missing: "k \<notin> fst ` set ps \<Longrightarrow> \<exists>e. apply_patch [Add (k # n # p) w] (JMap ps) = Inl e"
begin

text \<open>Plain members: the difference, applied to an empty object, gives the changed members.\<close>

lemma apply_replacements: "fst ` set ms \<inter> fst ` set ps = {} \<Longrightarrow> distinct (map fst ms) \<Longrightarrow>
    apply_patch (map (\<lambda>(k, w). Replace [k] w) ms @ ops) (JMap ps) = apply_patch ops (JMap (ps @ ms))"
proof (induction ms arbitrary: ps)
  case (Cons m ms)
  obtain k w where m: "m = (k, w)" by (cases m)
  from Cons.prems have "AList.update k w ps = ps @ [(k, w)]" using add_new [of "[(k, w)]" ps] by (simp add: m)
  moreover have "fst ` set ms \<inter> fst ` set (ps @ [(k, w)]) = {}" using Cons.prems by (auto simp: m)
  ultimately show ?case using Cons.IH [of "ps @ [(k, w)]"] Cons.prems(2)
    by (simp add: m apply_first [of "Replace [k] w" "map (\<lambda>(k, w). Replace [k] w) ms @ ops"] replace_member)
qed simp

lemma plain_differences:
  assumes "list_all (\<lambda>((k, v), (k', w)). k = k' \<and> (v = w \<or> \<not> both_containers v w)) (zip ps qs)"
  shows "concat (map (\<lambda>((k, v), (_, w)). map (beneath k) (difference v w)) (zip ps qs)) = map (\<lambda>(k, w). Replace [k] w) (changed_members ps qs)"
proof -
  have one: "map (beneath k) (difference v w) = (if v = w then [] else [Replace [k] w])" if "v = w \<or> \<not> both_containers v w" for k v w
    using that by (auto simp: diff_same diff_value)
  have "concat (map (\<lambda>((k, v), (_, w)). map (beneath k) (difference v w)) zs) =
      map (\<lambda>(k, w). Replace [k] w) (concat (map (\<lambda>((k, v), (_, w)). if v = w then [] else [(k, w)]) zs))"
    if "list_all (\<lambda>((k, v), (k', w)). k = k' \<and> (v = w \<or> \<not> both_containers v w)) zs" for zs
    using that by (induction zs) (auto simp: one)
  with assms show ?thesis by (simp add: changed_members_def)
qed

lemma simplified_plain:
  assumes "map fst ps = map fst qs" and "distinct (map fst ps)"
    and "list_all (\<lambda>((k, v), (k', w)). k = k' \<and> (v = w \<or> \<not> both_containers v w)) (zip ps qs)"
  shows "apply_patch (difference (JMap ps) (JMap qs)) (JMap []) = Inr (JMap (changed_members ps qs))"
  using apply_replacements [of "changed_members ps qs" "[]" "[]"] changed_distinct [OF assms(1,2)]
  by (simp add: diff_members [OF assms(1,2)] plain_differences [OF assms(3)] apply_none)

lemma apply_stops: "apply_patch [op] t = Inl e \<Longrightarrow> apply_patch (op # ops) t = Inl e"
  by (subst apply_first) simp

text \<open>A member that is an object in both, empty in the first only, cannot be left out.\<close>

lemma simplified_stuck:
  assumes "map fst ps = map fst qs" and "distinct (map fst ps @ [k])" and "q \<noteq> []"
    and "list_all (\<lambda>((k, v), (k', w)). k = k' \<and> (v = w \<or> \<not> both_containers v w)) (zip ps qs)"
  shows "\<exists>e. apply_patch (difference (JMap (ps @ [(k, JMap [])])) (JMap (qs @ [(k, JMap q)]))) (JMap []) = Inl e"
proof -
  obtain n w rest where q: "q = (n, w) # rest" using assms(3) by (cases q) auto
  let ?beneath = "\<lambda>((k, v), (_, w)). map (beneath k) (difference v w)"
  have l: "length ps = length qs" using assms(1) by (metis length_map)
  have "difference (JMap (ps @ [(k, JMap [])])) (JMap (qs @ [(k, JMap q)])) = concat (map ?beneath (zip (ps @ [(k, JMap [])]) (qs @ [(k, JMap q)])))"
    by (rule diff_members) (simp_all only: map_append assms(1) list.map fst_conv, use assms(1,2) in simp)
  also have "\<dots> = concat (map ?beneath (zip ps qs)) @ map (beneath k) (difference (JMap []) (JMap q))" using l by simp
  also have "\<dots> = map (\<lambda>(k, w). Replace [k] w) (changed_members ps qs) @ Add [k, n] w # map (beneath k) (map (\<lambda>(k, w). Add [k] w) rest)"
    unfolding plain_differences [OF assms(4)] diff_new q by simp
  finally have d: "difference (JMap (ps @ [(k, JMap [])])) (JMap (qs @ [(k, JMap q)])) =
      map (\<lambda>(k, w). Replace [k] w) (changed_members ps qs) @ Add [k, n] w # map (beneath k) (map (\<lambda>(k, w). Add [k] w) rest)" .
  have r: "apply_patch (map (\<lambda>(k, w). Replace [k] w) (changed_members ps qs) @ ops) (JMap []) = apply_patch ops (JMap (changed_members ps qs))" for ops
    using apply_replacements [of "changed_members ps qs" "[]" ops] changed_distinct [OF assms(1)] assms(2) by simp
  have "k \<notin> fst ` set (changed_members ps qs)" using changed_keys [OF assms(1)] assms(2) by auto
  then obtain e where "apply_patch [Add [k, n] w] (JMap (changed_members ps qs)) = Inl e" using add_missing by blast
  from apply_stops [OF this] show ?thesis unfolding d r by blast
qed

end

section \<open>RFC 6902\<close>

text \<open>Differences of objects by member; lists are replaced as a whole.\<close>

lemma member_smaller: "(k, v) \<in> set ps \<Longrightarrow> size v < size (JMap ps)"
  by (induction ps) auto

function struct_diff :: json_diff where
  "struct_diff v w = (if v = w then [] else case v of
      JMap ps \<Rightarrow> (case w of
          JMap qs \<Rightarrow> concat (map (\<lambda>(k, v'). case map_of qs k of None \<Rightarrow> [Remove [k]] | Some w' \<Rightarrow> map (beneath k) (struct_diff v' w')) ps) @
            map (\<lambda>(k, w'). Add [k] w') (filter (\<lambda>(k, _). k \<notin> fst ` set ps) qs)
        | _ \<Rightarrow> [Replace [] w])
    | _ \<Rightarrow> [Replace [] w])"
  by pat_completeness auto
termination
  by (relation "measure (\<lambda>(v, w). size v)") (auto dest: member_smaller)

declare struct_diff.simps [simp del]

definition no_such_path :: "string \<Rightarrow> java_error + 'a" where
  "no_such_path t = Inl (LibraryFailure (''Missing field '' @ t))"

text \<open>A position in a list with at least that many elements.\<close>

definition list_position :: "nat \<Rightarrow> string \<Rightarrow> java_error + nat" where
  "list_position len t = (if canonical t \<and> nat_val t < len then Inr (nat_val t) else no_such_path t)"

text \<open>The last step of a path, on the object or list that is there.\<close>

definition edit_member :: "patch_op \<Rightarrow> string \<Rightarrow> (string \<times> jobj) list \<Rightarrow> java_error + jobj" where
  "edit_member op t ps = (case op of
      Add _ w \<Rightarrow> Inr (JMap (AList.update t w ps))
    | Replace _ w \<Rightarrow> Inr (JMap (AList.update t w ps))
    | Remove _ \<Rightarrow> if t \<in> fst ` set ps then Inr (JMap (AList.delete t ps)) else no_such_path t)"

definition edit_element :: "patch_op \<Rightarrow> string \<Rightarrow> jobj list \<Rightarrow> java_error + jobj" where
  "edit_element op t vs = (case op of
      Add _ w \<Rightarrow> if t = ''-'' then Inr (JList (vs @ [w]))
        else rbind (list_position (Suc (length vs)) t) (\<lambda>n. Inr (JList (take n vs @ w # drop n vs)))
    | Replace _ w \<Rightarrow> rbind (list_position (length vs) t) (\<lambda>n. Inr (JList (vs[n := w])))
    | Remove _ \<Rightarrow> rbind (list_position (length vs) t) (\<lambda>n. Inr (JList (take n vs @ drop (Suc n) vs))))"

fun edit_at :: "patch_op \<Rightarrow> string list \<Rightarrow> jobj \<Rightarrow> java_error + jobj" where
  "edit_at op [] v = (case op of Remove _ \<Rightarrow> no_such_path [] | Add _ w \<Rightarrow> Inr w | Replace _ w \<Rightarrow> Inr w)"
| "edit_at op [t] (JMap ps) = edit_member op t ps"
| "edit_at op [t] (JList vs) = edit_element op t vs"
| "edit_at op (t # u # p) (JMap ps) = (case map_of ps t of
      None \<Rightarrow> no_such_path t
    | Some v \<Rightarrow> rbind (edit_at op (u # p) v) (\<lambda>v'. Inr (JMap (AList.update t v' ps))))"
| "edit_at op (t # u # p) (JList vs) = rbind (list_position (length vs) t) (\<lambda>n.
     rbind (edit_at op (u # p) (vs ! n)) (\<lambda>v'. Inr (JList (vs[n := v']))))"
| "edit_at op (t # p) v = no_such_path t"

definition path_of :: "patch_op \<Rightarrow> string list" where
  "path_of op = (case op of Add p _ \<Rightarrow> p | Remove p \<Rightarrow> p | Replace p _ \<Rightarrow> p)"

definition struct_apply :: json_apply where
  "struct_apply ops v = fold (\<lambda>op r. rbind r (edit_at op (path_of op))) ops (Inr v)"

lemma struct_apply_error: "fold (\<lambda>op r. rbind r (edit_at op (path_of op))) ops (Inl e) = Inl e"
  by (induction ops) simp_all

interpretation rfc6902: json_patch struct_diff struct_apply
proof
  show "struct_diff v v = []" for v by (simp add: struct_diff.simps)
  show "struct_diff v w = [Replace [] w]" if "v \<noteq> w" "\<not> both_containers v w" for v w
    using that by (cases v; cases w) (simp_all add: struct_diff.simps both_containers_def)
  show "struct_diff (JMap []) (JMap qs) = map (\<lambda>(k, w). Add [k] w) qs" for qs by (simp add: struct_diff.simps)
  show "struct_apply [] t = Inr t" for t by (simp add: struct_apply_def)
  show "struct_apply (op # ops) t = rbind (struct_apply [op] t) (struct_apply ops)" for op ops t
    by (cases "edit_at op (path_of op) t") (simp_all add: struct_apply_def struct_apply_error)
  show "struct_apply [Replace [k] w] (JMap ps) = Inr (JMap (AList.update k w ps))" for k w ps
    by (simp add: struct_apply_def path_of_def edit_member_def)
  show "\<exists>e. struct_apply [Add (k # n # p) w] (JMap ps) = Inl e" if "k \<notin> fst ` set ps" for k n p w ps
    using that by (simp add: struct_apply_def path_of_def no_such_path_def map_of_eq_None_iff [symmetric])
  show "struct_diff (JMap ps) (JMap qs) = concat (map (\<lambda>((k, v), (_, w)). map (beneath k) (struct_diff v w)) (zip ps qs))"
    if keys: "map fst ps = map fst qs" and d: "distinct (map fst ps)" for ps qs
  proof -
    have l: "length ps = length qs" using keys by (metis length_map)
    let ?one = "\<lambda>(k, v'). case map_of qs k of None \<Rightarrow> [Remove [k]] | Some w' \<Rightarrow> map (beneath k) (struct_diff v' w')"
    have one: "map ?one ps = map (\<lambda>((k, v), (_, w)). map (beneath k) (struct_diff v w)) (zip ps qs)"
    proof (rule nth_equalityI)
      fix n
      assume n: "n < length (map ?one ps)"
      then have n': "n < length ps" "n < length qs" using l by simp_all
      have "map fst ps ! n = map fst qs ! n" using keys by simp
      then have k: "fst (ps ! n) = fst (qs ! n)" using n' by simp
      have "map_of qs (fst (qs ! n)) = Some (snd (qs ! n))" using n'(2) d keys by simp
      then show "map ?one ps ! n = map (\<lambda>((k, v), (_, w)). map (beneath k) (struct_diff v w)) (zip ps qs) ! n"
        using n' k by (simp add: split_beta)
    qed (simp add: l)
    have all: "filter (\<lambda>(k, _). k \<notin> fst ` set ps) qs = []"
    proof -
      have "fst ` set ps = fst ` set qs" using keys by (metis set_map)
      then show ?thesis by (force simp: filter_empty_conv)
    qed
    show ?thesis
    proof (cases "ps = qs")
      case True
      have "map (\<lambda>((k, v), (_, w)). map (beneath k) (struct_diff v w)) (zip qs qs) = map (\<lambda>_. []) (zip qs qs)"
        by (auto simp: zip_same_conv_map struct_diff.simps)
      then show ?thesis using True by (simp add: struct_diff.simps)
    next
      case False
      then show ?thesis by (subst struct_diff.simps) (simp only: one all if_False jobj.simps list.map append_Nil2 jobj.case)
    qed
  qed
qed

end
