(* ===== verification/JavaJson.thy ===== *)
theory JavaJson
  imports JavaBase
begin

text \<open>
  JSON texts of the server's objects, as an instance of what Jackson writes and reads: strings
  with the escapes of \<^verbatim>\<open>JsonText\<close>, numbers as they are, no blanks. The parser's fuel is the length of
  the text plus one.
\<close>

section \<open>Writing\<close>

definition number_char :: "char \<Rightarrow> bool" where
  "number_char c \<longleftrightarrow> is_digit c \<or> c \<in> set ''+-.eE''"

text \<open>
  The texts of integers and of doubles between a thousandth and ten million (and zero) with at
  most fifteen digits, as \<open>Integer.toString\<close> and \<open>Double.toString\<close> write them: a number read from
  such a text is written as that text again.
\<close>

definition without_sign :: "string \<Rightarrow> string" where
  "without_sign t = (if take 1 t = ''-'' then tl t else t)"

definition digits_only_text :: "string \<Rightarrow> bool" where
  "digits_only_text t \<longleftrightarrow> t \<noteq> [] \<and> list_all is_digit t"

definition int_text :: "string \<Rightarrow> bool" where
  "int_text t \<longleftrightarrow> digits_only_text (without_sign t) \<and> (hd (without_sign t) = CHR ''0'' \<longrightarrow> t = ''0'')"

definition double_text :: "string \<Rightarrow> bool" where
  "double_text t \<longleftrightarrow>
     (let whole = takeWhile (\<lambda>c. c \<noteq> CHR ''.'') (without_sign t); part = drop 1 (dropWhile (\<lambda>c. c \<noteq> CHR ''.'') (without_sign t))
      in digits_only_text whole \<and> digits_only_text part \<and> length whole \<le> 7 \<and> length whole + length part \<le> 15 \<and>
         (hd whole = CHR ''0'' \<longrightarrow> whole = ''0'') \<and> (last part = CHR ''0'' \<longrightarrow> part = ''0'') \<and>
         (whole = ''0'' \<longrightarrow> take 3 part \<noteq> ''000''))"

definition number_text :: "string \<Rightarrow> bool" where
  "number_text t \<longleftrightarrow> int_text t \<or> double_text t"

lemma number_text_chars:
  assumes "number_text t"
  shows "t \<noteq> []" and "list_all number_char t"
proof -
  have d: "list_all number_char u" if "list_all is_digit u" for u using that by (auto simp: list_all_iff number_char_def)
  have "without_sign t \<noteq> [] \<and> list_all number_char (without_sign t)" using assms unfolding number_text_def
  proof
    assume "int_text t"
    then show ?thesis using d by (auto simp: int_text_def digits_only_text_def)
  next
    assume "double_text t"
    then have w: "takeWhile (\<lambda>c. c \<noteq> CHR ''.'') (without_sign t) \<noteq> []" "list_all number_char (takeWhile (\<lambda>c. c \<noteq> CHR ''.'') (without_sign t))"
      and p: "list_all number_char (drop 1 (dropWhile (\<lambda>c. c \<noteq> CHR ''.'') (without_sign t)))"
      using d by (auto simp: double_text_def digits_only_text_def Let_def)
    have "dropWhile (\<lambda>c. c \<noteq> CHR ''.'') (without_sign t) = [] \<or>
        dropWhile (\<lambda>c. c \<noteq> CHR ''.'') (without_sign t) = CHR ''.'' # drop 1 (dropWhile (\<lambda>c. c \<noteq> CHR ''.'') (without_sign t))"
      using hd_dropWhile [of "\<lambda>c. c \<noteq> CHR ''.''" "without_sign t"] by (cases "dropWhile (\<lambda>c. c \<noteq> CHR ''.'') (without_sign t)") auto
    then have "list_all number_char (dropWhile (\<lambda>c. c \<noteq> CHR ''.'') (without_sign t))"
    proof
      assume "dropWhile (\<lambda>c. c \<noteq> CHR ''.'') (without_sign t) = CHR ''.'' # drop 1 (dropWhile (\<lambda>c. c \<noteq> CHR ''.'') (without_sign t))"
      then show ?thesis using p by (metis list.pred_inject(2) number_char_def list.set_intros(1) list.set_intros(2))
    qed (simp only: list.pred_inject)
    then show ?thesis using w takeWhile_dropWhile_id [of "\<lambda>c. c \<noteq> CHR ''.''" "without_sign t"] by (metis list_all_append append_is_Nil_conv)
  qed
  then show "t \<noteq> []" "list_all number_char t"
    by (cases t; auto simp: without_sign_def number_char_def split: if_splits)+
qed

text \<open>Trees that are written and read back as they are: objects have each name once.\<close>

fun writable_tree :: "jobj \<Rightarrow> bool" where
  "writable_tree (JNum t) \<longleftrightarrow> number_text t"
| "writable_tree (JList vs) \<longleftrightarrow> list_all writable_tree vs"
| "writable_tree (JMap ps) \<longleftrightarrow> distinct (map fst ps) \<and> list_all (\<lambda>(k, v). writable_tree v) ps"
| "writable_tree v \<longleftrightarrow> True"

fun write_tree :: "jobj \<Rightarrow> string" and write_elements :: "jobj list \<Rightarrow> string" and write_members :: "(string \<times> jobj) list \<Rightarrow> string" where
  "write_tree JNull = ''null''"
| "write_tree (JStr s) = json_quote s"
| "write_tree (JNum t) = t"
| "write_tree (JBool b) = (if b then ''true'' else ''false'')"
| "write_tree (JList vs) = CHR ''['' # write_elements vs"
| "write_tree (JMap ps) = CHR ''{'' # write_members ps"
| "write_elements [] = '']''"
| "write_elements [v] = write_tree v @ '']''"
| "write_elements (v # w # vs) = write_tree v @ CHR '','' # write_elements (w # vs)"
| "write_members [] = ''}''"
| "write_members [(k, v)] = json_quote k @ CHR '':'' # write_tree v @ ''}''"
| "write_members ((k, v) # p # ps) = json_quote k @ CHR '':'' # write_tree v @ CHR '','' # write_members (p # ps)"

section \<open>Reading\<close>

definition bad_json :: "java_error + 'a" where
  "bad_json = Inl (LibraryFailure ''JsonParseException'')"

definition read_string :: "string \<Rightarrow> java_error + string \<times> string" where
  "read_string s = (case s of
      c # t \<Rightarrow> if c = dquote then (case parse_str t of Inr r \<Rightarrow> Inr r | Inl _ \<Rightarrow> bad_json) else bad_json
    | [] \<Rightarrow> bad_json)"

definition read_word :: "string \<Rightarrow> java_error + jobj \<times> string" where
  "read_word s = (case strip_prefix ''null'' s of Some r \<Rightarrow> Inr (JNull, r) | None \<Rightarrow>
     (case strip_prefix ''true'' s of Some r \<Rightarrow> Inr (JBool True, r) | None \<Rightarrow>
     (case strip_prefix ''false'' s of Some r \<Rightarrow> Inr (JBool False, r) | None \<Rightarrow> bad_json)))"

fun tree_of :: "nat \<Rightarrow> string \<Rightarrow> java_error + jobj \<times> string"
  and elements_of :: "nat \<Rightarrow> string \<Rightarrow> java_error + jobj list \<times> string"
  and members_of :: "nat \<Rightarrow> string \<Rightarrow> java_error + (string \<times> jobj) list \<times> string" where
  "tree_of 0 s = bad_json"
| "tree_of (Suc n) s = (case s of
      [] \<Rightarrow> bad_json
    | c # t \<Rightarrow>
        if c = dquote then rbind (read_string s) (\<lambda>(x, r). Inr (JStr x, r))
        else if c = CHR ''['' then (if take 1 t = '']'' then Inr (JList [], tl t) else rbind (elements_of n t) (\<lambda>(vs, r). Inr (JList vs, r)))
        else if c = CHR ''{'' then (if take 1 t = ''}'' then Inr (JMap [], tl t) else rbind (members_of n t) (\<lambda>(ps, r). Inr (JMap ps, r)))
        else if number_char c then Inr (JNum (takeWhile number_char s), dropWhile number_char s)
        else read_word s)"
| "elements_of 0 s = bad_json"
| "elements_of (Suc n) s = rbind (tree_of n s) (\<lambda>(v, r). case r of
      c # t \<Rightarrow> if c = CHR '','' then rbind (elements_of n t) (\<lambda>(vs, r'). Inr (v # vs, r'))
        else if c = CHR '']'' then Inr ([v], t) else bad_json
    | [] \<Rightarrow> bad_json)"
| "members_of 0 s = bad_json"
| "members_of (Suc n) s = rbind (read_string s) (\<lambda>(k, r). case r of
      [] \<Rightarrow> bad_json
    | c # t \<Rightarrow> if c \<noteq> CHR '':'' then bad_json else rbind (tree_of n t) (\<lambda>(v, r'). case r' of
          d # u \<Rightarrow> if d = CHR '','' then rbind (members_of n u) (\<lambda>(ps, r''). Inr ((k, v) # ps, r''))
            else if d = CHR ''}'' then Inr ([(k, v)], u) else bad_json
        | [] \<Rightarrow> bad_json))"

definition read_tree :: "string \<Rightarrow> java_error + jobj" where
  "read_tree s = rbind (tree_of (Suc (length s)) s) (\<lambda>(v, r). if r = [] then Inr v else bad_json)"

section \<open>What is written is read\<close>

definition tree_end :: "string \<Rightarrow> bool" where
  "tree_end r \<longleftrightarrow> (case r of [] \<Rightarrow> True | c # _ \<Rightarrow> \<not> number_char c)"

lemma tree_end_simps [simp]: "tree_end []" "tree_end (CHR '','' # r)" "tree_end (CHR '']'' # r)" "tree_end (CHR ''}'' # r)"
  by (simp_all add: tree_end_def number_char_def is_digit_def)

lemma number_read:
  assumes "number_text t" and "tree_end r"
  shows "takeWhile number_char (t @ r) = t" and "dropWhile number_char (t @ r) = r"
  using number_text_chars [OF assms(1)] assms(2) by (cases r; auto simp: tree_end_def list_all_iff)+

lemma number_start: "number_char c \<Longrightarrow> c \<noteq> dquote \<and> c \<noteq> CHR ''['' \<and> c \<noteq> CHR ''{'' \<and> c \<noteq> CHR '']''"
  by (auto simp: number_char_def is_digit_def dquote_def)

lemma number_head: "number_text t \<Longrightarrow> \<exists>c u. t = c # u \<and> number_char c"
  using number_text_chars [of t] by (cases t) auto

lemma write_tree_head: "writable_tree v \<Longrightarrow> \<exists>c t. write_tree v = c # t \<and> c \<noteq> CHR '']''"
  by (cases v) (auto simp: json_quote_def dquote_def dest: number_start dest!: number_head)

lemma read_string_quote: "read_string (json_quote k @ r) = Inr (k, r)"
  by (simp add: read_string_def json_quote_def parse_str_quoted)

text \<open>A value, an element or a member needs no more fuel than it has characters.\<close>

lemma read_written:
  "writable_tree v \<Longrightarrow> length (write_tree v) < n \<Longrightarrow> tree_end r \<Longrightarrow> tree_of n (write_tree v @ r) = Inr (v, r)"
  "list_all writable_tree vs \<Longrightarrow> vs \<noteq> [] \<Longrightarrow> length (write_elements vs) < n \<Longrightarrow> elements_of n (write_elements vs @ r) = Inr (vs, r)"
  "list_all (\<lambda>(k, v). writable_tree v) ps \<Longrightarrow> ps \<noteq> [] \<Longrightarrow> length (write_members ps) < n \<Longrightarrow> members_of n (write_members ps @ r) = Inr (ps, r)"
proof (induction v and vs and ps arbitrary: n r and n r and n r rule: write_tree_write_elements_write_members.induct)
  case 1
  then show ?case by (cases n) (simp_all add: dquote_def number_char_def is_digit_def read_word_def)
next
  case (2 s)
  then show ?case using read_string_quote [of s r] by (cases n) (simp_all add: json_quote_def)
next
  case (3 t)
  then obtain c u where t: "t = c # u" "number_char c" using number_head [of t] by auto
  with 3 show ?case using number_start [OF t(2)] number_read [of t r] by (cases n) simp_all
next
  case (4 b)
  then show ?case by (cases n) (auto simp: dquote_def number_char_def is_digit_def read_word_def)
next
  case (5 vs)
  then obtain m where n: "n = Suc m" by (cases n) auto
  show ?case
  proof (cases vs)
    case (Cons v ws)
    obtain c t where "write_tree v = c # t" "c \<noteq> CHR '']''" using write_tree_head [of v] 5(2) Cons by auto
    then have "take 1 (write_elements vs @ r) \<noteq> '']''" using Cons by (cases ws) simp_all
    with 5 n Cons show ?thesis by (simp add: dquote_def del: write_elements.simps)
  qed (simp add: n dquote_def)
next
  case (6 ps)
  then obtain m where n: "n = Suc m" by (cases n) auto
  show ?case
  proof (cases ps)
    case (Cons p qs)
    obtain k v where p: "p = (k, v)" by (cases p)
    have "take 1 (write_members ps @ r) \<noteq> ''}''" using Cons p by (cases qs) (simp_all add: json_quote_def dquote_def)
    with 6 n Cons show ?thesis by (simp add: dquote_def del: write_members.simps)
  qed (simp add: n dquote_def)
next
  case (8 v)
  then obtain m where n: "n = Suc m" by (cases n) auto
  with 8 show ?case by simp
next
  case (9 v w vs)
  then obtain m where n: "n = Suc m" by (cases n) auto
  with 9 show ?case by (simp del: write_elements.simps(3) add: write_elements.simps(3) [of v])
next
  case (11 k v)
  then obtain m where n: "n = Suc m" by (cases n) auto
  with 11 show ?case using read_string_quote [of k] by simp
next
  case (12 k v p ps)
  then obtain m where n: "n = Suc m" by (cases n) auto
  with 12 show ?case using read_string_quote [of k] by simp
qed simp_all

lemma read_write_tree: "writable_tree v \<Longrightarrow> read_tree (write_tree v) = Inr v"
  using read_written(1) [of v "Suc (length (write_tree v))" "[]"] by (simp add: read_tree_def)

lemma write_members_last: "write_members ps \<noteq> [] \<and> last (write_members ps) = CHR ''}''"
  by (induction ps rule: induct_list012) (auto split: prod.split)

end
