(* ===== verification/SimplifiedJava.thy ===== *)
theory SimplifiedJava
  imports PowerfulServiceJava UrlBase64Java JsonPatch JavaJson
begin

text \<open>
  Instructions as JSON: the properties of \<open>Instruction\<close> and \<open>PowerTraceNode\<close> as Jackson writes and
  reads them, \<open>PowerfulService.getSimplifiedNode\<close>, which leaves out what a new object has
  anyway, and the instruction in an address that \<open>HttpController\<close> reads. What Jackson makes of
  a value of another kind than a property has is an argument (\<open>coerced\<close>), as are its texts and
  the library for patches.
\<close>

section \<open>Writing\<close>

definition text_tree :: "string option \<Rightarrow> jobj" where
  "text_tree t = (case t of Some s \<Rightarrow> JStr s | None \<Rightarrow> JNull)"

definition int_tree :: "int option \<Rightarrow> jobj" where
  "int_tree n = (case n of Some i \<Rightarrow> JNum (int_str i) | None \<Rightarrow> JNull)"

definition map_tree :: "(string \<times> string) list option \<Rightarrow> jobj" where
  "map_tree m = (case m of Some ps \<Rightarrow> JMap (map (\<lambda>(k, v). (k, JStr v)) ps) | None \<Rightarrow> JNull)"

definition node_members :: "PowerTraceNode \<Rightarrow> (string \<times> jobj) list" where
  "node_members n = [(''call'', text_tree (node_call n)), (''by'', JStr (node_by n)), (''method'', JStr (node_method n)),
     (''code'', int_tree (Some (node_code n))), (''headers'', map_tree (node_headers n)),
     (''responseHeaders'', map_tree (Some (node_responseHeaders n))), (''queries'', map_tree (Some (node_queries n))),
     (''callTestMethod'', int_tree (node_callTestMethod n)), (''delay'', JNum (node_delay n)),
     (''errorByPercent'', int_tree (node_errorByPercent n))]"

text \<open>The trace apart, which \<open>getSimplifiedNode\<close> takes out.\<close>

definition instruction_members :: "jobj \<Rightarrow> Instruction \<Rightarrow> (string \<times> jobj) list" where
  "instruction_members trace i = [(''trace'', trace), (''times'', int_tree (Some (inst_times i))), (''threads'', int_tree (Some (inst_threads i))),
     (''qps'', int_tree (Some (inst_qps i))), (''propagateHeaders'', text_tree (inst_propagateHeaders i)),
     (''collectBy'', JStr (inst_collectBy i)), (''traceNodeTmpl'', JStr (inst_traceNodeTmpl i)), (''log'', JBool (inst_log i)),
     (''rr'', JMap (map (\<lambda>(k, vs). (k, JList vs)) (inst_rr i)))]"

definition trace_tree :: "PowerTraceNode list \<Rightarrow> jobj" where
  "trace_tree ns = JList (map (\<lambda>n. JMap (node_members n)) ns)"

section \<open>Reading\<close>

text \<open>A server's defaults, which system properties may set.\<close>

record defaults =
  defaultCollectBy :: string
  defaultTmpl :: string

definition new_instruction :: "defaults \<Rightarrow> Instruction" where
  "new_instruction d = \<lparr>inst_trace = [], inst_times = 1, inst_threads = 1, inst_qps = 0, inst_propagateHeaders = Some [],
     inst_collectBy = defaultCollectBy d, inst_traceNodeTmpl = defaultTmpl d, inst_log = True, inst_rr = []\<rparr>"

record coercions =
  coerced_text :: "jobj \<Rightarrow> java_error + string"
  coerced_int :: "jobj \<Rightarrow> java_error + int"
  coerced_number :: "jobj \<Rightarrow> java_error + string"
  coerced_bool :: "jobj \<Rightarrow> java_error + bool"
  coerced_list :: "jobj \<Rightarrow> java_error + jobj list"
  coerced_map :: "jobj \<Rightarrow> java_error + (string \<times> jobj) list"

definition read_text :: "coercions \<Rightarrow> jobj \<Rightarrow> java_error + string" where
  "read_text co v = (case v of JStr s \<Rightarrow> Inr s | _ \<Rightarrow> coerced_text co v)"

definition read_integer :: "coercions \<Rightarrow> jobj \<Rightarrow> java_error + int" where
  "read_integer co v = (case v of JNum t \<Rightarrow> (if signed_digits t = None then coerced_int co v else parseInt t) | _ \<Rightarrow> coerced_int co v)"

definition read_number :: "coercions \<Rightarrow> jobj \<Rightarrow> java_error + string" where
  "read_number co v = (case v of JNum t \<Rightarrow> Inr t | _ \<Rightarrow> coerced_number co v)"

definition read_bool :: "coercions \<Rightarrow> jobj \<Rightarrow> java_error + bool" where
  "read_bool co v = (case v of JBool b \<Rightarrow> Inr b | _ \<Rightarrow> coerced_bool co v)"

definition read_elements :: "coercions \<Rightarrow> jobj \<Rightarrow> java_error + jobj list" where
  "read_elements co v = (case v of JList vs \<Rightarrow> Inr vs | _ \<Rightarrow> coerced_list co v)"

definition read_object :: "coercions \<Rightarrow> jobj \<Rightarrow> java_error + (string \<times> jobj) list" where
  "read_object co v = (case v of JMap ps \<Rightarrow> Inr ps | _ \<Rightarrow> coerced_map co v)"

definition read_values :: "(jobj \<Rightarrow> java_error + 'a) \<Rightarrow> (string \<times> jobj) list \<Rightarrow> java_error + (string \<times> 'a) list" where
  "read_values f = rmap (\<lambda>(k, v). rbind (f v) (\<lambda>x. Inr (k, x)))"

definition or_null :: "(jobj \<Rightarrow> java_error + 'a) \<Rightarrow> jobj \<Rightarrow> java_error + 'a option" where
  "or_null f v = (if v = JNull then Inr None else rbind (f v) (\<lambda>x. Inr (Some x)))"

text \<open>A property keeps its default unless the object has a member for it.\<close>

definition bean_property :: "(string \<times> jobj) list \<Rightarrow> string \<Rightarrow> (jobj \<Rightarrow> java_error + 'a) \<Rightarrow> 'a \<Rightarrow> java_error + 'a" where
  "bean_property ps k f x = (case map_of ps k of Some v \<Rightarrow> f v | None \<Rightarrow> Inr x)"

definition known_names :: "bool \<Rightarrow> string list \<Rightarrow> (string \<times> jobj) list \<Rightarrow> java_error + unit" where
  "known_names strict names ps = (case filter (\<lambda>k. k \<notin> set names) (map fst ps) of
      [] \<Rightarrow> Inr ()
    | k # _ \<Rightarrow> if strict then Inl (LibraryFailure (''Unrecognized field '' @ k)) else Inr ())"

definition read_node :: "coercions \<Rightarrow> bool \<Rightarrow> jobj \<Rightarrow> java_error + PowerTraceNode" where
  "read_node co strict v =
     rbind (read_object co v) (\<lambda>ps.
     rbind (known_names strict (map fst (node_members new_node)) ps) (\<lambda>_.
     rbind (bean_property ps ''call'' (or_null (read_text co)) (node_call new_node)) (\<lambda>c.
     rbind (bean_property ps ''by'' (read_text co) (node_by new_node)) (\<lambda>b.
     rbind (bean_property ps ''method'' (read_text co) (node_method new_node)) (\<lambda>m.
     rbind (bean_property ps ''code'' (read_integer co) (node_code new_node)) (\<lambda>n.
     rbind (bean_property ps ''headers'' (or_null (\<lambda>v. rbind (read_object co v) (read_values (read_text co)))) (node_headers new_node)) (\<lambda>hs.
     rbind (bean_property ps ''responseHeaders'' (\<lambda>v. rbind (read_object co v) (read_values (read_text co))) (node_responseHeaders new_node)) (\<lambda>rs.
     rbind (bean_property ps ''queries'' (\<lambda>v. rbind (read_object co v) (read_values (read_text co))) (node_queries new_node)) (\<lambda>qs.
     rbind (bean_property ps ''callTestMethod'' (or_null (read_integer co)) (node_callTestMethod new_node)) (\<lambda>t.
     rbind (bean_property ps ''delay'' (read_number co) (node_delay new_node)) (\<lambda>d.
     rbind (bean_property ps ''errorByPercent'' (or_null (read_integer co)) (node_errorByPercent new_node)) (\<lambda>e.
     Inr \<lparr>node_call = c, node_by = b, node_method = m, node_code = n, node_headers = hs, node_responseHeaders = rs, node_queries = qs,
       node_callTestMethod = t, node_delay = d, node_errorByPercent = e\<rparr>))))))))))))"

definition read_instruction :: "coercions \<Rightarrow> bool \<Rightarrow> defaults \<Rightarrow> jobj \<Rightarrow> java_error + Instruction" where
  "read_instruction co strict d v = (let new = new_instruction d in
     rbind (read_object co v) (\<lambda>ps.
     rbind (known_names strict (map fst (instruction_members JNull new)) ps) (\<lambda>_.
     rbind (bean_property ps ''trace'' (\<lambda>v. rbind (read_elements co v) (rmap (read_node co strict))) (inst_trace new)) (\<lambda>ns.
     rbind (bean_property ps ''times'' (read_integer co) (inst_times new)) (\<lambda>t.
     rbind (bean_property ps ''threads'' (read_integer co) (inst_threads new)) (\<lambda>th.
     rbind (bean_property ps ''qps'' (read_integer co) (inst_qps new)) (\<lambda>q.
     rbind (bean_property ps ''propagateHeaders'' (or_null (read_text co)) (inst_propagateHeaders new)) (\<lambda>p.
     rbind (bean_property ps ''collectBy'' (read_text co) (inst_collectBy new)) (\<lambda>c.
     rbind (bean_property ps ''traceNodeTmpl'' (read_text co) (inst_traceNodeTmpl new)) (\<lambda>tm.
     rbind (bean_property ps ''log'' (read_bool co) (inst_log new)) (\<lambda>l.
     rbind (bean_property ps ''rr'' (\<lambda>v. rbind (read_object co v) (read_values (read_elements co))) (inst_rr new)) (\<lambda>r.
     Inr \<lparr>inst_trace = ns, inst_times = t, inst_threads = th, inst_qps = q, inst_propagateHeaders = p, inst_collectBy = c,
       inst_traceNodeTmpl = tm, inst_log = l, inst_rr = r\<rparr>))))))))))))"

section \<open>Leaving out defaults\<close>

definition simplify :: "json_diff \<Rightarrow> json_apply \<Rightarrow> jobj \<Rightarrow> jobj \<Rightarrow> java_error + jobj" where
  "simplify difference apply_patch base target = apply_patch (difference base target) (JMap [])"

text \<open>The new node a node is compared with: without the maps that are not empty in the node.\<close>

definition node_base :: "PowerTraceNode \<Rightarrow> (string \<times> string) list \<Rightarrow> (string \<times> jobj) list" where
  "node_base t hs =
     (let ps = node_members new_node;
          ps1 = (if node_queries t \<noteq> [] then AList.update ''queries'' JNull ps else ps);
          ps2 = (if hs \<noteq> [] then AList.update ''headers'' JNull ps1 else ps1)
      in if node_responseHeaders t \<noteq> [] then AList.update ''responseHeaders'' JNull ps2 else ps2)"

definition simplified_node :: "json_diff \<Rightarrow> json_apply \<Rightarrow> PowerTraceNode \<Rightarrow> java_error + jobj" where
  "simplified_node difference apply_patch t = (case node_headers t of
      None \<Rightarrow> Inl NullPointer
    | Some hs \<Rightarrow> simplify difference apply_patch (JMap (node_base t hs)) (JMap (node_members t)))"

definition put_member :: "string \<Rightarrow> jobj \<Rightarrow> jobj \<Rightarrow> jobj" where
  "put_member k v t = (case t of JMap ps \<Rightarrow> JMap (AList.update k v ps) | _ \<Rightarrow> t)"

text \<open>\<open>own\<close>: the further members of a \<open>RequestCase\<close>, from which an instruction is made first.\<close>

definition getSimplifiedNode ::
  "json_diff \<Rightarrow> json_apply \<Rightarrow> coercions \<Rightarrow> defaults \<Rightarrow> (string \<times> jobj) list option \<Rightarrow> Instruction \<Rightarrow> java_error + jobj" where
  "getSimplifiedNode difference apply_patch co d own i0 =
     rbind (case own of
         None \<Rightarrow> Inr i0
       | Some ms \<Rightarrow> read_instruction co False d (JMap (instruction_members (trace_tree (inst_trace i0)) i0 @ ms))) (\<lambda>i.
     rbind (rmap (simplified_node difference apply_patch) (inst_trace i)) (\<lambda>trace.
     rbind (simplify difference apply_patch (JMap (instruction_members JNull (new_instruction d))) (JMap (instruction_members JNull i))) (\<lambda>result.
     Inr (put_member ''trace'' (JList trace) result))))"

section \<open>In an address\<close>

definition address_body :: "(bytes \<Rightarrow> string) \<Rightarrow> (jobj \<Rightarrow> string) \<Rightarrow> jobj \<Rightarrow> string" where
  "address_body encode write v = encodeURLBase64 encode (write v)"

definition read_address ::
  "(string \<Rightarrow> java_error + bytes) \<Rightarrow> (bytes \<Rightarrow> string) \<Rightarrow> (string \<Rightarrow> java_error + jobj) \<Rightarrow> coercions \<Rightarrow> defaults \<Rightarrow> string \<Rightarrow> java_error + Instruction" where
  "read_address decode platform_text parse co d given =
     rbind (decodeURLBase64 decode platform_text given) (\<lambda>t. rbind (parse t) (read_instruction co True d))"

section \<open>What is written can be read\<close>

definition in_int_or_null :: "int option \<Rightarrow> bool" where
  "in_int_or_null t = (case t of Some i \<Rightarrow> in_int i | None \<Rightarrow> True)"

definition numbers_ok :: "PowerTraceNode \<Rightarrow> bool" where
  "numbers_ok n \<longleftrightarrow> in_int (node_code n) \<and> in_int_or_null (node_callTestMethod n) \<and> in_int_or_null (node_errorByPercent n) \<and>
     number_text (node_delay n)"

definition all_numbers_ok :: "Instruction \<Rightarrow> bool" where
  "all_numbers_ok i \<longleftrightarrow> in_int (inst_times i) \<and> in_int (inst_threads i) \<and> in_int (inst_qps i) \<and> list_all numbers_ok (inst_trace i)"

named_theorems reads \<open>the readers undo the writers\<close>

lemma nat_str_unsigned: "take 1 (nat_str n) \<noteq> ''-''" "take 1 (nat_str n) \<noteq> ''+''"
proof -
  obtain c cs where n: "nat_str n = c # cs" by (cases "nat_str n") simp_all
  then have "is_digit c" using nat_str_digits [of n] by simp
  then show "take 1 (nat_str n) \<noteq> ''-''" "take 1 (nat_str n) \<noteq> ''+''" by (auto simp: n is_digit_def)
qed

lemma signed_int_str: "signed_digits (int_str i) = Some i"
proof (cases "i < 0")
  case True
  then have "int_str i = CHR ''-'' # nat_str (nat (- i))" by (simp add: int_str_def)
  with True show ?thesis by (simp add: signed_digits_def)
next
  case False
  then have "int_str i = nat_str (nat i)" by (simp add: int_str_def)
  with False nat_str_unsigned [of "nat i"] show ?thesis by (simp add: signed_digits_def)
qed

lemma number_text_int: "number_text (int_str i)"
proof -
  have n: "nat_str k \<noteq> []" "list_all is_digit (nat_str k)" "hd (nat_str k) = CHR ''0'' \<Longrightarrow> k = 0" for k
    using hd_nat_str [of k] by auto
  have "nat_str 0 = ''0''" by code_simp
  then have "int_text (int_str i)"
    using n [of "nat i"] n [of "nat (- i)"] nat_str_unsigned [of "nat i"]
    by (cases "i < 0") (auto simp: int_text_def without_sign_def int_str_def digits_only_text_def)
  then show ?thesis by (simp add: number_text_def)
qed

lemma writable_trees [simp]: "writable_tree (text_tree t)" "writable_tree (int_tree n)"
    "writable_tree (map_tree m) = (case m of Some ps \<Rightarrow> distinct (map fst ps) | None \<Rightarrow> True)"
  by (auto simp: text_tree_def int_tree_def map_tree_def number_text_int list_all_iff comp_def case_prod_beta split: option.split)

lemma read_integer_str [reads]: "in_int i \<Longrightarrow> read_integer co (JNum (int_str i)) = Inr i"
  by (simp add: read_integer_def signed_int_str parseInt_def)

lemma read_text_JStr [reads]: "read_text co (JStr s) = Inr s"
  by (simp add: read_text_def)

lemma read_text_tree [reads]: "or_null (read_text co) (text_tree t) = Inr t"
  by (simp add: or_null_def text_tree_def reads split: option.split)

lemma read_int_tree [reads]: "in_int_or_null t \<Longrightarrow> or_null (read_integer co) (int_tree t) = Inr t"
  by (cases t) (simp_all add: or_null_def int_tree_def in_int_or_null_def reads)

lemma read_int_tree_Some [reads]: "in_int i \<Longrightarrow> read_integer co (int_tree (Some i)) = Inr i"
  by (simp add: int_tree_def reads)

lemma read_values_map: "(\<And>x. f (g x) = Inr x) \<Longrightarrow> read_values f (map (\<lambda>(k, x). (k, g x)) ps) = Inr ps"
  unfolding read_values_def by (induction ps) auto

lemma read_map_tree [reads]:
  "rbind (read_object co (map_tree (Some hs))) (read_values (read_text co)) = Inr hs"
  by (simp add: map_tree_def read_object_def read_values_map reads)

lemma read_map_or_null [reads]:
  "or_null (\<lambda>v. rbind (read_object co v) (read_values (read_text co))) (map_tree m) = Inr m"
  by (cases m) (simp_all add: or_null_def map_tree_def read_object_def read_values_map reads)

lemma read_number_JNum [reads]: "read_number co (JNum t) = Inr t"
  by (simp add: read_number_def)

lemma read_bool_JBool [reads]: "read_bool co (JBool b) = Inr b"
  by (simp add: read_bool_def)

lemma read_rr [reads]: "rbind (read_object co (JMap (map (\<lambda>(k, vs). (k, JList vs)) r))) (read_values (read_elements co)) = Inr r"
  by (simp add: read_object_def read_values_map read_elements_def)

text \<open>A member is as written, or left out because a new object is written the same way.\<close>

definition carries :: "(string \<times> jobj) list \<Rightarrow> (string \<times> jobj) list \<Rightarrow> (string \<times> jobj) list \<Rightarrow> string \<Rightarrow> bool" where
  "carries ps new ms k \<longleftrightarrow> map_of ps k = map_of ms k \<or> map_of ps k = None \<and> map_of new k = map_of ms k"

lemma property_carried:
  assumes "carries ps new ms k" and "map_of ms k = Some w" and "map_of new k = Some v" and "f w = Inr y" and "f v = Inr x"
  shows "bean_property ps k f x = Inr y"
  using assms by (auto simp: carries_def bean_property_def)

lemma known_names_ok: "strict \<longrightarrow> fst ` set ps \<subseteq> set names \<Longrightarrow> known_names strict names ps = Inr ()"
proof -
  assume a: "strict \<longrightarrow> fst ` set ps \<subseteq> set names"
  show ?thesis
  proof (cases strict)
    case True
    with a have "filter (\<lambda>k. k \<notin> set names) (map fst ps) = []" by (auto simp: filter_empty_conv)
    then show ?thesis by (simp add: known_names_def)
  qed (simp add: known_names_def split: list.split)
qed

lemma new_node_ok: "numbers_ok new_node"
  by (simp add: numbers_ok_def new_node_def in_int_def in_int_or_null_def number_text_def double_text_def without_sign_def digits_only_text_def is_digit_def)

lemma read_node_carried:
  assumes c: "\<And>k. carries ps (node_members new_node) (node_members n) k" and "numbers_ok n"
    and "strict \<longrightarrow> fst ` set ps \<subseteq> set (map fst (node_members new_node))"
  shows "read_node co strict (JMap ps) = Inr n"
proof -
  note carried = property_carried [OF c]
  have ok: "numbers_ok n" "numbers_ok new_node" using assms(2) new_node_ok by simp_all
  have "bean_property ps ''call'' (or_null (read_text co)) (node_call new_node) = Inr (node_call n)"
    "bean_property ps ''by'' (read_text co) (node_by new_node) = Inr (node_by n)"
    "bean_property ps ''method'' (read_text co) (node_method new_node) = Inr (node_method n)"
    "bean_property ps ''code'' (read_integer co) (node_code new_node) = Inr (node_code n)"
    "bean_property ps ''headers'' (or_null (\<lambda>v. rbind (read_object co v) (read_values (read_text co)))) (node_headers new_node) = Inr (node_headers n)"
    "bean_property ps ''responseHeaders'' (\<lambda>v. rbind (read_object co v) (read_values (read_text co))) (node_responseHeaders new_node) = Inr (node_responseHeaders n)"
    "bean_property ps ''queries'' (\<lambda>v. rbind (read_object co v) (read_values (read_text co))) (node_queries new_node) = Inr (node_queries n)"
    "bean_property ps ''callTestMethod'' (or_null (read_integer co)) (node_callTestMethod new_node) = Inr (node_callTestMethod n)"
    "bean_property ps ''delay'' (read_number co) (node_delay new_node) = Inr (node_delay n)"
    "bean_property ps ''errorByPercent'' (or_null (read_integer co)) (node_errorByPercent new_node) = Inr (node_errorByPercent n)"
    using ok by (auto intro!: carried simp: node_members_def reads numbers_ok_def)
  then show ?thesis by (simp add: read_node_def read_object_def known_names_ok [OF assms(3)])
qed

text \<open>The same for instructions; the two defaults a server may set are those of the reader.\<close>

definition redefault :: "(string \<times> jobj) list \<Rightarrow> defaults \<Rightarrow> Instruction \<Rightarrow> Instruction" where
  "redefault ps d i = i\<lparr>inst_collectBy := (if map_of ps ''collectBy'' = None then defaultCollectBy d else inst_collectBy i),
     inst_traceNodeTmpl := (if map_of ps ''traceNodeTmpl'' = None then defaultTmpl d else inst_traceNodeTmpl i)\<rparr>"

lemma text_property: "carries ps new ms k \<Longrightarrow> map_of ms k = Some (JStr s) \<Longrightarrow>
    bean_property ps k (read_text co) t = Inr (if map_of ps k = None then t else s)"
  by (auto simp: carries_def bean_property_def reads)

lemma read_instruction_carried:
  assumes c: "\<And>k. k \<in> set (tl (map fst (instruction_members JNull i))) \<Longrightarrow> carries ps (instruction_members JNull (new_instruction d)) (instruction_members JNull i) k"
    and t: "map_of ps ''trace'' = Some (JList ts)" "rmap (read_node co strict) ts = Inr (inst_trace i)" and ints: "all_numbers_ok i"
    and known: "strict \<longrightarrow> fst ` set ps \<subseteq> set (map fst (instruction_members JNull (new_instruction d')))"
  shows "read_instruction co strict d' (JMap ps) = Inr (redefault ps d' i)"
proof -
  note carried = property_carried [OF c]
  have ok: "in_int (inst_times i)" "in_int (inst_threads i)" "in_int (inst_qps i)" using ints by (simp_all add: all_numbers_ok_def)
  have new: "in_int (inst_times (new_instruction e))" "in_int (inst_threads (new_instruction e))" "in_int (inst_qps (new_instruction e))" for e
    by (simp_all add: new_instruction_def in_int_def)
  have same: "inst_times (new_instruction d') = inst_times (new_instruction d)" "inst_threads (new_instruction d') = inst_threads (new_instruction d)"
    "inst_qps (new_instruction d') = inst_qps (new_instruction d)" "inst_propagateHeaders (new_instruction d') = inst_propagateHeaders (new_instruction d)"
    "inst_log (new_instruction d') = inst_log (new_instruction d)" "inst_rr (new_instruction d') = inst_rr (new_instruction d)"
    by (simp_all add: new_instruction_def)
  have "bean_property ps ''trace'' (\<lambda>v. rbind (read_elements co v) (rmap (read_node co strict))) (inst_trace (new_instruction d')) = Inr (inst_trace i)"
    by (simp add: bean_property_def t read_elements_def)
  moreover have "bean_property ps ''times'' (read_integer co) (inst_times (new_instruction d')) = Inr (inst_times i)"
    "bean_property ps ''threads'' (read_integer co) (inst_threads (new_instruction d')) = Inr (inst_threads i)"
    "bean_property ps ''qps'' (read_integer co) (inst_qps (new_instruction d')) = Inr (inst_qps i)"
    "bean_property ps ''propagateHeaders'' (or_null (read_text co)) (inst_propagateHeaders (new_instruction d')) = Inr (inst_propagateHeaders i)"
    "bean_property ps ''log'' (read_bool co) (inst_log (new_instruction d')) = Inr (inst_log i)"
    "bean_property ps ''rr'' (\<lambda>v. rbind (read_object co v) (read_values (read_elements co))) (inst_rr (new_instruction d')) = Inr (inst_rr i)"
    unfolding same using ok new by (auto intro!: carried simp: instruction_members_def reads)
  moreover have "bean_property ps ''collectBy'' (read_text co) (inst_collectBy (new_instruction d')) = Inr (inst_collectBy (redefault ps d' i))"
    "bean_property ps ''traceNodeTmpl'' (read_text co) (inst_traceNodeTmpl (new_instruction d')) = Inr (inst_traceNodeTmpl (redefault ps d' i))"
    by (simp_all add: text_property [OF c] instruction_members_def redefault_def new_instruction_def)
  ultimately show ?thesis by (simp add: read_instruction_def Let_def read_object_def known_names_ok [OF known] redefault_def)
qed

section \<open>The simplified form\<close>

lemma map_of_changed:
  "map fst ps = map fst qs \<Longrightarrow> distinct (map fst ps) \<Longrightarrow>
    map_of (changed_members ps qs) k = (if map_of ps k = map_of qs k then None else map_of qs k)"
proof (induction ps qs rule: list_induct2')
  case (4 p ps q qs)
  obtain j v w where pq: "p = (j, v)" "q = (j, w)" using 4(2) by (cases p; cases q) auto
  have m: "map fst ps = map fst qs" using 4(2) by (simp add: pq)
  have d: "j \<notin> fst ` set ps" "distinct (map fst ps)" using 4(3) by (auto simp: pq)
  have "j \<notin> fst ` set (changed_members ps qs)" using changed_keys [OF m] d by blast
  then have "map_of (changed_members ps qs) j = None" by (simp add: map_of_eq_None_iff)
  with 4(1) [OF m d(2)] show ?case by (auto simp: pq changed_Cons)
qed (simp_all add: changed_members_def)

lemma writable_changed: "list_all (\<lambda>(k, v). writable_tree v) qs \<Longrightarrow> list_all (\<lambda>(k, v). writable_tree v) (changed_members ps qs)"
  by (auto simp: changed_members_def list_all_iff split: if_splits dest!: set_zip_rightD)

text \<open>The maps of a node have each key once, as maps do.\<close>

definition node_maps_ok :: "PowerTraceNode \<Rightarrow> bool" where
  "node_maps_ok n \<longleftrightarrow> (case node_headers n of Some hs \<Rightarrow> distinct (map fst hs) | None \<Rightarrow> True) \<and>
     distinct (map fst (node_responseHeaders n)) \<and> distinct (map fst (node_queries n))"

lemma node_writable: "numbers_ok t \<Longrightarrow> node_maps_ok t \<Longrightarrow> list_all (\<lambda>(k, v). writable_tree v) (node_members t)"
  by (simp add: node_members_def numbers_ok_def node_maps_ok_def)

lemma changed_carries:
  assumes "map fst ps = map fst qs" and "distinct (map fst ps)" and "map_of ps k = map_of qs k \<Longrightarrow> map_of new k = map_of qs k"
  shows "carries (changed_members ps qs) new qs k"
  using assms by (simp add: carries_def map_of_changed)

lemma node_base_members: "node_base t hs = [(''call'', JStr []), (''by'', JStr ''http''), (''method'', JStr ''POST''), (''code'', JNum ''200''),
    (''headers'', if hs \<noteq> [] then JNull else JMap []), (''responseHeaders'', if node_responseHeaders t \<noteq> [] then JNull else JMap []),
    (''queries'', if node_queries t \<noteq> [] then JNull else JMap []), (''callTestMethod'', JNum ''0''), (''delay'', JNum ''0.0''), (''errorByPercent'', JNum ''0'')]"
proof -
  have n: "int_str 200 = ''200''" "int_str 0 = ''0''" by code_simp+
  show ?thesis by (simp add: node_base_def Let_def node_members_def new_node_def text_tree_def int_tree_def map_tree_def n)
qed

lemma node_base_keys: "map fst (node_base t hs) = map fst (node_members t)" "distinct (map fst (node_base t hs))"
  by (simp_all add: node_base_members node_members_def)

lemma node_base_plain: "node_headers t = Some hs \<Longrightarrow>
    list_all (\<lambda>((k, v), (k', w)). k = k' \<and> (v = w \<or> \<not> both_containers v w)) (zip (node_base t hs) (node_members t))"
  by (auto simp: node_base_members node_members_def both_containers_def text_tree_def int_tree_def map_tree_def split: option.split)

lemma node_carries: "node_headers t = Some hs \<Longrightarrow> carries (changed_members (node_base t hs) (node_members t)) (node_members new_node) (node_members t) k"
proof (rule changed_carries [OF node_base_keys])
  assume h: "node_headers t = Some hs" and same: "map_of (node_base t hs) k = map_of (node_members t) k"
  have new: "map_of (node_members new_node) k = map_of (node_base new_node []) k" by (simp add: node_base_def new_node_def)
  show "map_of (node_members new_node) k = map_of (node_members t) k"
    unfolding new using same h by (auto simp: node_base_members node_members_def map_tree_def new_node_def split: if_splits)
qed

lemma instruction_base_keys: "map fst (instruction_members v i) = map fst (instruction_members w j)" "distinct (map fst (instruction_members v i))"
  by (simp_all add: instruction_members_def)

text \<open>What an instruction must be like: nodes with headers, in maps, no round-robin values.\<close>

definition simple_instruction :: "Instruction \<Rightarrow> bool" where
  "simple_instruction i \<longleftrightarrow> list_all (\<lambda>n. node_headers n \<noteq> None \<and> node_maps_ok n) (inst_trace i) \<and> inst_rr i = []"

lemma converted: "all_numbers_ok i \<Longrightarrow> read_instruction co False d (JMap (instruction_members (trace_tree (inst_trace i)) i @ ms)) = Inr i"
proof -
  assume ints: "all_numbers_ok i"
  let ?ps = "instruction_members (trace_tree (inst_trace i)) i @ ms"
  have c: "carries ?ps (instruction_members JNull (new_instruction d)) (instruction_members JNull i) k"
    if "k \<in> set (tl (map fst (instruction_members JNull i)))" for k
    using that by (auto simp: carries_def instruction_members_def)
  have t: "map_of ?ps ''trace'' = Some (JList (map (\<lambda>n. JMap (node_members n)) (inst_trace i)))"
    by (simp add: instruction_members_def trace_tree_def)
  have n: "rmap (read_node co False) (map (\<lambda>n. JMap (node_members n)) (inst_trace i)) = Inr (inst_trace i)"
  proof -
    have "read_node co False (JMap (node_members n)) = Inr n" if "n \<in> set (inst_trace i)" for n
      using that ints by (intro read_node_carried) (auto simp: carries_def all_numbers_ok_def list_all_iff)
    then show ?thesis using rmap_Inr_map [of "inst_trace i" "\<lambda>n. read_node co False (JMap (node_members n))" id] by (simp add: rmap_map)
  qed
  have "read_instruction co False d (JMap ?ps) = Inr (redefault ?ps d i)"
    by (rule read_instruction_carried [OF c t n ints]) simp_all
  then show ?thesis by (simp add: redefault_def instruction_members_def)
qed

context json_patch
begin

lemma simplify_members:
  assumes "map fst ps = map fst qs" and "distinct (map fst ps)"
    and "list_all (\<lambda>((k, v), (k', w)). k = k' \<and> (v = w \<or> \<not> both_containers v w)) (zip ps qs)"
  shows "simplify difference apply_patch (JMap ps) (JMap qs) = Inr (JMap (changed_members ps qs))"
  unfolding simplify_def by (rule simplified_plain [OF assms])

lemma simplified_node_read:
  assumes "node_headers t \<noteq> None" and "node_maps_ok t" and "numbers_ok t"
  shows "\<exists>v. simplified_node difference apply_patch t = Inr v \<and> writable_tree v \<and> read_node co strict v = Inr t"
proof -
  obtain hs where hs: "node_headers t = Some hs" using assms(1) by auto
  let ?ps = "changed_members (node_base t hs) (node_members t)"
  have "fst ` set ?ps \<subseteq> set (map fst (node_members new_node))"
    using changed_keys [OF node_base_keys(1)] by (simp add: node_base_members node_members_def)
  then have "read_node co strict (JMap ?ps) = Inr t" using node_carries [OF hs] assms(3) by (intro read_node_carried) auto
  moreover have "simplified_node difference apply_patch t = Inr (JMap ?ps)"
    by (simp add: simplified_node_def hs simplify_members [OF node_base_keys node_base_plain [OF hs]])
  moreover have "writable_tree (JMap ?ps)"
    using writable_changed [OF node_writable [OF assms(3,2)]] changed_distinct [OF node_base_keys] by simp
  ultimately show ?thesis by blast
qed

lemma simplified_trace_read:
  "list_all (\<lambda>n. node_headers n \<noteq> None \<and> node_maps_ok n \<and> numbers_ok n) ns \<Longrightarrow>
    \<exists>vs. rmap (simplified_node difference apply_patch) ns = Inr vs \<and> list_all writable_tree vs \<and> rmap (read_node co strict) vs = Inr ns"
proof (induction ns)
  case (Cons n ns)
  then obtain v vs where "simplified_node difference apply_patch n = Inr v" "writable_tree v" "read_node co strict v = Inr n"
    "rmap (simplified_node difference apply_patch) ns = Inr vs" "list_all writable_tree vs" "rmap (read_node co strict) vs = Inr ns"
    using simplified_node_read [of n co strict] by auto
  then show ?case by (intro exI [of _ "v # vs"]) simp
qed simp

lemma simplified_read:
  assumes "simple_instruction i" and "all_numbers_ok i"
  shows "\<exists>ps. getSimplifiedNode difference apply_patch co d own i = Inr (JMap ps) \<and> writable_tree (JMap ps) \<and>
    read_instruction co' strict d' (JMap ps) = Inr (i\<lparr>
      inst_collectBy := (if inst_collectBy i = defaultCollectBy d then defaultCollectBy d' else inst_collectBy i),
      inst_traceNodeTmpl := (if inst_traceNodeTmpl i = defaultTmpl d then defaultTmpl d' else inst_traceNodeTmpl i)\<rparr>)"
proof -
  let ?base = "instruction_members JNull (new_instruction d)" and ?ms = "instruction_members JNull i"
  let ?ch = "changed_members ?base ?ms"
  have keys: "map fst ?base = map fst ?ms" and d: "distinct (map fst ?base)" by (rule instruction_base_keys)+
  have "list_all (\<lambda>n. node_headers n \<noteq> None \<and> node_maps_ok n \<and> numbers_ok n) (inst_trace i)"
    using assms by (simp add: simple_instruction_def all_numbers_ok_def list_all_iff)
  then obtain vs where vs: "rmap (simplified_node difference apply_patch) (inst_trace i) = Inr vs" "rmap (read_node co' strict) vs = Inr (inst_trace i)"
    and texts: "list_all writable_tree vs"
    using simplified_trace_read by blast
  have plain: "list_all (\<lambda>((k, v), (k', w)). k = k' \<and> (v = w \<or> \<not> both_containers v w)) (zip ?base ?ms)"
    using assms(1) by (auto simp: instruction_members_def both_containers_def text_tree_def int_tree_def new_instruction_def simple_instruction_def split: option.split)
  have own: "(case own of None \<Rightarrow> Inr i
       | Some ms \<Rightarrow> read_instruction co False d (JMap (instruction_members (trace_tree (inst_trace i)) i @ ms))) = Inr i"
    using converted [OF assms(2)] by (cases own) simp_all
  have "getSimplifiedNode difference apply_patch co d own i = Inr (JMap (AList.update ''trace'' (JList vs) ?ch))" (is "_ = Inr (JMap ?ps)")
    by (simp add: getSimplifiedNode_def own vs(1) simplify_members [OF keys d plain] put_member_def)
  moreover have "read_instruction co' strict d' (JMap ?ps) = Inr (redefault ?ps d' i)"
  proof (rule read_instruction_carried [where d = d, OF _ _ vs(2) assms(2)])
    show "carries ?ps ?base ?ms k" if "k \<in> set (tl (map fst ?ms))" for k
    proof -
      have "k \<noteq> ''trace''" using that by (auto simp: instruction_members_def)
      with changed_carries [OF keys d, of k ?base] show ?thesis by (simp add: carries_def update_conv')
    qed
    show "map_of ?ps ''trace'' = Some (JList vs)" by (simp add: update_conv')
    show "strict \<longrightarrow> fst ` set ?ps \<subseteq> set (map fst (instruction_members JNull (new_instruction d')))"
    proof
      have "fst ` set ?ps \<subseteq> insert ''trace'' (fst ` set ?ch)" by (auto simp: dom_map_of_conv_image_fst [symmetric] update_conv' split: if_splits)
      also have "\<dots> \<subseteq> set (map fst ?base)" using changed_keys [OF keys] by (auto simp: instruction_members_def)
      finally show "fst ` set ?ps \<subseteq> set (map fst (instruction_members JNull (new_instruction d')))" by (simp add: instruction_members_def)
    qed
  qed
  moreover have "map_of ?ps ''collectBy'' = None \<longleftrightarrow> inst_collectBy i = defaultCollectBy d"
    "map_of ?ps ''traceNodeTmpl'' = None \<longleftrightarrow> inst_traceNodeTmpl i = defaultTmpl d"
  proof -
    have m: "map_of ?ps k = (if map_of ?base k = map_of ?ms k then None else map_of ?ms k)" if "k \<noteq> ''trace''" for k
      using that map_of_changed [OF keys d] by (simp add: update_conv')
    show "map_of ?ps ''collectBy'' = None \<longleftrightarrow> inst_collectBy i = defaultCollectBy d"
      "map_of ?ps ''traceNodeTmpl'' = None \<longleftrightarrow> inst_traceNodeTmpl i = defaultTmpl d"
      by (subst m, simp, force simp: instruction_members_def new_instruction_def)+
  qed
  moreover have "writable_tree (JMap ?ps)"
  proof -
    have "list_all (\<lambda>(k, v). writable_tree v) ?ms" using assms(1) by (simp add: instruction_members_def simple_instruction_def)
    moreover have "list_all (\<lambda>(k, v). writable_tree v) qs \<Longrightarrow> list_all (\<lambda>(k, v). writable_tree v) (AList.update ''trace'' (JList vs) qs)" for qs
      using texts by (induction qs) auto
    moreover have "distinct (map fst (AList.update ''trace'' (JList vs) ?ch))"
      using changed_distinct [OF keys] d keys by (intro distinct_update) simp
    ultimately show ?thesis using writable_changed by simp
  qed
  ultimately show ?thesis by (auto simp: redefault_def)
qed

text \<open>Round-robin values cannot be left out and cannot be added.\<close>

lemma round_robin_stuck:
  assumes "inst_rr i \<noteq> []" and "all_numbers_ok i"
  shows "\<exists>e. getSimplifiedNode difference apply_patch co d own i = Inl e"
proof -
  define bs where "bs = take 8 (instruction_members JNull (new_instruction d))"
  define ms where "ms = take 8 (instruction_members JNull i)"
  define rr where "rr = map (\<lambda>(k, vs). (k, JList vs)) (inst_rr i)"
  have b: "instruction_members JNull (new_instruction d) = bs @ [(''rr'', JMap [])]"
    by (simp add: bs_def instruction_members_def new_instruction_def)
  have m: "instruction_members JNull i = ms @ [(''rr'', JMap rr)]" by (simp add: ms_def rr_def instruction_members_def)
  have keys: "map fst bs = map fst ms" "distinct (map fst bs @ [''rr''])" by (simp_all add: bs_def ms_def instruction_members_def)
  have plain: "list_all (\<lambda>((k, v), (k', w)). k = k' \<and> (v = w \<or> \<not> both_containers v w)) (zip bs ms)"
    by (auto simp: bs_def ms_def instruction_members_def both_containers_def text_tree_def int_tree_def split: option.split)
  have "rr \<noteq> []" using assms(1) by (simp add: rr_def)
  from simplified_stuck [OF keys this plain]
  obtain e where "simplify difference apply_patch (JMap (instruction_members JNull (new_instruction d))) (JMap (instruction_members JNull i)) = Inl e"
    unfolding simplify_def b m by blast
  moreover have "(case own of None \<Rightarrow> Inr i
       | Some ms \<Rightarrow> read_instruction co False d (JMap (instruction_members (trace_tree (inst_trace i)) i @ ms))) = Inr i"
    using converted [OF assms(2)] by (cases own) simp_all
  ultimately show ?thesis
    by (cases "rmap (simplified_node difference apply_patch) (inst_trace i)") (simp_all add: getSimplifiedNode_def)
qed

end

section \<open>Texts\<close>

text \<open>
  What is relied on of Jackson: it reads the objects it writes, with blanks around them or
  without; objects with different names and the numbers of \<^verbatim>\<open>JavaJson\<close>.
\<close>

definition reads_trees :: "(jobj \<Rightarrow> string) \<Rightarrow> (string \<Rightarrow> java_error + jobj) \<Rightarrow> bool" where
  "reads_trees write parse \<longleftrightarrow> (\<forall>ps. writable_tree (JMap ps) \<longrightarrow>
     parse (write (JMap ps)) = Inr (JMap ps) \<and> parse (jtrim (write (JMap ps))) = Inr (JMap ps))"

lemma json_reads_trees: "reads_trees write_tree read_tree"
proof -
  have "jtrim (write_tree (JMap ps)) = write_tree (JMap ps)" for ps
  proof -
    obtain t where "write_members ps = t @ ''}''" using write_members_last [of ps] append_butlast_last_id by metis
    then have "write_tree (JMap ps) = CHR ''{'' # t @ ''}''" by simp
    then show ?thesis by (simp add: jtrim_def)
  qed
  then show ?thesis unfolding reads_trees_def by (metis read_write_tree)
qed

lemma address_read:
  assumes "json_patch difference apply_patch" and "url_codec encode decode" and "reads_utf8 platform_text"
    and "reads_trees write parse" and "simple_instruction i" and "all_numbers_ok i"
  shows "\<exists>v. getSimplifiedNode difference apply_patch co d own i = Inr v \<and>
    set (address_body encode write v) \<subseteq> insert CHR ''='' (set url_letters) \<and>
    read_address decode platform_text parse co' d' (address_body encode write v) = Inr (i\<lparr>
      inst_collectBy := (if inst_collectBy i = defaultCollectBy d then defaultCollectBy d' else inst_collectBy i),
      inst_traceNodeTmpl := (if inst_traceNodeTmpl i = defaultTmpl d then defaultTmpl d' else inst_traceNodeTmpl i)\<rparr>)"
proof -
  obtain ps where ps: "getSimplifiedNode difference apply_patch co d own i = Inr (JMap ps)" "writable_tree (JMap ps)"
    "read_instruction co' True d' (JMap ps) = Inr (i\<lparr>
      inst_collectBy := (if inst_collectBy i = defaultCollectBy d then defaultCollectBy d' else inst_collectBy i),
      inst_traceNodeTmpl := (if inst_traceNodeTmpl i = defaultTmpl d then defaultTmpl d' else inst_traceNodeTmpl i)\<rparr>)"
    using json_patch.simplified_read [OF assms(1,5,6)] by blast
  then show ?thesis
    using body_in_address [OF assms(2,3), of "write (JMap ps)"] assms(4) by (simp add: read_address_def address_body_def reads_trees_def)
qed

text \<open>Servers with the same defaults hand instructions on unchanged.\<close>

lemma address_identity:
  assumes "json_patch difference apply_patch" and "url_codec encode decode" and "reads_utf8 platform_text"
    and "reads_trees write parse" and "simple_instruction i" and "all_numbers_ok i"
  shows "\<exists>v. getSimplifiedNode difference apply_patch co d own i = Inr v \<and>
    set (address_body encode write v) \<subseteq> insert CHR ''='' (set url_letters) \<and>
    read_address decode platform_text parse co' d (address_body encode write v) = Inr i"
proof -
  have same: "i\<lparr>inst_collectBy := (if inst_collectBy i = defaultCollectBy d then defaultCollectBy d else inst_collectBy i),
      inst_traceNodeTmpl := (if inst_traceNodeTmpl i = defaultTmpl d then defaultTmpl d else inst_traceNodeTmpl i)\<rparr> = i" by simp
  show ?thesis using address_read [OF assms, of co d own co' d] unfolding same .
qed

text \<open>
  C10. An instruction in an address arrives, between platforms on UTF-8: with headers in all
  its nodes and without round-robin values it has a simplified form, encoded it needs no escaping in an address, and
  the server that reads it gets every node and every setting as they were, whether a new
  instruction has them or not. Only a way of collecting or a template that is the sender's
  default becomes the default of the server that reads it.
\<close>
theorem instruction_in_address:
  assumes "json_patch difference apply_patch" and "url_codec encode decode" and "reads_utf8 platform_text"
    and "reads_trees write parse" and "simple_instruction i" and "all_numbers_ok i"
  shows "\<exists>v. getSimplifiedNode difference apply_patch co d own i = Inr v \<and>
    set (address_body encode write v) \<subseteq> insert CHR ''='' (set url_letters) \<and>
    read_address decode platform_text parse co' d' (address_body encode write v) = Inr (i\<lparr>
      inst_collectBy := (if inst_collectBy i = defaultCollectBy d then defaultCollectBy d' else inst_collectBy i),
      inst_traceNodeTmpl := (if inst_traceNodeTmpl i = defaultTmpl d then defaultTmpl d' else inst_traceNodeTmpl i)\<rparr>)"
  by (rule address_read [OF assms])

section \<open>An example\<close>

definition no_coercions :: coercions where
  "no_coercions = \<lparr>coerced_text = \<lambda>v. bad_json, coerced_int = \<lambda>v. bad_json, coerced_number = \<lambda>v. bad_json,
     coerced_bool = \<lambda>v. bad_json, coerced_list = \<lambda>v. bad_json, coerced_map = \<lambda>v. bad_json\<rparr>"

definition usual_defaults :: defaults where
  "usual_defaults = \<lparr>defaultCollectBy = ''stat_count'', defaultTmpl = defaultTraceNodeTmpl\<rparr>"

definition usual_form :: "Instruction \<Rightarrow> java_error + jobj" where
  "usual_form = getSimplifiedNode struct_diff struct_apply no_coercions usual_defaults None"

definition get_node :: PowerTraceNode where
  "get_node = new_node\<lparr>node_call := Some ''b'', node_method := ''GET'', node_headers := Some [(''x-env'', ''dev'')], node_code := 404\<rparr>"

definition get_instruction :: Instruction where
  "get_instruction = (new_instruction usual_defaults)\<lparr>inst_trace := [get_node, new_node], inst_times := 7\<rparr>"

text \<open>Only what differs from new objects is written.\<close>

lemma get_instruction_form: "usual_form get_instruction = Inr (JMap [(''times'', JNum ''7''),
    (''trace'', JList [JMap [(''call'', JStr ''b''), (''method'', JStr ''GET''), (''code'', JNum ''404''), (''headers'', JMap [(''x-env'', JStr ''dev'')])],
       JMap []])])"
  by code_simp

theorem instruction_in_address_witness:
  "\<exists>v. usual_form get_instruction = Inr v \<and> read_address rfc_decode utf8_text read_tree no_coercions usual_defaults (address_body rfc_encode write_tree v) = Inr get_instruction"
proof -
  have "simple_instruction get_instruction" "all_numbers_ok get_instruction" by code_simp+
  from instruction_in_address [OF rfc6902.json_patch_axioms rfc4648.url_codec_axioms utf8_reads json_reads_trees this,
      where co = no_coercions and d = usual_defaults and own = None and co' = no_coercions and d' = usual_defaults]
  show ?thesis by (auto simp: usual_form_def)
qed

text \<open>A server with another default template reads another instruction.\<close>

lemma defaults_differ:
  "rbind (usual_form get_instruction) (\<lambda>v. rbind (read_address rfc_decode utf8_text read_tree no_coercions (usual_defaults\<lparr>defaultTmpl := ''x''\<rparr>)
     (address_body rfc_encode write_tree v)) (\<lambda>i. Inr (inst_traceNodeTmpl i))) = Inr ''x''"
proof -
  have i: "simple_instruction get_instruction" "all_numbers_ok get_instruction" by code_simp+
  have "inst_traceNodeTmpl get_instruction = defaultTmpl usual_defaults" by (simp add: get_instruction_def new_instruction_def)
  with address_read [OF rfc6902.json_patch_axioms rfc4648.url_codec_axioms utf8_reads json_reads_trees i,
      of no_coercions usual_defaults None no_coercions "usual_defaults\<lparr>defaultTmpl := ''x''\<rparr>"]
  show ?thesis by (auto simp: usual_form_def)
qed

end
