(* ===== verification/HttpInvokerJava.thy ===== *)
theory HttpInvokerJava
  imports CaseApiJava SimplifiedJava
begin

text \<open>
  \<open>core/invoker/HttpRemoteInvoker.java\<close> and the part of \<open>HttpController.java\<close> for requests
  without a body: what a node sends to the next one over HTTP, what it makes of the answer,
  and how an instruction arrives that came in the address. \<open>RestTemplate\<close> with
  \<open>URI.create\<close> is an argument (\<open>exchange\<close>); its error handler, which the configuration
  replaces, accepts every status. The simplified form of an instruction and its text in an
  address are arguments here; \<^verbatim>\<open>SimplifiedJava\<close> has what the server uses for them.
\<close>

section \<open>Calls\<close>

record http_call =
  call_method :: string
  call_url :: string
  call_headers :: "(string \<times> string) list"
  call_body :: "Instruction option"

record http_reply =
  reply_status :: int
  reply_body :: "string option"
  reply_headers :: "(string \<times> string list) list"

text \<open>\<open>HttpHeaders\<close> does not tell the case of a name apart; \<open>set\<close> replaces.\<close>

definition lower :: "string \<Rightarrow> string" where
  "lower s = map (\<lambda>c. if char_between CHR ''A'' CHR ''Z'' c then char_of (of_char c + 32 :: nat) else c) s"

definition set_header :: "string \<times> string \<Rightarrow> (string \<times> string) list \<Rightarrow> (string \<times> string) list" where
  "set_header h hs = filter (\<lambda>(k, _). lower k \<noteq> lower (fst h)) hs @ [h]"

definition request_headers :: "PowerTraceNode \<Rightarrow> java_error + (string \<times> string) list" where
  "request_headers node = (case node_headers node of
      None \<Rightarrow> Inl NullPointer
    | Some hs \<Rightarrow> Inr (set_header (''Content-Type'', ''application/json;charset=UTF-8'') (fold set_header hs [])))"

text \<open>The queries are rendered one after the other, with the random numbers of this call.\<close>

fun render_queries :: "jvm \<Rightarrow> RenderingContext \<Rightarrow> (string \<times> string) list \<Rightarrow> (nat, string list) stm" where
  "render_queries vm ctx [] = jret []"
| "render_queries vm ctx ((k, v) # qs) = jbind (render_template vm ctx (Some v)) (\<lambda>t.
     jbind (render_queries vm ctx qs) (\<lambda>ts. jret ((k @ ''='' @ (case t of Some x \<Rightarrow> x | None \<Rightarrow> ''null'')) # ts)))"

definition methods_with_body :: "string list" where
  "methods_with_body = [''POST'', ''PUT'']"

definition methods_without_body :: "string list" where
  "methods_without_body = [''GET'', ''DELETE'']"

definition absolute_url :: "string option \<Rightarrow> string" where
  "absolute_url c =
     (let text = (case c of Some x \<Rightarrow> x | None \<Rightarrow> ''null'') @ ''/execute''
      in if take (length ''http:'') text = ''http:'' then text else ''http://'' @ text)"

text \<open>An address with another scheme gets a second one.\<close>

lemma https_address: "absolute_url (Some ''https://c'') = ''http://https://c/execute''"
  by code_simp

definition with_params :: "string \<Rightarrow> string list \<Rightarrow> string" where
  "with_params address params = (if params = [] then address else address @ ''?'' @ join_with ''&'' params)"

text \<open>The log and the address show the simplified form (\<open>simplified\<close>); \<open>body_text\<close>: the form as it stands in an address.\<close>

definition log_request :: "(Instruction \<Rightarrow> java_error + jobj) \<Rightarrow> Instruction \<Rightarrow> java_error + unit" where
  "log_request simplified i = (if inst_log i then rbind (simplified i) (\<lambda>_. Inr ()) else Inr ())"

definition http_call_of ::
  "(Instruction \<Rightarrow> java_error + jobj) \<Rightarrow> (jobj \<Rightarrow> string) \<Rightarrow> PowerTraceNode \<Rightarrow> Instruction \<Rightarrow> (string \<times> string) list \<Rightarrow> string list \<Rightarrow> java_error + http_call" where
  "http_call_of simplified body_text node i headers params =
     (if node_method node \<in> set methods_with_body
      then Inr \<lparr>call_method = node_method node, call_url = with_params (absolute_url (node_call node)) params,
        call_headers = headers, call_body = Some i\<rparr>
      else if node_method node \<in> set methods_without_body
      then rbind (simplified i) (\<lambda>v.
        Inr \<lparr>call_method = node_method node, call_url = with_params (absolute_url (node_call node)) (params @ [''_body='' @ body_text v]),
          call_headers = headers, call_body = None\<rparr>)
      else Inl (IllegalArgument (''The method '' @ [CHR 0x27] @ node_method node @ [CHR 0x27] @ '' is not supported.'')))"

text \<open>\<open>PowerfulResponse.fromHttp\<close>: the first value of each header.\<close>

definition fromHttp :: "http_reply \<Rightarrow> PowerfulResponse" where
  "fromHttp r = \<lparr>resp_headers = map (\<lambda>(k, vs). (k, hd vs)) (filter (\<lambda>(k, vs). vs \<noteq> []) (reply_headers r)),
     resp_result = text_or_null (reply_body r), resp_status = Some (int_str (reply_status r))\<rparr>"

definition http_invoke ::
  "(nat \<Rightarrow> jvm) \<Rightarrow> (Instruction \<Rightarrow> java_error + jobj) \<Rightarrow> (jobj \<Rightarrow> string) \<Rightarrow> (nat \<Rightarrow> http_call \<Rightarrow> java_error + http_reply) \<Rightarrow> remote_invoker" where
  "http_invoke vms simplified body_text exchange k i ctx = (case currentNode i of
      None \<Rightarrow> Inl NullPointer
    | Some node \<Rightarrow>
        rbind (request_headers node) (\<lambda>headers.
        rbind (fst (render_queries (vms k) ctx (node_queries node) 0)) (\<lambda>params.
        rbind (http_call_of simplified body_text node i headers params) (\<lambda>c.
        rbind (log_request simplified i) (\<lambda>_.
        rbind (exchange k c) (\<lambda>r. Inr (fromHttp r)))))))"

section \<open>Instructions in an address\<close>

text \<open>
  \<open>HttpController.execute\<close> for \<open>GET\<close> and \<open>DELETE\<close>; an exception before the instruction is
  read is answered by the framework.
\<close>

definition http_execute_get ::
  "server \<Rightarrow> (string \<Rightarrow> java_error + Instruction) \<Rightarrow> http_request \<Rightarrow> run_state \<Rightarrow> http_answer \<times> run_state" where
  "http_execute_get srv read_body req s0 =
     (case map_of (http_params req) ''_body'' of
        None \<Rightarrow> (\<lparr>answer_status = 500, answer_body = None, answer_headers = []\<rparr>, s0)
      | Some b \<Rightarrow> (case read_body b of
            Inl e \<Rightarrow> (\<lparr>answer_status = 500, answer_body = get_message srv e, answer_headers = []\<rparr>, s0)
          | Inr i \<Rightarrow> http_execute srv i (req\<lparr>http_params := AList.delete ''_body'' (http_params req)\<rparr>) s0))"

section \<open>Both ways of sending an instruction\<close>

lemma delete_absent: "k \<notin> fst ` set ps \<Longrightarrow> AList.delete k ps = ps"
  by (induction ps) auto

lemma delete_between: "k \<notin> fst ` set (ps @ qs) \<Longrightarrow> AList.delete k (ps @ (k, v) # qs) = ps @ qs"
  by (induction ps) (auto simp: delete_absent)

lemma lookup_between: "k \<notin> fst ` set ps \<Longrightarrow> map_of (ps @ (k, v) # qs) k = Some v"
  by (induction ps) auto


lemma log_request_fails: "inst_log i \<Longrightarrow> simplified i = Inl e \<Longrightarrow> log_request simplified i = Inl e"
  by (simp add: log_request_def)

text \<open>Without a simplified form nothing is asked of the network if it is needed for the log or the address.\<close>

lemma unsimplified_not_sent:
  assumes "inst_trace i = node # rest" and "simplified i = Inl e" and "inst_log i \<or> node_method node \<in> set methods_without_body"
  shows "\<exists>e'. \<forall>exchange. http_invoke vms simplified body_text exchange k i ctx = Inl e'"
proof (cases "rbind (request_headers node) (\<lambda>headers. rbind (fst (render_queries (vms k) ctx (node_queries node) 0)) (http_call_of simplified body_text node i headers))")
  case (Inl e')
  then have "http_invoke vms simplified body_text exchange k i ctx = Inl e'" for exchange
    by (cases "request_headers node"; cases "fst (render_queries (vms k) ctx (node_queries node) 0)")
      (simp_all add: http_invoke_def currentNode_def assms(1))
  then show ?thesis by blast
next
  case (Inr c)
  then obtain hs ts where c: "request_headers node = Inr hs" "fst (render_queries (vms k) ctx (node_queries node) 0) = Inr ts"
    "http_call_of simplified body_text node i hs ts = Inr c"
    by (cases "request_headers node"; cases "fst (render_queries (vms k) ctx (node_queries node) 0)") auto
  have "node_method node \<notin> set methods_without_body"
    using c(3) assms(2) by (auto simp: http_call_of_def methods_with_body_def methods_without_body_def)
  then have "log_request simplified i = Inl e" using assms(2,3) by (simp add: log_request_fails)
  then have "http_invoke vms simplified body_text exchange k i ctx = Inl e" for exchange
    by (simp add: http_invoke_def currentNode_def assms(1) c)
  then show ?thesis by blast
qed

text \<open>
  C12. Round-robin values stop a case at its first server: \<open>getNext\<close> sends them on, but an
  instruction that has any cannot be simplified, so that with logging, which is on unless an
  instruction turns it off, or by \<open>GET\<close> and \<open>DELETE\<close> the invoker throws the same exception
  whatever the network would answer: no call is made.
\<close>
theorem round_robin_not_sent:
  assumes "json_patch difference apply_patch" and "inst_rr i \<noteq> []" and "all_numbers_ok i" and "getNext i = Some next_i"
    and "currentNode next_i = Some node" and "inst_log i \<or> node_method node \<in> set methods_without_body"
  shows "\<exists>e. \<forall>exchange. http_invoke vms (getSimplifiedNode difference apply_patch co d own) body_text exchange k next_i ctx = Inl e"
proof -
  obtain rest where t: "inst_trace next_i = node # rest" using assms(5) by (cases "inst_trace next_i") (simp_all add: currentNode_def)
  have "inst_rr next_i = inst_rr i" "inst_log next_i = inst_log i" "all_numbers_ok next_i"
    using assms(3,4) by (auto simp: getNext_def all_numbers_ok_def in_int_def split: if_splits dest: list.set_sel(2) simp: list_all_iff)
  then show ?thesis
    using json_patch.round_robin_stuck [OF assms(1), of next_i] unsimplified_not_sent [OF t] assms(2,6) by metis
qed

section \<open>Examples\<close>

definition posted_request :: http_request where
  "posted_request = \<lparr>http_method = ''GET'', http_headers = [(''x-env'', [''dev''])], servlet_path = ''/execute'', http_params = []\<rparr>"


definition rr_instruction :: Instruction where
  "rr_instruction = (new_instruction usual_defaults)\<lparr>inst_trace := [new_node, new_node\<lparr>node_call := Some ''b''\<rparr>],
     inst_rr := [(''trace.1.call'', [JStr ''b'', JStr ''c''])]\<rparr>"

theorem round_robin_not_sent_witness:
  "\<forall>vm. \<exists>e. \<forall>exchange. http_invoke (\<lambda>k. vm) usual_form (address_body rfc_encode write_tree) exchange 0
    (rr_instruction\<lparr>inst_trace := [new_node\<lparr>node_call := Some ''b''\<rparr>]\<rparr>) new_context = Inl e"
proof -
  have "getNext rr_instruction = Some (rr_instruction\<lparr>inst_trace := [new_node\<lparr>node_call := Some ''b''\<rparr>]\<rparr>)"
    "all_numbers_ok rr_instruction" "inst_rr rr_instruction \<noteq> []" "inst_log rr_instruction"
    by code_simp+
  from round_robin_not_sent [OF rfc6902.json_patch_axioms this(3,2,1)] this(4) show ?thesis
    unfolding usual_form_def by (simp add: currentNode_def)
qed

end
