(* ===== verification/GrpcInvokerJava.thy ===== *)
theory GrpcInvokerJava
  imports HttpInvokerJava
begin

text \<open>
  \<open>core/invoker/GrpcRemoteInvoker.java\<close> and \<open>core/service/GrpcClientInterceptor.java\<close>: the headers
  of a node are handed to an interceptor, which puts them into the next call that starts.
  The stubs, the names gRPC allows for headers and Jackson's writer are arguments. Calls
  follow each other.
\<close>

section \<open>The interceptor\<close>

text \<open>\<open>customizeHeaders\<close> and the calls that have been started, with their headers.\<close>

record grpc_state =
  customizeHeaders :: "(string \<times> string) list"
  started :: "(string \<times> (string \<times> string) list) list"

definition addCustomizeHeaders :: "(string \<times> string) list option \<Rightarrow> (grpc_state, unit) stm" where
  "addCustomizeHeaders headers s = (case headers of
      None \<Rightarrow> (Inl NullPointer, s)
    | Some hs \<Rightarrow> (Inr (), s\<lparr>customizeHeaders := fold (\<lambda>(k, v). AList.update k v) hs (customizeHeaders s)\<rparr>))"

text \<open>\<open>start\<close> of a call: a name that is none throws before the map is cleared.\<close>

definition start_call :: "(string \<Rightarrow> java_error + string) \<Rightarrow> string \<Rightarrow> (grpc_state, unit) stm" where
  "start_call key_of service s = (case rmap (\<lambda>(k, v). rbind (key_of k) (\<lambda>k'. Inr (k', v))) (customizeHeaders s) of
      Inl e \<Rightarrow> (Inl e, s)
    | Inr hs \<Rightarrow> (Inr (), s\<lparr>customizeHeaders := [], started := started s @ [(service, hs)]\<rparr>))"

section \<open>The invoker\<close>

record echo_num =
  echo_number :: int
  echo_instruction :: string
  echo_context :: string

text \<open>A query \<open>num\<close> that is missing or no number counts as 0.\<close>

definition num_param :: "PowerTraceNode \<Rightarrow> int" where
  "num_param node = (case map_of (node_queries node) ''num'' of
      Some t \<Rightarrow> (case parseInt t of Inr n \<Rightarrow> n | Inl e \<Rightarrow> 0)
    | None \<Rightarrow> 0)"

text \<open>If one of the two cannot be written neither is sent.\<close>

definition echo_message :: "(Instruction \<Rightarrow> java_error + string) \<Rightarrow> (RenderingContext \<Rightarrow> java_error + string) \<Rightarrow>
    Instruction \<Rightarrow> RenderingContext \<Rightarrow> PowerTraceNode \<Rightarrow> echo_num" where
  "echo_message write_instruction write_context i ctx node =
     (case rbind (write_instruction i) (\<lambda>a. rbind (write_context ctx) (\<lambda>b. Inr (a, b))) of
        Inr (a, b) \<Rightarrow> \<lparr>echo_number = num_param node, echo_instruction = a, echo_context = b\<rparr>
      | Inl e \<Rightarrow> \<lparr>echo_number = num_param node, echo_instruction = [], echo_context = []\<rparr>)"

text \<open>The two services the invoker knows; \<open>None\<close>: no address.\<close>

definition grpc_service :: "string option \<Rightarrow> java_error + string option" where
  "grpc_service address = (case address of
      None \<Rightarrow> Inl NullPointer
    | Some a \<Rightarrow> if lower a = ''grpc-a'' then Inr (Some ''grpc-a'')
        else if lower a = ''grpc-b'' then Inr (Some ''grpc-b'') else Inr None)"

text \<open>
  What an invoker is put together from. \<open>stub_set\<close>: the services whose blocking stub it was
  given; \<open>GrpcAService\<close> and \<open>GrpcBService\<close>, which are the invokers, each set only the stub of
  the other one, so the stub of the own service is \<open>null\<close>.
\<close>

record grpc_parts =
  stub_set :: "string \<Rightarrow> bool"
  key_of :: "string \<Rightarrow> java_error + string"
  echo :: "string \<Rightarrow> echo_num \<Rightarrow> java_error + string"
  write_instruction :: "Instruction \<Rightarrow> java_error + string"
  write_context :: "RenderingContext \<Rightarrow> java_error + string"

definition plain_response :: "string \<Rightarrow> PowerfulResponse" where
  "plain_response t = \<lparr>resp_headers = [], resp_result = JStr t, resp_status = Some ''200''\<rparr>"

definition grpc_invoke :: "grpc_parts \<Rightarrow> Instruction \<Rightarrow> RenderingContext \<Rightarrow> (grpc_state, PowerfulResponse) stm" where
  "grpc_invoke g i ctx s = (case currentNode i of
      None \<Rightarrow> (Inl NullPointer, s)
    | Some node \<Rightarrow>
        let message = echo_message (write_instruction g) (write_context g) i ctx node
        in jbind (addCustomizeHeaders (node_headers node)) (\<lambda>_.
           jbind (jlift (grpc_service (node_call node))) (\<lambda>service. case service of
               Some name \<Rightarrow> if \<not> stub_set g name then jthrow NullPointer else
                 jbind (start_call (key_of g) name) (\<lambda>_.
                 jbind (jlift (echo g name message)) (\<lambda>t. jret (plain_response t)))
             | None \<Rightarrow> jret (plain_response ''unknow service''))) s)"

text \<open>\<open>afterPropertiesSet\<close> of \<open>GrpcAService\<close> and of \<open>GrpcBService\<close>\<close>

definition a_stubs :: "string \<Rightarrow> bool" where
  "a_stubs name \<longleftrightarrow> name = ''grpc-b''"

definition b_stubs :: "string \<Rightarrow> bool" where
  "b_stubs name \<longleftrightarrow> name = ''grpc-a''"

text \<open>Invocations one after the other, whether they throw or not.\<close>

fun invocations_of :: "grpc_parts \<Rightarrow> (Instruction \<times> RenderingContext) list \<Rightarrow> grpc_state \<Rightarrow> (java_error + PowerfulResponse) list \<times> grpc_state" where
  "invocations_of g [] s = ([], s)"
| "invocations_of g ((i, ctx) # xs) s = (case grpc_invoke g i ctx s of
     (r, s1) \<Rightarrow> (case invocations_of g xs s1 of (rs, s2) \<Rightarrow> (r # rs, s2)))"

definition fresh_interceptor :: grpc_state where
  "fresh_interceptor = \<lparr>customizeHeaders = [], started = []\<rparr>"

section \<open>Each call has its own headers\<close>

text \<open>A node the invoker can call: a service it has the stub of and headers gRPC has names for.\<close>

definition grpc_node :: "grpc_parts \<Rightarrow> PowerTraceNode \<Rightarrow> bool" where
  "grpc_node g node \<longleftrightarrow> (case grpc_service (node_call node) of Inr (Some name) \<Rightarrow> stub_set g name | _ \<Rightarrow> False) \<and>
     (case node_headers node of
        Some hs \<Rightarrow> distinct (map fst hs) \<and> list_all (\<lambda>(k, v). case key_of g k of Inr _ \<Rightarrow> True | Inl _ \<Rightarrow> False) hs
      | None \<Rightarrow> False)"

definition wire_call :: "grpc_parts \<Rightarrow> PowerTraceNode \<Rightarrow> string \<times> (string \<times> string) list" where
  "wire_call g node = (case (grpc_service (node_call node), node_headers node) of
      (Inr (Some name), Some hs) \<Rightarrow> (name, map (\<lambda>(k, v). (case key_of g k of Inr k' \<Rightarrow> k' | Inl _ \<Rightarrow> k, v)) hs)
    | _ \<Rightarrow> ([], []))"

lemma keys_found:
  "list_all (\<lambda>(k, v). case f k of Inr _ \<Rightarrow> True | Inl _ \<Rightarrow> False) hs \<Longrightarrow>
    rmap (\<lambda>(k, v). rbind (f k) (\<lambda>k'. Inr (k', v))) hs = Inr (map (\<lambda>(k, v). (case f k of Inr k' \<Rightarrow> k' | Inl _ \<Rightarrow> k, v)) hs)"
  by (induction hs) (auto split: sum.splits)

lemma grpc_invoke_sends:
  assumes "currentNode i = Some node" and "grpc_node g node" and "customizeHeaders s = []"
  shows "customizeHeaders (snd (grpc_invoke g i ctx s)) = [] \<and> started (snd (grpc_invoke g i ctx s)) = started s @ [wire_call g node]"
proof -
  obtain name hs where n: "grpc_service (node_call node) = Inr (Some name)" "stub_set g name" "node_headers node = Some hs" "distinct (map fst hs)"
    "list_all (\<lambda>(k, v). case key_of g k of Inr _ \<Rightarrow> True | Inl _ \<Rightarrow> False) hs"
    using assms(2) by (auto simp: grpc_node_def split: sum.splits option.splits)
  have "start_call (key_of g) name (s\<lparr>customizeHeaders := hs\<rparr>) = (Inr (), s\<lparr>customizeHeaders := [], started := started s @ [wire_call g node]\<rparr>)"
    using keys_found [OF n(5)] by (simp add: start_call_def wire_call_def n(1,3))
  moreover have "addCustomizeHeaders (Some hs) s = (Inr (), s\<lparr>customizeHeaders := hs\<rparr>)"
    using add_new [OF n(4), of "[]"] assms(3) by (simp add: addCustomizeHeaders_def)
  ultimately show ?thesis
    by (simp add: grpc_invoke_def assms(1) n(1-3) jbind_def Let_def split: sum.split)
qed

text \<open>
  C20. As long as every node names the service this server has the stub of, which is the
  other one, and headers gRPC accepts, each call carries exactly the headers of its own node,
  in the order of the invocations, also when calls fail: nothing of one call reaches another.
\<close>
theorem grpc_headers_isolated:
  assumes "\<forall>(i, ctx)\<in>set xs. \<exists>node. currentNode i = Some node \<and> grpc_node g node"
  shows "started (snd (invocations_of g xs fresh_interceptor)) = map (\<lambda>(i, ctx). wire_call g (hd (inst_trace i))) xs"
proof -
  have "customizeHeaders s = [] \<Longrightarrow> started (snd (invocations_of g xs s)) = started s @ map (\<lambda>(i, ctx). wire_call g (hd (inst_trace i))) xs" for s
    using assms
  proof (induction xs arbitrary: s)
    case (Cons x xs)
    obtain i ctx where x: "x = (i, ctx)" by (cases x)
    obtain node where n: "currentNode i = Some node" "grpc_node g node" using Cons.prems(2) x by auto
    obtain r u where u: "grpc_invoke g i ctx s = (r, u)" by fastforce
    have "hd (inst_trace i) = node" using n(1) by (auto simp: currentNode_def split: list.splits)
    moreover have "customizeHeaders u = []" "started u = started s @ [wire_call g node]"
      using grpc_invoke_sends [OF n Cons.prems(1), of ctx] u by simp_all
    ultimately show ?case using Cons.IH [of u] Cons.prems(2) by (cases "invocations_of g xs u") (simp add: x u)
  qed simp
  from this [of fresh_interceptor] show ?thesis by (simp add: fresh_interceptor_def)
qed

section \<open>When they do not\<close>

lemma keys_stay: "k \<in> fst ` set m \<Longrightarrow> k \<in> fst ` set (fold (\<lambda>(k, v). AList.update k v) hs m)"
proof (induction hs arbitrary: m)
  case (Cons h hs)
  then have "k \<in> fst ` set (AList.update (fst h) (snd h) m)" by (simp add: dom_map_of_conv_image_fst [symmetric] update_conv')
  with Cons.IH show ?case by (simp add: case_prod_beta)
qed simp

lemma keys_added: "(k, v) \<in> set hs \<Longrightarrow> k \<in> fst ` set (fold (\<lambda>(k, v). AList.update k v) hs m)"
proof (induction hs arbitrary: m)
  case (Cons h hs)
  show ?case
  proof (cases "h = (k, v)")
    case True
    then have "k \<in> fst ` set (AList.update k v m)" by (simp add: dom_map_of_conv_image_fst [symmetric] update_conv')
    from keys_stay [OF this] True show ?thesis by simp
  next
    case False
    with Cons show ?thesis by simp
  qed
qed simp

lemma bad_key_throws:
  assumes "k \<in> fst ` set m" and "f k = Inl e"
  shows "\<exists>e'. rmap (\<lambda>(k, v). rbind (f k) (\<lambda>k'. Inr (k', v))) m = Inl e'"
  using assms(1)
proof (induction m)
  case (Cons h m)
  obtain a b where h: "h = (a, b)" by (cases h)
  show ?case
  proof (cases "f a")
    case (Inr a')
    with assms(2) have "a \<noteq> k" by auto
    with Cons.prems have "k \<in> fst ` set m" by (simp add: h)
    with Cons.IH obtain e' where "rmap (\<lambda>(k, v). rbind (f k) (\<lambda>k'. Inr (k', v))) m = Inl e'" by blast
    then show ?thesis by (simp add: h Inr)
  qed (simp add: h)
qed simp

definition throws :: "java_error + 'a \<Rightarrow> bool" where
  "throws r \<longleftrightarrow> (case r of Inl _ \<Rightarrow> True | Inr _ \<Rightarrow> False)"

text \<open>An invocation of a known service by an interceptor that holds, or is given, a bad name.\<close>

lemma invoke_blocked:
  assumes "currentNode i = Some node" and "grpc_service (node_call node) = Inr (Some name)" and "key_of g k = Inl e"
    and "k \<in> fst ` set (customizeHeaders s) \<or> (\<exists>hs v. node_headers node = Some hs \<and> (k, v) \<in> set hs)"
    and "grpc_invoke g i ctx s = (r, s')"
  shows "throws r \<and> started s' = started s \<and> k \<in> fst ` set (customizeHeaders s')"
proof (cases "node_headers node")
  case None
  with assms show ?thesis by (auto simp: grpc_invoke_def jbind_def addCustomizeHeaders_def throws_def Let_def)
next
  case (Some hs)
  let ?m = "fold (\<lambda>(k, v). AList.update k v) hs (customizeHeaders s)"
  have k: "k \<in> fst ` set ?m" using assms(4)
  proof
    assume "k \<in> fst ` set (customizeHeaders s)"
    then show ?thesis by (rule keys_stay)
  next
    assume "\<exists>hs v. node_headers node = Some hs \<and> (k, v) \<in> set hs"
    then obtain v where "(k, v) \<in> set hs" using Some by auto
    then show ?thesis by (rule keys_added)
  qed
  obtain e' where "rmap (\<lambda>(k, v). rbind (key_of g k) (\<lambda>k'. Inr (k', v))) ?m = Inl e'" using bad_key_throws [where f = "key_of g", OF k assms(3)] by blast
  then have "grpc_invoke g i ctx s = (Inl (if stub_set g name then e' else NullPointer), s\<lparr>customizeHeaders := ?m\<rparr>)"
    by (simp add: grpc_invoke_def assms(1,2) Some jbind_def jthrow_def addCustomizeHeaders_def start_call_def Let_def)
  with assms(5) k show ?thesis by (auto simp: throws_def)
qed

lemma all_blocked:
  assumes "key_of g k = Inl e"
    and "\<forall>(i, ctx)\<in>set xs. \<exists>node name. currentNode i = Some node \<and> grpc_service (node_call node) = Inr (Some name)"
  shows "k \<in> fst ` set (customizeHeaders s) \<Longrightarrow>
    list_all throws (fst (invocations_of g xs s)) \<and> started (snd (invocations_of g xs s)) = started s"
  using assms(2)
proof (induction xs arbitrary: s)
  case (Cons x xs)
  obtain i ctx where x: "x = (i, ctx)" by (cases x)
  obtain node name where n: "currentNode i = Some node" "grpc_service (node_call node) = Inr (Some name)" using Cons.prems(2) x by auto
  obtain r u where u: "grpc_invoke g i ctx s = (r, u)" by fastforce
  have "throws r" "started u = started s" "k \<in> fst ` set (customizeHeaders u)"
    using invoke_blocked [where g = g and k = k, OF n assms(1) _ u] Cons.prems(1) by blast+
  then show ?case using Cons.IH [of u] Cons.prems(2) by (cases "invocations_of g xs u") (simp add: x u)
qed simp

text \<open>
  C21. A header name gRPC does not accept stops all gRPC calls of the server for good: once a
  node with such a header was invoked for a known service, this and every later invocation
  of a known service throws and starts no call, because the name stays in the interceptor.
\<close>
theorem bad_header_blocks_grpc:
  assumes "currentNode i = Some node" and "grpc_service (node_call node) = Inr (Some name)"
    and "node_headers node = Some hs" and "(k, v) \<in> set hs" and "key_of g k = Inl e"
    and "\<forall>(i, ctx)\<in>set xs. \<exists>node name. currentNode i = Some node \<and> grpc_service (node_call node) = Inr (Some name)"
  shows "list_all throws (fst (invocations_of g ((i, ctx) # xs) s)) \<and> started (snd (invocations_of g ((i, ctx) # xs) s)) = started s"
proof -
  obtain r u where u: "grpc_invoke g i ctx s = (r, u)" by fastforce
  have "throws r" "started u = started s" "k \<in> fst ` set (customizeHeaders u)"
    using invoke_blocked [where g = g and k = k, OF assms(1,2,5) _ u] assms(3,4) by blast+
  then show ?thesis using all_blocked [where g = g and k = k and xs = xs and s = u, OF assms(5,6)] by (cases "invocations_of g xs u") (simp add: u)
qed

text \<open>The invoker of \<open>GrpcAService\<close>; names with blanks are none, and the stub answers.\<close>

definition demo_grpc :: grpc_parts where
  "demo_grpc = \<lparr>stub_set = a_stubs, key_of = \<lambda>k. if CHR '' '' \<in> set k then Inl (IllegalArgument k) else Inr (lower k), echo = \<lambda>name m. Inr name,
     write_instruction = \<lambda>i. Inr [], write_context = \<lambda>c. Inr []\<rparr>"

definition to_node :: "string \<Rightarrow> (string \<times> string) list \<Rightarrow> Instruction" where
  "to_node address hs = \<lparr>inst_trace = [new_node\<lparr>node_call := Some address, node_by := ''grpc'', node_headers := Some hs\<rparr>], inst_times = 1, inst_threads = 1,
     inst_qps = 0, inst_propagateHeaders = None, inst_collectBy = ''list'', inst_traceNodeTmpl = [], inst_log = True, inst_rr = []\<rparr>"

theorem grpc_headers_isolated_witness:
  "started (snd (invocations_of demo_grpc [(to_node ''grpc-b'' [(''X-Id'', ''1'')], new_context), (to_node ''GRPC-B'' [], new_context)] fresh_interceptor)) =
     [(''grpc-b'', [(''x-id'', ''1'')]), (''grpc-b'', [])]"
proof -
  let ?xs = "[(to_node ''grpc-b'' [(''X-Id'', ''1'')], new_context), (to_node ''GRPC-B'' [], new_context)]"
  have w: "map (\<lambda>(i, ctx). wire_call demo_grpc (hd (inst_trace i))) ?xs = [(''grpc-b'', [(''x-id'', ''1'')]), (''grpc-b'', [])]"
    by code_simp
  have "grpc_node demo_grpc (hd (inst_trace (to_node ''grpc-b'' [(''X-Id'', ''1'')])))" "grpc_node demo_grpc (hd (inst_trace (to_node ''GRPC-B'' [])))"
    by code_simp+
  then have "\<forall>(i, ctx)\<in>set ?xs. \<exists>node. currentNode i = Some node \<and> grpc_node demo_grpc node"
    by (simp add: currentNode_def to_node_def)
  from grpc_headers_isolated [OF this] show ?thesis unfolding w .
qed

theorem bad_header_blocks_grpc_witness:
  "list_all throws (fst (invocations_of demo_grpc
     [(to_node ''grpc-a'' [(''X Id'', ''1'')], new_context), (to_node ''grpc-b'' [], new_context)] fresh_interceptor))"
proof -
  have b: "\<forall>(i, ctx)\<in>set [(to_node ''grpc-b'' [], new_context)]. \<exists>node name. currentNode i = Some node \<and> grpc_service (node_call node) = Inr (Some name)"
    by (simp add: currentNode_def to_node_def grpc_service_def) code_simp
  have a: "currentNode (to_node ''grpc-a'' [(''X Id'', ''1'')]) = Some (new_node\<lparr>node_call := Some ''grpc-a'', node_by := ''grpc'', node_headers := Some [(''X Id'', ''1'')]\<rparr>)"
    by (simp add: currentNode_def to_node_def)
  have s: "grpc_service (node_call (new_node\<lparr>node_call := Some ''grpc-a'', node_by := ''grpc'', node_headers := Some [(''X Id'', ''1'')]\<rparr>)) = Inr (Some ''grpc-a'')"
    by code_simp
  have k: "key_of demo_grpc ''X Id'' = Inl (IllegalArgument ''X Id'')" by code_simp
  show ?thesis using bad_header_blocks_grpc [where g = demo_grpc and k = "''X Id''", OF a s _ _ k b, where hs = "[(''X Id'', ''1'')]" and v = "''1''"] by simp
qed

text \<open>The headers of a node with an unknown service go out with the next call.\<close>

lemma unknown_service_leaks:
  "started (snd (invocations_of demo_grpc [(to_node ''grpc-c'' [(''token'', ''1'')], new_context), (to_node ''grpc-b'' [], new_context)] fresh_interceptor)) =
     [(''grpc-b'', [(''token'', ''1'')])]"
  by code_simp

text \<open>
  The service that names itself: there is no stub, so the invocation throws and starts no
  call, but its headers were added already and go out with the next one.
\<close>

lemma missing_stub_leaks:
  "case invocations_of demo_grpc [(to_node ''grpc-a'' [(''token'', ''1'')], new_context), (to_node ''grpc-b'' [], new_context)] fresh_interceptor of
     (rs, s) \<Rightarrow> hd rs = Inl NullPointer \<and> started s = [(''grpc-b'', [(''token'', ''1'')])]"
  by code_simp

end
