(* ===== verification/GrpcServerJava.thy ===== *)
theory GrpcServerJava
  imports GrpcInvokerJava ServiceProps
begin

text \<open>
  The other end of a gRPC call: \<open>echo\<close> of \<open>GrpcAService.java\<close> and \<open>GrpcBService.java\<close>, which are the
  same but for the service they call, and a call from invoker to service. Jackson's texts of
  contexts and what the stubs do with an answer are arguments.
\<close>

section \<open>The service\<close>

text \<open>The server's state and what its stream observer was told.\<close>

record echo_state =
  serving :: run_state
  replies :: "string list"
  completed :: bool
  failed :: "java_error option"

text \<open>The instruction is read with unknown members left out (\<open>FAIL_ON_UNKNOWN_PROPERTIES\<close>).\<close>

record echo_readers =
  parse_tree :: "string \<Rightarrow> java_error + jobj"
  coercing :: coercions
  own_defaults :: defaults
  read_context :: "string \<Rightarrow> java_error + RenderingContext"

definition read_echo :: "echo_readers \<Rightarrow> echo_num \<Rightarrow> java_error + Instruction \<times> RenderingContext" where
  "read_echo rd m =
     rbind (rbind (parse_tree rd (echo_instruction m)) (read_instruction (coercing rd) False (own_defaults rd))) (\<lambda>i.
     rbind (read_context rd (echo_context m)) (\<lambda>c. Inr (i, c)))"

definition onNext :: "string \<Rightarrow> (echo_state, unit) stm" where
  "onNext t s = (Inr (), s\<lparr>replies := replies s @ [t]\<rparr>)"

definition onCompleted :: "(echo_state, unit) stm" where
  "onCompleted s = (Inr (), s\<lparr>completed := True\<rparr>)"

definition onError :: "java_error \<Rightarrow> (echo_state, unit) stm" where
  "onError e s = (Inr (), s\<lparr>failed := Some e\<rparr>)"

text \<open>\<open>powerful.execute(instruction, context)\<close>\<close>

definition serve :: "server \<Rightarrow> Instruction \<Rightarrow> RenderingContext \<Rightarrow> (echo_state, jobj) stm" where
  "serve srv i c s = (case execute srv ((serving s)\<lparr>instruction := i, the_context := c\<rparr>) of (r, rs) \<Rightarrow> (r, s\<lparr>serving := rs\<rparr>))"

text \<open>Only what reading throws is caught; there is no \<open>toString\<close> of \<open>null\<close>.\<close>

definition echo_call :: "server \<Rightarrow> echo_readers \<Rightarrow> echo_num \<Rightarrow> (echo_state, unit) stm" where
  "echo_call srv rd m = (case read_echo rd m of
      Inl e \<Rightarrow> onError e
    | Inr (i, c) \<Rightarrow>
        jbind (serve srv i c) (\<lambda>v.
        jbind (if v = JNull then jthrow NullPointer else onNext (to_string v)) (\<lambda>_.
        onCompleted)))"

definition idle_echo :: "run_state \<Rightarrow> echo_state" where
  "idle_echo rs = \<lparr>serving = rs, replies = [], completed = False, failed = None\<rparr>"

text \<open>The observer's contract: at most one message, and completion and failure exclude each other.\<close>

lemma echo_contract:
  assumes "echo_call srv rd m (idle_echo rs) = (r, s)"
  shows "length (replies s) = (if completed s then 1 else 0) \<and> (failed s \<noteq> None \<longrightarrow> \<not> completed s) \<and>
    (r = Inr () \<longleftrightarrow> completed s \<or> failed s \<noteq> None)"
  using assms by (auto simp: echo_call_def idle_echo_def onNext_def onCompleted_def onError_def serve_def jbind_def
      split: sum.splits prod.splits if_splits)

section \<open>From invoker to service\<close>

text \<open>What a blocking stub returns: the message of a call that was completed.\<close>

definition echo_answer :: "server \<Rightarrow> echo_readers \<Rightarrow> run_state \<Rightarrow> echo_num \<Rightarrow> string option" where
  "echo_answer srv rd rs m = (case echo_call srv rd m (idle_echo rs) of
      (r, s) \<Rightarrow> if completed s then Some (hd (replies s)) else None)"

definition stub_delivers :: "grpc_parts \<Rightarrow> server \<Rightarrow> echo_readers \<Rightarrow> run_state \<Rightarrow> string \<Rightarrow> bool" where
  "stub_delivers g srv rd rs name \<longleftrightarrow> (\<forall>m. case echo_answer srv rd rs m of
      Some t \<Rightarrow> echo g name m = Inr t
    | None \<Rightarrow> throws (echo g name m))"

text \<open>\<open>writeValueAsString\<close> of an instruction: all its members.\<close>

definition whole_tree :: "Instruction \<Rightarrow> jobj" where
  "whole_tree i = JMap (instruction_members (trace_tree (inst_trace i)) i)"

text \<open>Both ends agree about the texts of a call: what the invoker writes the service reads.\<close>

definition texts_agree :: "grpc_parts \<Rightarrow> (jobj \<Rightarrow> string) \<Rightarrow> echo_readers \<Rightarrow> Instruction \<Rightarrow> RenderingContext \<Rightarrow> bool" where
  "texts_agree g write rd i ctx \<longleftrightarrow> reads_trees write (parse_tree rd) \<and> write_instruction g i = Inr (write (whole_tree i)) \<and>
     rbind (write_context g ctx) (read_context rd) = Inr ctx"

lemma echo_read:
  assumes "texts_agree g write rd i ctx" and "all_numbers_ok i" and "writable_tree (whole_tree i)"
  shows "read_echo rd (echo_message (write_instruction g) (write_context g) i ctx node) = Inr (i, ctx)"
proof -
  obtain t where t: "write_context g ctx = Inr t" "read_context rd t = Inr ctx"
    using assms(1) by (cases "write_context g ctx") (simp_all add: texts_agree_def)
  have w: "write_instruction g i = Inr (write (whole_tree i))" using assms(1) by (simp add: texts_agree_def)
  have "parse_tree rd (write (whole_tree i)) = Inr (whole_tree i)"
    using assms(1,3) by (simp add: texts_agree_def reads_trees_def whole_tree_def)
  moreover have "read_instruction (coercing rd) False (own_defaults rd) (whole_tree i) = Inr i"
    using converted [OF assms(2), of _ _ "[]"] by (simp add: whole_tree_def)
  ultimately show ?thesis by (simp add: read_echo_def echo_message_def t w)
qed

lemma grpc_invoke_echo:
  assumes "currentNode i = Some node" and "grpc_node g node" and "customizeHeaders s = []" and "grpc_service (node_call node) = Inr (Some name)"
  shows "grpc_invoke g i ctx s = (rbind (echo g name (echo_message (write_instruction g) (write_context g) i ctx node)) (\<lambda>t. Inr (plain_response t)),
    s\<lparr>customizeHeaders := [], started := started s @ [wire_call g node]\<rparr>)"
proof -
  obtain r s' where r: "grpc_invoke g i ctx s = (r, s')" by fastforce
  have "customizeHeaders s' = []" "started s' = started s @ [wire_call g node]"
    using grpc_invoke_sends [OF assms(1-3), of ctx] by (simp_all add: r)
  then have "s' = s\<lparr>customizeHeaders := [], started := started s @ [wire_call g node]\<rparr>" by (cases s; cases s') simp
  moreover obtain hs where hs: "node_headers node = Some hs" "distinct (map fst hs)"
    "list_all (\<lambda>(k, v). case key_of g k of Inr _ \<Rightarrow> True | Inl _ \<Rightarrow> False) hs"
    "stub_set g name"
    using assms(2,4) by (auto simp: grpc_node_def split: sum.splits option.splits)
  have "fold (\<lambda>(k, v). AList.update k v) hs [] = hs" using add_new [OF hs(2), of "[]"] by simp
  then have "r = rbind (echo g name (echo_message (write_instruction g) (write_context g) i ctx node)) (\<lambda>t. Inr (plain_response t))"
    using r keys_found [OF hs(3)]
    by (auto simp: grpc_invoke_def assms(1,3,4) hs(1,4) addCustomizeHeaders_def start_call_def jbind_def Let_def split: sum.splits)
  ultimately show ?thesis using r by simp
qed

text \<open>
  C13. A gRPC call to the service this server has the stub of makes the other server execute the instruction as it was sent, but in the
  context of the caller: whatever its expressions and propagated headers ask of the request
  is answered from the caller's request, not from the headers of the call, which are those of
  the node. If the execution returns a value its text comes back with status 200, if it
  throws or returns nothing the invoker throws, and either way the interceptor keeps nothing.
\<close>
theorem grpc_hop:
  assumes "currentNode i = Some node" and "grpc_node g node" and "customizeHeaders s = []" and "grpc_service (node_call node) = Inr (Some name)"
    and "texts_agree g write rd i ctx" and "all_numbers_ok i" and "writable_tree (whole_tree i)" and "stub_delivers g srv rd rs name"
    and "execute srv (rs\<lparr>instruction := i, the_context := ctx\<rparr>) = (r, rs')"
  shows "\<exists>answer. grpc_invoke g i ctx s = (answer, s\<lparr>customizeHeaders := [], started := started s @ [wire_call g node]\<rparr>) \<and>
    (case r of
       Inr v \<Rightarrow> if v = JNull then throws answer else answer = Inr (plain_response (to_string v))
     | Inl e \<Rightarrow> throws answer)"
proof -
  let ?m = "echo_message (write_instruction g) (write_context g) i ctx node"
  have a: "echo_answer srv rd rs ?m = (case r of Inr v \<Rightarrow> if v = JNull then None else Some (to_string v) | Inl e \<Rightarrow> None)"
    using echo_read [OF assms(5-7), of node] assms(9)
    by (simp add: echo_answer_def echo_call_def serve_def idle_echo_def onNext_def onCompleted_def jbind_def split: sum.split)
  have "case echo_answer srv rd rs ?m of Some t \<Rightarrow> echo g name ?m = Inr t | None \<Rightarrow> throws (echo g name ?m)"
    using assms(8) by (simp add: stub_delivers_def)
  then show ?thesis unfolding grpc_invoke_echo [OF assms(1-4)] a
    by (auto simp: throws_def split: sum.splits if_splits)
qed

section \<open>An example\<close>

text \<open>Contexts that have request headers only, as the JSON text of these.\<close>

definition caller_context :: RenderingContext where
  "caller_context = new_context\<lparr>requestHeaders := Some [(''x-env'', ''dev'')]\<rparr>"

definition echo_rd :: echo_readers where
  "echo_rd = \<lparr>parse_tree = read_tree, coercing = no_coercions, own_defaults = usual_defaults,
     read_context = \<lambda>t. rbind (read_tree t) (\<lambda>v. rbind (read_object no_coercions v) (\<lambda>ps.
       rbind (read_values (read_text no_coercions) ps) (\<lambda>hs. Inr (new_context\<lparr>requestHeaders := Some hs\<rparr>))))\<rparr>"

definition sent_instruction :: Instruction where
  "sent_instruction = (demo_instruction 1)\<lparr>inst_traceNodeTmpl := ''{{header(x-env)}}'', inst_propagateHeaders := None,
     inst_trace := [new_node\<lparr>node_call := Some ''grpc-b'', node_by := ''grpc'', node_headers := Some [(''x-env'', ''prod'')]\<rparr>]\<rparr>"

definition connected_grpc :: grpc_parts where
  "connected_grpc = demo_grpc\<lparr>write_instruction := \<lambda>i. Inr (write_tree (whole_tree i)),
     write_context := \<lambda>c. Inr (write_tree (map_tree (requestHeaders c))),
     echo := \<lambda>name m. case echo_answer demo_server echo_rd (demo_state sent_instruction) m of
       Some t \<Rightarrow> Inr t | None \<Rightarrow> Inl (LibraryFailure ''UNKNOWN'')\<rparr>"

definition served_run :: "(java_error + jobj) \<times> run_state" where
  "served_run = execute demo_server ((demo_state sent_instruction)\<lparr>instruction := sent_instruction, the_context := caller_context\<rparr>)"

text \<open>The node says \<open>prod\<close>, the caller's request said \<open>dev\<close>.\<close>

theorem grpc_hop_witness:
  "\<exists>s. grpc_invoke connected_grpc sent_instruction caller_context fresh_interceptor = (Inr (plain_response ''dev''), s) \<and>
    customizeHeaders s = [] \<and> started s = [(''grpc-b'', [(''x-env'', ''prod'')])]"
proof -
  let ?node = "new_node\<lparr>node_call := Some ''grpc-b'', node_by := ''grpc'', node_headers := Some [(''x-env'', ''prod'')]\<rparr>"
  have n: "currentNode sent_instruction = Some ?node" "customizeHeaders fresh_interceptor = []"
    by (simp_all add: sent_instruction_def currentNode_def fresh_interceptor_def)
  have g: "grpc_node connected_grpc ?node" "grpc_service (node_call ?node) = Inr (Some ''grpc-b'')" by code_simp+
  have "rbind (write_context connected_grpc caller_context) (read_context echo_rd) = Inr caller_context" by code_simp
  then have t: "texts_agree connected_grpc write_tree echo_rd sent_instruction caller_context"
    using json_reads_trees by (simp add: texts_agree_def echo_rd_def) (simp add: connected_grpc_def)
  have o: "all_numbers_ok sent_instruction" "writable_tree (whole_tree sent_instruction)" by code_simp+
  have d: "stub_delivers connected_grpc demo_server echo_rd (demo_state sent_instruction) ''grpc-b''"
    by (simp add: stub_delivers_def connected_grpc_def throws_def split: option.split)
  have "fst served_run = Inr (JStr ''dev'')" by code_simp
  then have e: "execute demo_server ((demo_state sent_instruction)\<lparr>instruction := sent_instruction, the_context := caller_context\<rparr>) =
      (Inr (JStr ''dev''), snd served_run)"
    unfolding served_run_def by (metis prod.collapse)
  have w: "wire_call connected_grpc ?node = (''grpc-b'', [(''x-env'', ''prod'')])" by code_simp
  from grpc_hop [OF n(1) g(1) n(2) g(2) t o d e] show ?thesis by (simp add: w fresh_interceptor_def)
qed

end
