(* ===== verification/DubboInvokerJava.thy ===== *)
theory DubboInvokerJava
  imports HttpInvokerJava
begin

text \<open>
  \<open>core/invoker/DubboRemoteInvoker.java\<close> with the names of \<open>assist/Gen.java\<close>: a Dubbo call is an
  address of the form \<open>app/service/method/parameters\<close>; it is resolved to a generated field
  and a method with as many parameters. The generated classes, Jackson's reader and the
  remote call are arguments. \<open>rendering\<close> is the thread's \<open>RPCInvokeContext\<close>. Dubbo keeps the attachments for the thread until a remote call
  has taken them, which the code relies on to see whether there was one, and those of the
  last answer.
\<close>

section \<open>Generated names\<close>

definition appNameToClassName :: "string \<Rightarrow> string" where
  "appNameToClassName appName = map (\<lambda>c. if c = CHR ''-'' then CHR ''_'' else c) appName"

definition genFieldName :: "string \<Rightarrow> string \<Rightarrow> string" where
  "genFieldName app service = ''gen_dubbo'' @ service @ ''_'' @ appNameToClassName app"

definition genClassName :: "string \<Rightarrow> string \<Rightarrow> string" where
  "genClassName simple_name suffix = ''zhranklin.powerful.dubbo.gen.'' @ simple_name @ ''_'' @ appNameToClassName suffix"

text \<open>The apps of \<open>DUBBO_DEPENDS_ON\<close>, without this one.\<close>

definition getDependsOn :: "string option \<Rightarrow> string option \<Rightarrow> java_error + string list" where
  "getDependsOn app depends = (case depends of
      None \<Rightarrow> Inl NullPointer
    | Some ds \<Rightarrow> Inr (remdups (filter (\<lambda>d. d \<noteq> [] \<and> Some d \<noteq> app) (java_split CHR '','' ds))))"

text \<open>\<open>interfaces\<close>: the services there are templates for, with the simple names of their classes.\<close>

definition genDubboRefFields :: "string list \<Rightarrow> (string \<times> string) list \<Rightarrow> (string \<times> string) list" where
  "genDubboRefFields deps interfaces =
     fold (\<lambda>dep. fold (\<lambda>(key, simple_name). AList.update (genFieldName dep key) (genClassName simple_name dep)) interfaces) deps []"

section \<open>Calls\<close>

datatype param_type = InstructionType | StringType | OtherType string

record dubbo_method =
  method_name :: string
  param_types :: "param_type list"

datatype dubbo_arg = ArgInstruction Instruction | ArgText string | ArgValue jobj

text \<open>
  What goes wrong: an \<open>RpcException\<close> with its code, an exception of the called method as the
  reflection reports it, or any other.
\<close>

datatype dubbo_error =
    RpcFailure "string option" nat
  | Reflected dubbo_error
  | JavaFailure java_error

text \<open>
  \<open>read_value\<close>: \<open>None\<close> for a text that is not JSON or does not fit; \<open>read_list\<close>: the elements of a
  list, written as JSON again. A remote call gives the value or error and the attachments of
  the answer.
\<close>

record dubbo_parts =
  methods_of :: "string \<Rightarrow> dubbo_method list"
  ref_fields :: "(string \<times> string) list"
  read_value :: "string \<Rightarrow> param_type \<Rightarrow> jobj option"
  read_list :: "string \<Rightarrow> java_error + string list"
  remote_call :: "string \<Rightarrow> string \<Rightarrow> dubbo_arg list \<Rightarrow> (string \<times> string) list \<Rightarrow> (dubbo_error + jobj) \<times> (string \<times> string) list"
  message_of :: "java_error \<Rightarrow> string option"
  class_of :: "java_error \<Rightarrow> string"
  logged_form :: "Instruction \<Rightarrow> java_error + jobj"

record dubbo_state =
  attachments :: "(string \<times> string) list"
  rendering :: "RenderingContext option"
  server_attachments :: "(string \<times> string) list"
  dubbo_sent :: "(string \<times> string \<times> (string \<times> string) list) list"

definition unmarshalParam :: "dubbo_parts \<Rightarrow> string \<Rightarrow> param_type \<Rightarrow> dubbo_error + dubbo_arg" where
  "unmarshalParam d s type = (case read_value d s type of
      Some v \<Rightarrow> Inr (ArgValue v)
    | None \<Rightarrow> if type = StringType then Inr (ArgText s) else Inl (JavaFailure (IllegalState s)))"

definition bracketed :: "string \<Rightarrow> bool" where
  "bracketed s \<longleftrightarrow> s \<noteq> [] \<and> hd s = CHR ''['' \<and> last s = CHR '']''"

definition params_of :: "dubbo_parts \<Rightarrow> string \<Rightarrow> dubbo_error + string list" where
  "params_of d paramsStr = (if bracketed paramsStr
     then (case read_list d paramsStr of Inl e \<Rightarrow> Inl (JavaFailure e) | Inr ps \<Rightarrow> Inr ps)
     else Inr (java_split CHR ''/'' paramsStr))"

text \<open>The arguments in the order of the parameters; a missing text would be out of bounds.\<close>

fun fill_arguments :: "dubbo_parts \<Rightarrow> Instruction \<Rightarrow> param_type list \<Rightarrow> string list \<Rightarrow> dubbo_error + dubbo_arg list" where
  "fill_arguments d i [] params = Inr []"
| "fill_arguments d i (InstructionType # types) params = rbind (fill_arguments d i types params) (\<lambda>as. Inr (ArgInstruction i # as))"
| "fill_arguments d i (type # types) [] = Inl (JavaFailure IndexOutOfBounds)"
| "fill_arguments d i (type # types) (p # params) =
     rbind (unmarshalParam d p type) (\<lambda>a. rbind (fill_arguments d i types params) (\<lambda>as. Inr (a # as)))"

definition fits :: "string \<Rightarrow> string list \<Rightarrow> dubbo_method \<Rightarrow> bool" where
  "fits name params m \<longleftrightarrow> method_name m = name \<and> length (filter (\<lambda>t. t \<noteq> InstructionType) (param_types m)) = length params"

text \<open>
  \<open>invokeDubbo\<close> and \<open>dynamicInvoke\<close> up to the remote call: field, method and arguments. The fields
  the generated class declares are those of \<open>fieldToClass\<close>.
\<close>

definition resolve :: "dubbo_parts \<Rightarrow> Instruction \<Rightarrow> string option \<Rightarrow> dubbo_error + (string \<times> string \<times> dubbo_arg list)" where
  "resolve d i address = (case address of
      None \<Rightarrow> Inl (JavaFailure NullPointer)
    | Some a \<Rightarrow>
        let path = java_split CHR ''/'' a
        in if length path < 3 then Inl (JavaFailure IndexOutOfBounds)
           else let fieldName = genFieldName (appNameToClassName (path ! 0)) (path ! 1)
                in (case map_of (ref_fields d) fieldName of
                    None \<Rightarrow> Inl (JavaFailure (LibraryFailure fieldName))
                  | Some clazz \<Rightarrow>
                      rbind (params_of d (join_with ''/'' (drop 3 path))) (\<lambda>params.
                      case filter (fits (path ! 2) params) (methods_of d clazz) of
                        [] \<Rightarrow> Inl (JavaFailure (LibraryFailure ''No value present''))
                      | m # _ \<Rightarrow> rbind (fill_arguments d i (param_types m) params) (\<lambda>args. Inr (fieldName, method_name m, args)))))"

section \<open>Answers\<close>

definition codeToStatus :: "string list" where
  "codeToStatus = [''UNKNOWN'', ''NETWORK'', ''TIMEOUT'', ''BIZ'', ''FORBIDDEN'', ''SERIALIZATION'']"

definition text_of :: "string option \<Rightarrow> jobj" where
  "text_of t = (case t of Some x \<Rightarrow> JStr x | None \<Rightarrow> JNull)"

fun error_response :: "dubbo_parts \<Rightarrow> dubbo_error \<Rightarrow> (string \<times> string) list \<Rightarrow> java_error + PowerfulResponse" where
  "error_response d (Reflected (Reflected e)) hs = Inr \<lparr>resp_headers = hs, resp_result = JNull, resp_status = Some ''InvocationTargetException''\<rparr>"
| "error_response d (Reflected e) hs = error_response d e hs"
| "error_response d (RpcFailure t n) hs = (if n < length codeToStatus
     then Inr \<lparr>resp_headers = hs, resp_result = text_of t, resp_status = Some (''DUBBO_'' @ codeToStatus ! n)\<rparr>
     else Inl IndexOutOfBounds)"
| "error_response d (JavaFailure e) hs = Inr \<lparr>resp_headers = hs, resp_result = text_of (message_of d e), resp_status = Some (class_of d e)\<rparr>"

text \<open>If there was no call the attachments stay; without any it looks as if there was one.\<close>

definition dubbo_invoke :: "dubbo_parts \<Rightarrow> Instruction \<Rightarrow> RenderingContext \<Rightarrow> (dubbo_state, PowerfulResponse) stm" where
  "dubbo_invoke d i ctx s = (case currentNode i of
      None \<Rightarrow> (Inl NullPointer, s)
    | Some node \<Rightarrow> (case node_headers node of
          None \<Rightarrow> (Inl NullPointer, s)
        | Some hs \<Rightarrow>
            let s1 = s\<lparr>attachments := fold (\<lambda>(k, v). AList.update k v) hs (attachments s)\<rparr>
            in (case log_request (logged_form d) i of
                Inl e \<Rightarrow> (Inl e, s1)
              | Inr _ \<Rightarrow> (let s2 = s1\<lparr>rendering := Some ctx\<rparr> in (case resolve d i (node_call node) of
                  Inl e \<Rightarrow> (error_response d e (if attachments s2 = [] then server_attachments s2 else []), s2)
                | Inr (field, name, args) \<Rightarrow> (case remote_call d field name args (attachments s2) of
                    (r, answer_hs) \<Rightarrow>
                      (case r of
                          Inr v \<Rightarrow> Inr \<lparr>resp_headers = answer_hs, resp_result = v, resp_status = Some ''OK''\<rparr>
                        | Inl e \<Rightarrow> error_response d (Reflected e) answer_hs,
                       s2\<lparr>attachments := [], server_attachments := answer_hs, dubbo_sent := dubbo_sent s2 @ [(field, name, attachments s2)]\<rparr>)))))))"

section \<open>What comes of a call\<close>

lemma unmarshal_in_bounds: "unmarshalParam d p t \<noteq> Inl (JavaFailure IndexOutOfBounds)"
  by (simp add: unmarshalParam_def split: option.split)

lemma fill_count: "length (filter (\<lambda>t. t \<noteq> InstructionType) types) = length params \<Longrightarrow>
    fill_arguments d i types params \<noteq> Inl (JavaFailure IndexOutOfBounds)"
  by (induction d i types params rule: fill_arguments.induct) (auto simp: rbind_eq_Inl unmarshal_in_bounds)

text \<open>The arguments are the instruction where it is asked for and the texts, in order, elsewhere.\<close>

lemma fill_correct: "fill_arguments d i types params = Inr args \<Longrightarrow>
    length (filter (\<lambda>t. t \<noteq> InstructionType) types) = length params \<Longrightarrow>
    list_all2 (\<lambda>t a. t = InstructionType \<longrightarrow> a = ArgInstruction i) types args \<and>
    list_all2 (\<lambda>(t, a) p. unmarshalParam d p t = Inr a) (filter (\<lambda>(t, a). t \<noteq> InstructionType) (zip types args)) params"
  by (induction d i types params arbitrary: args rule: fill_arguments.induct) (auto simp: rbind_eq_Inr)

section \<open>Addresses\<close>

lemma java_split_join:
  assumes "ps \<noteq> []" and "list_all (\<lambda>p. c \<notin> set p) ps" and "last ps \<noteq> []"
  shows "java_split c (join_with [c] ps) = ps"
proof (cases "c \<in> set (join_with [c] ps)")
  case True
  obtain qs q where q: "ps = qs @ [q]" "q \<noteq> []" using assms(1,3) by (cases ps rule: rev_cases) auto
  then show ?thesis using True split_join [OF assms(1,2)] by (simp add: java_split_def)
next
  case False
  have "join_with [c] ps = hd (split_on c (join_with [c] ps))" using split_on_absent [OF False] by simp
  then show ?thesis using False split_join [OF assms(1,2)] split_on_absent [OF False] by (simp add: java_split_def)
qed

text \<open>Services without an underscore and renamed apps give fields of their own.\<close>

lemma field_names:
  assumes "genFieldName dep key = genFieldName dep' key'" and "CHR ''_'' \<notin> set key" and "CHR ''_'' \<notin> set key'"
  shows "key = key' \<and> appNameToClassName dep = appNameToClassName dep'"
proof -
  have "takeWhile (\<lambda>c. c \<noteq> CHR ''_'') (k @ CHR ''_'' # r) = k \<and> dropWhile (\<lambda>c. c \<noteq> CHR ''_'') (k @ CHR ''_'' # r) = CHR ''_'' # r"
    if "CHR ''_'' \<notin> set k" for k r using that by (induction k) auto
  moreover have "key @ CHR ''_'' # appNameToClassName dep = key' @ CHR ''_'' # appNameToClassName dep'"
    using assms(1) by (simp add: genFieldName_def)
  ultimately show ?thesis using assms(2,3) by (metis list.inject)
qed

lemma class_of_app: "appNameToClassName dep = appNameToClassName dep' \<Longrightarrow> genClassName simple dep = genClassName simple dep'"
  by (simp add: genClassName_def)

lemma updates_agree:
  "(\<forall>(k, v)\<in>set us. k = n \<longrightarrow> v = x) \<Longrightarrow> (n, x) \<in> set us \<or> map_of m n = Some x \<Longrightarrow> map_of (fold (\<lambda>(k, v). AList.update k v) us m) n = Some x"
proof (induction us arbitrary: m)
  case (Cons u us)
  obtain k v where u: "u = (k, v)" by fastforce
  have "(n, x) \<in> set us \<or> map_of (AList.update k v m) n = Some x"
    using Cons.prems by (auto simp: u update_conv')
  moreover have "\<forall>(k, v)\<in>set us. k = n \<longrightarrow> v = x" using Cons.prems by simp
  ultimately show ?case by (simp add: u Cons.IH)
qed simp

definition ref_updates :: "string list \<Rightarrow> (string \<times> string) list \<Rightarrow> (string \<times> string) list" where
  "ref_updates deps interfaces = concat (map (\<lambda>dep. map (\<lambda>(key, c). (genFieldName dep key, genClassName c dep)) interfaces) deps)"

lemma ref_fields_updates: "genDubboRefFields deps interfaces = fold (\<lambda>(k, v). AList.update k v) (ref_updates deps interfaces) []"
proof -
  have one: "fold (\<lambda>(key, c). AList.update (genFieldName dep key) (genClassName c dep)) interfaces m =
      fold (\<lambda>(k, v). AList.update k v) (map (\<lambda>(key, c). (genFieldName dep key, genClassName c dep)) interfaces) m" for dep m
    by (induction interfaces arbitrary: m) auto
  have "fold (\<lambda>dep. fold (\<lambda>(key, c). AList.update (genFieldName dep key) (genClassName c dep)) interfaces) deps m =
      fold (\<lambda>(k, v). AList.update k v) (ref_updates deps interfaces) m" for m
    by (induction deps arbitrary: m) (simp_all add: ref_updates_def one)
  then show ?thesis by (simp add: genDubboRefFields_def)
qed

lemma field_found:
  assumes "dep \<in> set deps" and "(key, c) \<in> set interfaces" and "distinct (map fst interfaces)"
    and "list_all (\<lambda>(k, _). CHR ''_'' \<notin> set k) interfaces"
  shows "map_of (genDubboRefFields deps interfaces) (genFieldName dep key) = Some (genClassName c dep)"
  unfolding ref_fields_updates
proof (rule updates_agree)
  have same: "genClassName c' dep' = genClassName c dep" if "(key', c') \<in> set interfaces" "genFieldName dep' key' = genFieldName dep key" for dep' key' c'
  proof -
    have "CHR ''_'' \<notin> set key" "CHR ''_'' \<notin> set key'" using assms(2,4) that(1) by (auto simp: list_all_iff)
    from field_names [OF that(2) this(2,1)] have "key' = key" "appNameToClassName dep' = appNameToClassName dep" by simp_all
    moreover from this(1) have "c' = c" using assms(2,3) that(1) by (metis eq_key_imp_eq_value)
    ultimately show ?thesis by (simp add: genClassName_def)
  qed
  then show "\<forall>(k, v)\<in>set (ref_updates deps interfaces). k = genFieldName dep key \<longrightarrow> v = genClassName c dep"
    by (auto simp: ref_updates_def)
  show "(genFieldName dep key, genClassName c dep) \<in> set (ref_updates deps interfaces) \<or> map_of [] (genFieldName dep key) = Some (genClassName c dep)"
    using assms(1,2) by (force simp: ref_updates_def)
qed

text \<open>
  C23. A Dubbo address reaches the method it names: for an app the server depends on and a
  service there is a template for, \<open>app/service/method/texts\<close> is resolved to the generated
  class of that service and app, and to a method of that name with as many parameters besides
  the instruction as there are texts; the instruction is passed where it is asked for and
  the texts, in order, elsewhere.
\<close>
theorem dubbo_address_resolved:
  assumes "dep \<in> set deps" and "(key, c) \<in> set interfaces" and "distinct (map fst interfaces)"
    and "list_all (\<lambda>(k, _). CHR ''_'' \<notin> set k) interfaces" and "ref_fields d = genDubboRefFields deps interfaces"
    and "list_all (\<lambda>p. CHR ''/'' \<notin> set p) (dep # key # name # texts)" and "texts \<noteq> []" and "last texts \<noteq> []"
    and "\<not> bracketed (join_with ''/'' texts)"
    and "resolve d i (Some (join_with ''/'' (dep # key # name # texts))) = Inr (field, called, args)"
  shows "field = genFieldName dep key \<and> called = name \<and> (\<exists>m\<in>set (methods_of d (genClassName c dep)). fits name texts m \<and>
    list_all2 (\<lambda>t a. t = InstructionType \<longrightarrow> a = ArgInstruction i) (param_types m) args \<and>
    list_all2 (\<lambda>(t, a) p. unmarshalParam d p t = Inr a) (filter (\<lambda>(t, a). t \<noteq> InstructionType) (zip (param_types m) args)) texts)"
proof -
  have path: "java_split CHR ''/'' (join_with ''/'' (dep # key # name # texts)) = dep # key # name # texts"
    using assms(6-8) by (intro java_split_join) simp_all
  have "java_split CHR ''/'' (join_with ''/'' texts) = texts" using assms(6-8) by (intro java_split_join) simp_all
  then have params: "params_of d (join_with ''/'' texts) = Inr texts" using assms(9) by (simp add: params_of_def)
  have same: "genFieldName (appNameToClassName dep) key = genFieldName dep key"
    by (simp add: genFieldName_def appNameToClassName_def comp_def)
  obtain m ms where m: "filter (fits name texts) (methods_of d (genClassName c dep)) = m # ms"
    and f: "rbind (fill_arguments d i (param_types m) texts) (\<lambda>args. Inr (genFieldName dep key, method_name m, args)) = Inr (field, called, args)"
    using assms(10) field_found [OF assms(1-4)]
    by (cases "filter (fits name texts) (methods_of d (genClassName c dep))")
      (simp_all add: resolve_def path params same assms(5) Let_def del: join_with.simps)
  have "m \<in> set (filter (fits name texts) (methods_of d (genClassName c dep)))" unfolding m by simp
  then have "m \<in> set (methods_of d (genClassName c dep))" "fits name texts m" by simp_all
  moreover from this(2) have "method_name m = name" "length (filter (\<lambda>t. t \<noteq> InstructionType) (param_types m)) = length texts"
    by (simp_all add: fits_def)
  moreover from f have "fill_arguments d i (param_types m) texts = Inr args" "field = genFieldName dep key" "called = method_name m"
    by (auto simp: rbind_eq_Inr)
  ultimately show ?thesis using fill_correct by blast
qed

section \<open>Errors\<close>

lemma fill_errors: "fill_arguments d i types params = Inl e \<Longrightarrow> \<exists>j. e = JavaFailure j"
  by (induction d i types params rule: fill_arguments.induct) (auto simp: rbind_eq_Inl unmarshalParam_def split: option.splits if_splits)

lemma params_errors: "params_of d s = Inl e \<Longrightarrow> \<exists>j. e = JavaFailure j"
  by (auto simp: params_of_def split: if_splits sum.splits)

lemma method_errors:
  assumes "(case ms of [] \<Rightarrow> Inl (JavaFailure j) | m # _ \<Rightarrow> rbind (fill_arguments d i (param_types m) params) (\<lambda>args. Inr (f, method_name m, args))) = Inl e"
  shows "\<exists>j. e = JavaFailure j"
  using assms fill_errors by (cases ms) (auto simp: rbind_eq_Inl)

lemma resolve_errors:
  assumes "resolve d i address = Inl e"
  shows "\<exists>j. e = JavaFailure j"
proof (cases address)
  case (Some a)
  with assms show ?thesis
    by (simp add: resolve_def Let_def rbind_eq_Inl split: option.split_asm if_split_asm)
      (blast, blast, elim disjE exE conjE, erule params_errors, erule method_errors)
qed (use assms in \<open>auto simp: resolve_def\<close>)

text \<open>
  What an error is answered with: the status by kind, \<open>None\<close> for a code of an \<open>RpcException\<close> this
  version knows nothing of, and the message.
\<close>

definition dubbo_status :: "dubbo_parts \<Rightarrow> dubbo_error \<Rightarrow> string option" where
  "dubbo_status d e = (case e of
      RpcFailure t k \<Rightarrow> map_of [(0, ''DUBBO_UNKNOWN''), (1, ''DUBBO_NETWORK''), (2, ''DUBBO_TIMEOUT''), (3, ''DUBBO_BIZ''),
        (4, ''DUBBO_FORBIDDEN''), (5, ''DUBBO_SERIALIZATION'')] k
    | Reflected _ \<Rightarrow> Some ''InvocationTargetException''
    | JavaFailure j \<Rightarrow> Some (class_of d j))"

definition dubbo_message :: "dubbo_parts \<Rightarrow> dubbo_error \<Rightarrow> string option" where
  "dubbo_message d e = (case e of RpcFailure t k \<Rightarrow> t | Reflected _ \<Rightarrow> None | JavaFailure j \<Rightarrow> message_of d j)"

lemma known_codes: "k < 6 \<Longrightarrow> dubbo_status d (RpcFailure t k) = Some (''DUBBO_'' @ codeToStatus ! k)"
proof -
  assume "k < 6"
  then have "k = 0 \<or> k = 1 \<or> k = 2 \<or> k = 3 \<or> k = 4 \<or> k = 5" by arith
  then show ?thesis by (elim disjE) (simp_all add: dubbo_status_def codeToStatus_def)
qed

lemma error_answer: "error_response d (Reflected e) ats = (case dubbo_status d e of
    Some status \<Rightarrow> Inr \<lparr>resp_headers = ats, resp_result = text_of (dubbo_message d e), resp_status = Some status\<rparr>
  | None \<Rightarrow> Inl IndexOutOfBounds)"
proof (cases e)
  case (RpcFailure t k)
  show ?thesis
  proof (cases "k < 6")
    case True
    then have "k < length codeToStatus" by (simp add: codeToStatus_def)
    then show ?thesis using True by (simp add: RpcFailure known_codes dubbo_message_def)
  next
    case False
    then have "\<not> k < length codeToStatus" "dubbo_status d e = None" by (simp_all add: codeToStatus_def dubbo_status_def RpcFailure)
    then show ?thesis by (simp add: RpcFailure)
  qed
qed (simp_all add: dubbo_status_def dubbo_message_def text_of_def)

text \<open>
  C24. What an invocation answers, for an instruction that can be logged and a node with
  headers: whatever is wrong with the address is answered with the class of the exception as
  status and its message; a call that returns is answered with its value and \<open>OK\<close>; an error of
  the call is unwrapped and answered with its message and its kind, which is \<open>DUBBO_\<close> and the
  name of the code for an \<open>RpcException\<close> and the class for any other; only an \<open>RpcException\<close> with a
  code from 6 on is not answered at all: the invocation throws.
\<close>
theorem dubbo_errors_answered:
  assumes "currentNode i = Some node" and "log_request (logged_form d) i = Inr ()" and "node_headers node = Some hs"
    and "ats = fold (\<lambda>(k, v). AList.update k v) hs (attachments s)"
  shows "case resolve d i (node_call node) of
      Inl e \<Rightarrow> (\<exists>j. e = JavaFailure j \<and> fst (dubbo_invoke d i ctx s) =
        Inr \<lparr>resp_headers = if ats = [] then server_attachments s else [], resp_result = text_of (message_of d j), resp_status = Some (class_of d j)\<rparr>)
    | Inr (field, name, args) \<Rightarrow> fst (dubbo_invoke d i ctx s) = (case remote_call d field name args ats of
          (Inr v, back) \<Rightarrow> Inr \<lparr>resp_headers = back, resp_result = v, resp_status = Some ''OK''\<rparr>
        | (Inl e, back) \<Rightarrow> (case dubbo_status d e of
            Some status \<Rightarrow> Inr \<lparr>resp_headers = back, resp_result = text_of (dubbo_message d e), resp_status = Some status\<rparr>
          | None \<Rightarrow> Inl IndexOutOfBounds))"
proof (cases "resolve d i (node_call node)")
  case (Inl e)
  then obtain j where "e = JavaFailure j" using resolve_errors by blast
  with Inl show ?thesis by (simp add: dubbo_invoke_def assms Let_def)
next
  case (Inr p)
  then show ?thesis
    by (simp add: dubbo_invoke_def assms(1-3) assms(4) [symmetric] Let_def error_answer split: prod.split sum.split)
qed

section \<open>An example\<close>

text \<open>One service with two methods \<open>echo\<close>, two apps, digits as numbers.\<close>

definition demo_dubbo :: dubbo_parts where
  "demo_dubbo = \<lparr>methods_of = \<lambda>c. [\<lparr>method_name = ''echo'', param_types = [OtherType ''Integer'', InstructionType]\<rparr>,
       \<lparr>method_name = ''echo'', param_types = [OtherType ''Integer'', OtherType ''Integer'', InstructionType]\<rparr>],
     ref_fields = genDubboRefFields [''b-1'', ''c''] [([], ''DubboService'')],
     read_value = \<lambda>s t. if list_all is_digit s then Some (JNum s) else None, read_list = \<lambda>s. Inl (IllegalState s),
     remote_call = \<lambda>f n as at. (Inr (JStr n), []), message_of = \<lambda>e. None, class_of = \<lambda>e. ''Exception'', logged_form = usual_form\<rparr>"

definition dubbo_instruction :: "string \<Rightarrow> (string \<times> string) list \<Rightarrow> Instruction" where
  "dubbo_instruction address hs = \<lparr>inst_trace = [new_node\<lparr>node_call := Some address, node_by := ''dubbo'', node_headers := Some hs\<rparr>], inst_times = 1,
     inst_threads = 1, inst_qps = 0, inst_propagateHeaders = None, inst_collectBy = ''list'', inst_traceNodeTmpl = [], inst_log = True, inst_rr = []\<rparr>"

definition idle_dubbo :: dubbo_state where
  "idle_dubbo = \<lparr>attachments = [], rendering = None, server_attachments = [], dubbo_sent = []\<rparr>"

theorem dubbo_address_resolved_witness:
  "resolve demo_dubbo (dubbo_instruction [] []) (Some ''b-1//echo/1/2'') =
     Inr (''gen_dubbo_b_1'', ''echo'', [ArgValue (JNum ''1''), ArgValue (JNum ''2''), ArgInstruction (dubbo_instruction [] [])]) \<and>
   (\<exists>m\<in>set (methods_of demo_dubbo (genClassName ''DubboService'' ''b-1'')). fits ''echo'' [''1'', ''2''] m)"
proof -
  let ?i = "dubbo_instruction [] []" and ?is = "[([], ''DubboService'')]"
  have r: "resolve demo_dubbo ?i (Some (join_with ''/'' (''b-1'' # [] # ''echo'' # [''1'', ''2'']))) =
      Inr (''gen_dubbo_b_1'', ''echo'', [ArgValue (JNum ''1''), ArgValue (JNum ''2''), ArgInstruction ?i])"
    by code_simp
  have h: "''b-1'' \<in> set [''b-1'', ''c'']" "([], ''DubboService'') \<in> set ?is" "distinct (map fst ?is)"
    "list_all (\<lambda>(k, _). CHR ''_'' \<notin> set k) ?is" "ref_fields demo_dubbo = genDubboRefFields [''b-1'', ''c''] ?is"
    "list_all (\<lambda>p. CHR ''/'' \<notin> set p) (''b-1'' # [] # ''echo'' # [''1'', ''2''])" "[''1'', ''2''] \<noteq> []" "last [''1'', ''2''] \<noteq> []"
    "\<not> bracketed (join_with ''/'' [''1'', ''2''])"
    by (simp_all add: demo_dubbo_def bracketed_def)
  have "join_with ''/'' (''b-1'' # [] # ''echo'' # [''1'', ''2'']) = ''b-1//echo/1/2''" by simp
  with r dubbo_address_resolved [OF h r] show ?thesis by metis
qed

text \<open>A service that is never reached in time, and an address with too few parts.\<close>

definition late_dubbo :: dubbo_parts where
  "late_dubbo = demo_dubbo\<lparr>remote_call := \<lambda>f n as at. (Inl (RpcFailure (Some ''too late'') 2), [])\<rparr>"

theorem dubbo_errors_answered_witness:
  "fst (dubbo_invoke late_dubbo (dubbo_instruction ''c//echo/1'' []) new_context idle_dubbo) =
     Inr \<lparr>resp_headers = [], resp_result = JStr ''too late'', resp_status = Some ''DUBBO_TIMEOUT''\<rparr> \<and>
   fst (dubbo_invoke demo_dubbo (dubbo_instruction ''b-1/echo'' []) new_context idle_dubbo) =
     Inr \<lparr>resp_headers = [], resp_result = JNull, resp_status = Some ''Exception''\<rparr>"
proof -
  have n: "currentNode (dubbo_instruction a []) = Some (new_node\<lparr>node_call := Some a, node_by := ''dubbo'', node_headers := Some []\<rparr>)"
    "node_headers (new_node\<lparr>node_call := Some a, node_by := ''dubbo'', node_headers := Some []\<rparr>) = Some []" for a
    by (simp_all add: currentNode_def dubbo_instruction_def)
  have l: "log_request (logged_form late_dubbo) (dubbo_instruction ''c//echo/1'' []) = Inr ()"
    "log_request (logged_form demo_dubbo) (dubbo_instruction ''b-1/echo'' []) = Inr ()" by code_simp+
  have r: "resolve late_dubbo (dubbo_instruction ''c//echo/1'' []) (Some ''c//echo/1'') =
      Inr (''gen_dubbo_c'', ''echo'', [ArgValue (JNum ''1''), ArgInstruction (dubbo_instruction ''c//echo/1'' [])])"
    "resolve demo_dubbo (dubbo_instruction ''b-1/echo'' []) (Some ''b-1/echo'') = Inl (JavaFailure IndexOutOfBounds)" by code_simp+
  have c: "remote_call late_dubbo f m as ats = (Inl (RpcFailure (Some ''too late'') 2), [])" for f m as ats by (simp add: late_dubbo_def)
  have "fst (dubbo_invoke late_dubbo (dubbo_instruction ''c//echo/1'' []) new_context idle_dubbo) =
     Inr \<lparr>resp_headers = [], resp_result = JStr ''too late'', resp_status = Some ''DUBBO_TIMEOUT''\<rparr>"
    using dubbo_errors_answered [OF n(1) l(1) n(2) refl, of new_context idle_dubbo] r(1)
    by (simp add: c dubbo_status_def dubbo_message_def text_of_def)
  moreover have "fst (dubbo_invoke demo_dubbo (dubbo_instruction ''b-1/echo'' []) new_context idle_dubbo) =
     Inr \<lparr>resp_headers = [], resp_result = JNull, resp_status = Some ''Exception''\<rparr>"
    using dubbo_errors_answered [OF n(1) l(2) n(2) refl, of new_context idle_dubbo] r(2)
    by (simp add: idle_dubbo_def text_of_def demo_dubbo_def)
  ultimately show ?thesis by blast
qed

text \<open>The headers of a call that could not be resolved go out with the next one of the thread.\<close>

lemma unresolved_call_leaks:
  "dubbo_sent (snd (dubbo_invoke demo_dubbo (dubbo_instruction ''c//echo/1'' []) new_context
     (snd (dubbo_invoke demo_dubbo (dubbo_instruction ''c//unknown/1'' [(''token'', ''1'')]) new_context idle_dubbo)))) =
     [(''gen_dubbo_c'', ''echo'', [(''token'', ''1'')])]"
  by code_simp

end
