(* ===== verification/DubboServerJava.thy ===== *)
theory DubboServerJava
  imports DubboInvokerJava ServiceProps
begin

text \<open>
  The other end of a Dubbo call: \<open>assist/RPCControllerAspect.java\<close> around the methods of
  \<open>dubbo/tmpl/DubboServiceImpl.java\<close>, and a call from invoker to aspect. Jackson's writer is an
  argument, and so is what calls made by the execution do to the attachments of the thread.
\<close>

section \<open>The aspect\<close>

text \<open>\<open>seen\<close>: the local variable \<open>instruction\<close>. The context is the object the thread refers to.\<close>

record entry_state =
  thread :: dubbo_state
  running :: run_state
  seen :: "Instruction option"

definition on_thread :: "(dubbo_state \<Rightarrow> dubbo_state) \<Rightarrow> (entry_state, unit) stm" where
  "on_thread f s = (Inr (), s\<lparr>thread := f (thread s)\<rparr>)"

definition on_rendering :: "(RenderingContext \<Rightarrow> RenderingContext) \<Rightarrow> (entry_state, unit) stm" where
  "on_rendering f = on_thread (\<lambda>th. th\<lparr>rendering := map_option f (rendering th)\<rparr>)"

definition param_text :: "(jobj \<Rightarrow> java_error + string) \<Rightarrow> dubbo_arg \<Rightarrow> java_error + string" where
  "param_text write a = (case a of
      ArgInstruction i \<Rightarrow> Inr ''<Instruction>''
    | ArgText t \<Rightarrow> Inr t
    | ArgValue v \<Rightarrow> (case v of JStr t \<Rightarrow> Inr t | _ \<Rightarrow> write v))"

primrec put_arguments :: "(jobj \<Rightarrow> java_error + string) \<Rightarrow> nat \<Rightarrow> dubbo_arg list \<Rightarrow> (entry_state, unit) stm" where
  "put_arguments write k [] = jret ()"
| "put_arguments write k (a # as) =
     jbind (\<lambda>s. (Inr (), case a of ArgInstruction i \<Rightarrow> s\<lparr>seen := Some i\<rparr> | _ \<Rightarrow> s)) (\<lambda>_.
     jbind (jlift (param_text write a)) (\<lambda>t.
     jbind (on_rendering (\<lambda>c. c\<lparr>request_params := AList.update (nat_str k) t (request_params c)\<rparr>)) (\<lambda>_.
     put_arguments write (Suc k) as)))"

text \<open>A method of the service; each has one parameter for the instruction.\<close>

fun instruction_argument :: "dubbo_arg list \<Rightarrow> Instruction option" where
  "instruction_argument [] = None"
| "instruction_argument (ArgInstruction i # as) = Some i"
| "instruction_argument (a # as) = instruction_argument as"

definition service_method :: "server \<Rightarrow> (dubbo_state \<Rightarrow> dubbo_state) \<Rightarrow> dubbo_arg list \<Rightarrow> (entry_state, jobj) stm" where
  "service_method srv calls args s = (case (instruction_argument args, rendering (thread s)) of
      (Some i, Some c) \<Rightarrow> (case execute srv ((running s)\<lparr>instruction := i, the_context := c\<rparr>) of
          (r, rs) \<Rightarrow> (r, s\<lparr>thread := calls ((thread s)\<lparr>rendering := Some (the_context rs)\<rparr>), running := rs, seen := Some (instruction rs)\<rparr>))
    | _ \<Rightarrow> (Inl NullPointer, s))"

definition leave :: "(entry_state, unit) stm" where
  "leave = jbind (on_thread (\<lambda>th. th\<lparr>rendering := None\<rparr>)) (\<lambda>_ s. case seen s of
      None \<Rightarrow> (Inr (), s)
    | Some i \<Rightarrow> (case currentNode i of
          None \<Rightarrow> (Inl NullPointer, s)
        | Some node \<Rightarrow> on_thread (\<lambda>th. th\<lparr>server_attachments :=
            fold (\<lambda>(k, v). AList.update k v) (node_responseHeaders node) (server_attachments th)\<rparr>) s))"

definition handleDubboRequest ::
  "server \<Rightarrow> (jobj \<Rightarrow> java_error + string) \<Rightarrow> (dubbo_state \<Rightarrow> dubbo_state) \<Rightarrow> dubbo_arg list \<Rightarrow> (entry_state, jobj) stm" where
  "handleDubboRequest srv write calls args =
     jbind (on_thread (\<lambda>th. th\<lparr>rendering := Some new_context\<rparr>)) (\<lambda>_. jfinally
       (jbind (\<lambda>s. on_rendering (\<lambda>c. c\<lparr>requestHeaders := map_option (fold (\<lambda>(k, v). AList.update k v) (attachments (thread s))) (requestHeaders c)\<rparr>) s) (\<lambda>_.
        jbind (put_arguments write 0 args) (\<lambda>_.
        service_method srv calls args)))
       leave)"

section \<open>What an entry does\<close>

text \<open>Whatever the arguments are and whatever is thrown, the thread is left without a context.\<close>

lemma context_removed: "rendering (thread (snd (handleDubboRequest srv write calls args s))) = None"
  by (simp add: handleDubboRequest_def leave_def on_thread_def jfinally_def jbind_def split: prod.split sum.split option.split)

definition dubbo_context :: "(string \<times> string) list \<Rightarrow> string list \<Rightarrow> RenderingContext" where
  "dubbo_context hs ts = new_context\<lparr>requestHeaders := Some hs, request_params := zip (map nat_str [0..<length ts]) ts\<rparr>"

definition last_seen :: "dubbo_arg list \<Rightarrow> Instruction option \<Rightarrow> Instruction option" where
  "last_seen = fold (\<lambda>a x. case a of ArgInstruction i \<Rightarrow> Some i | _ \<Rightarrow> x)"

lemma put_argument:
  "param_text write a = Inr t \<Longrightarrow> rendering (thread s) = Some c \<Longrightarrow> put_arguments write k (a # args) s =
    put_arguments write (Suc k) args (s\<lparr>thread := (thread s)\<lparr>rendering := Some (c\<lparr>request_params :=
      AList.update (nat_str k) t (request_params c)\<rparr>)\<rparr>, seen := last_seen [a] (seen s)\<rparr>)"
  by (cases a; cases s) (simp_all add: jbind_def on_rendering_def on_thread_def last_seen_def)

lemma put_arguments_run:
  "list_all2 (\<lambda>a t. param_text write a = Inr t) args ts \<Longrightarrow> rendering (thread s) = Some c \<Longrightarrow>
    fst ` set (request_params c) \<subseteq> nat_str ` {..<k} \<Longrightarrow>
    put_arguments write k args s = (Inr (), s\<lparr>thread := (thread s)\<lparr>rendering := Some (c\<lparr>request_params :=
      request_params c @ zip (map nat_str [k..<k + length ts]) ts\<rparr>)\<rparr>, seen := last_seen args (seen s)\<rparr>)"
proof (induction args arbitrary: ts k s c)
  case Nil
  then show ?case by (simp add: last_seen_def)
next
  case (Cons a args)
  then obtain t ts' where ts: "ts = t # ts'" "param_text write a = Inr t" "list_all2 (\<lambda>a t. param_text write a = Inr t) args ts'"
    by (auto simp: list_all2_Cons1)
  let ?c = "c\<lparr>request_params := request_params c @ [(nat_str k, t)]\<rparr>"
  have u: "AList.update (nat_str k) t (request_params c) = request_params c @ [(nat_str k, t)]"
  proof -
    have "nat_str k \<notin> nat_str ` {..<k}" by auto
    with Cons.prems(3) have "nat_str k \<notin> fst ` set (request_params c)" by blast
    then show ?thesis using add_new [of "[(nat_str k, t)]" "request_params c"] by simp
  qed
  have k: "[k..<Suc (k + length ts')] = k # [Suc k..<Suc (k + length ts')]" by (simp add: upt_rec)
  have c: "fst ` set (request_params ?c) \<subseteq> nat_str ` {..<Suc k}" using Cons.prems(3) by auto
  let ?u = "s\<lparr>thread := (thread s)\<lparr>rendering := Some ?c\<rparr>, seen := last_seen [a] (seen s)\<rparr>"
  have "put_arguments write (Suc k) args ?u = (Inr (), ?u\<lparr>thread := (thread ?u)\<lparr>rendering := Some (?c\<lparr>request_params :=
      request_params ?c @ zip (map nat_str [Suc k..<Suc k + length ts']) ts'\<rparr>)\<rparr>, seen := last_seen args (seen ?u)\<rparr>)"
    by (rule Cons.IH [OF ts(3) _ c]) simp
  moreover have "last_seen args (last_seen [a] x) = last_seen (a # args) x" for x by (simp add: last_seen_def)
  ultimately show ?case unfolding put_argument [OF ts(2) Cons.prems(2)] u by (simp add: k ts(1) del: upt_Suc put_arguments.simps)
qed

lemma last_seen_instruction: "instruction_argument as = None \<Longrightarrow> last_seen (as @ [ArgInstruction i]) x = Some i"
  by (induction as arbitrary: x rule: instruction_argument.induct) (simp_all add: last_seen_def)

lemma instruction_argument_last: "instruction_argument as = None \<Longrightarrow> instruction_argument (as @ [ArgInstruction i]) = Some i"
  by (induction as rule: instruction_argument.induct) simp_all

lemma entry_run:
  assumes "instruction_argument as = None" and "list_all2 (\<lambda>a t. param_text write a = Inr t) as ts"
    and "distinct (map fst (attachments (thread s)))"
    and "execute srv ((running s)\<lparr>instruction := i, the_context := dubbo_context (attachments (thread s)) (ts @ [''<Instruction>''])\<rparr>) = (r, rs)"
    and "currentNode (instruction rs) \<noteq> None"
  shows "\<exists>th. handleDubboRequest srv write calls (as @ [ArgInstruction i]) s =
    (r, s\<lparr>thread := th\<lparr>rendering := None, server_attachments := fold (\<lambda>(k, v). AList.update k v) (response_headers_of rs) (server_attachments th)\<rparr>,
      running := rs, seen := Some (instruction rs)\<rparr>)"
proof -
  let ?ts = "ts @ [''<Instruction>'']"
  let ?th = "(thread s)\<lparr>rendering := Some (new_context\<lparr>requestHeaders := Some (attachments (thread s))\<rparr>)\<rparr>"
  have hs: "fold (\<lambda>(k, v). AList.update k v) (attachments (thread s)) [] = attachments (thread s)"
    using add_new [OF assms(3), of "[]"] by simp
  have all: "list_all2 (\<lambda>a t. param_text write a = Inr t) (as @ [ArgInstruction i]) ?ts"
    using assms(2) by (simp add: list_all2_appendI param_text_def)
  have put: "put_arguments write 0 (as @ [ArgInstruction i]) (s\<lparr>thread := ?th\<rparr>) =
      (Inr (), s\<lparr>thread := (thread s)\<lparr>rendering := Some (dubbo_context (attachments (thread s)) ?ts)\<rparr>, seen := Some i\<rparr>)"
    using put_arguments_run [OF all, of "s\<lparr>thread := ?th\<rparr>" "new_context\<lparr>requestHeaders := Some (attachments (thread s))\<rparr>" 0]
    by (simp add: last_seen_instruction [OF assms(1)] dubbo_context_def new_context_def del: upt_Suc)
  obtain node where node: "currentNode (instruction rs) = Some node" using assms(5) by auto
  let ?calls = "calls ((thread s)\<lparr>rendering := Some (the_context rs)\<rparr>)"
  have "service_method srv calls (as @ [ArgInstruction i]) (s\<lparr>thread := (thread s)\<lparr>rendering := Some (dubbo_context (attachments (thread s)) ?ts)\<rparr>, seen := Some i\<rparr>) =
      (r, s\<lparr>thread := ?calls, running := rs, seen := Some (instruction rs)\<rparr>)"
    using assms(4) by (simp add: service_method_def instruction_argument_last [OF assms(1)])
  with put have "handleDubboRequest srv write calls (as @ [ArgInstruction i]) s =
    (r, s\<lparr>thread := ?calls\<lparr>rendering := None, server_attachments := fold (\<lambda>(k, v). AList.update k v) (response_headers_of rs) (server_attachments ?calls)\<rparr>,
      running := rs, seen := Some (instruction rs)\<rparr>)"
    by (simp add: handleDubboRequest_def leave_def on_thread_def on_rendering_def jfinally_def jbind_def hs new_context_def
        response_headers_of_def node split: sum.split)
  then show ?thesis by blast
qed

section \<open>From invoker to aspect\<close>

text \<open>
  What Dubbo does with a call: the entry finds the attachments of the client and Dubbo's \<open>own\<close>,
  and those left for the answer come back, with Dubbo's own as well (\<open>back\<close>). \<open>delivers\<close> relies on
  that for calls that return.
\<close>

definition with_own :: "(string \<times> string) list \<Rightarrow> (string \<times> string) list \<Rightarrow> (string \<times> string) list" where
  "with_own own ats = fold (\<lambda>(k, v). AList.update k v) own ats"

definition entry_answer :: "server \<Rightarrow> (jobj \<Rightarrow> java_error + string) \<Rightarrow> (dubbo_state \<Rightarrow> dubbo_state) \<Rightarrow> run_state \<Rightarrow>
    dubbo_arg list \<Rightarrow> (string \<times> string) list \<Rightarrow> (java_error + jobj) \<times> (string \<times> string) list" where
  "entry_answer srv write calls rs args found =
     (case handleDubboRequest srv write calls args \<lparr>thread = idle_dubbo\<lparr>attachments := found\<rparr>, running = rs, seen = None\<rparr> of
        (r, s) \<Rightarrow> (r, server_attachments (thread s)))"

definition delivers :: "dubbo_parts \<Rightarrow> server \<Rightarrow> (jobj \<Rightarrow> java_error + string) \<Rightarrow> (dubbo_state \<Rightarrow> dubbo_state) \<Rightarrow> run_state \<Rightarrow> string \<Rightarrow> string \<Rightarrow>
    (string \<times> string) list \<Rightarrow> (string \<times> string) list \<Rightarrow> bool" where
  "delivers d srv write calls rs field name own back \<longleftrightarrow> (\<forall>args sent v hs.
     entry_answer srv write calls rs args (with_own own sent) = (Inr v, hs) \<longrightarrow> remote_call d field name args sent = (Inr v, with_own back hs))"

lemma with_own_distinct: "distinct (map fst ats) \<Longrightarrow> distinct (map fst (with_own own ats))"
  unfolding with_own_def by (induction own arbitrary: ats) (auto simp: distinct_update)

lemma with_own_kept:
  assumes "distinct (map fst hs)" and "(k, x) \<in> set hs" and "k \<notin> fst ` set own"
  shows "map_of (with_own own (fold (\<lambda>(k, v). AList.update k v) hs ats)) k = Some x"
  unfolding with_own_def
proof (rule updates_agree)
  have "map_of (fold (\<lambda>(k, v). AList.update k v) hs ats) k = Some x"
    using assms(1,2) by (intro updates_agree) (auto dest: eq_key_imp_eq_value)
  then show "(k, x) \<in> set own \<or> map_of (fold (\<lambda>(k, v). AList.update k v) hs ats) k = Some x" ..
qed (use assms(3) in force)


section \<open>An example\<close>

definition digits_only :: "jobj \<Rightarrow> java_error + string" where
  "digits_only v = (case v of JNum t \<Rightarrow> Inr t | _ \<Rightarrow> Inl (IllegalState ''not a number''))"

definition echo_instruction :: Instruction where
  "echo_instruction = (demo_instruction 1)\<lparr>inst_traceNodeTmpl := ''{{header(x-env)}}{{param(0)}}'', inst_propagateHeaders := None,
     inst_trace := [new_node\<lparr>node_call := Some ''c//echo/7'', node_by := ''dubbo'', node_headers := Some [(''x-env'', ''dev'')],
       node_responseHeaders := [(''x-v'', ''2'')]\<rparr>]\<rparr>"

text \<open>Dubbo adds the name of the interface; a header of an earlier call was left over.\<close>

definition dubbo_keys :: "(string \<times> string) list" where
  "dubbo_keys = [(''interface'', ''DubboService'')]"

definition connected_dubbo :: dubbo_parts where
  "connected_dubbo = demo_dubbo\<lparr>remote_call := \<lambda>f n args sent.
     case entry_answer demo_server digits_only id (demo_state echo_instruction) args (with_own dubbo_keys sent) of
       (r, hs) \<Rightarrow> (map_sum JavaFailure id r, with_own [] hs)\<rparr>"

definition leftover_dubbo :: dubbo_state where
  "leftover_dubbo = idle_dubbo\<lparr>attachments := [(''token'', ''1''), (''x-env'', ''old'')]\<rparr>"

definition found_headers :: "(string \<times> string) list" where
  "found_headers = [(''token'', ''1''), (''x-env'', ''dev''), (''interface'', ''DubboService'')]"

definition echo_run :: "(java_error + jobj) \<times> run_state" where
  "echo_run = execute demo_server ((demo_state echo_instruction)\<lparr>instruction := echo_instruction,
     the_context := dubbo_context found_headers ([''7''] @ [''<Instruction>''])\<rparr>)"


end
