(* ===== verification/NetworkJava.thy ===== *)
theory NetworkJava
  imports HttpInvokerJava TemplateProps ServiceFrames
begin

text \<open>
  Servers that call each other over HTTP: the exchange of one server's \<open>HttpRemoteInvoker\<close> is
  the \<open>HttpController\<close> of the server the address belongs to, set up as
  \<open>PowerfulAutoConfiguration\<close> does. Name resolution, the servlet container and the state a
  server is in when a request arrives are arguments.
\<close>

section \<open>Servers and their exchange\<close>

text \<open>
  \<open>route\<close>: the server an address belongs to; \<open>request_of\<close>: what the container makes of a call;
  \<open>state_at\<close>: the random numbers and clock readings the server has used by then.
\<close>

record network =
  server_at :: "string \<Rightarrow> server"
  route :: "string \<Rightarrow> string option"
  request_of :: "http_call \<Rightarrow> http_request"
  state_at :: "string \<Rightarrow> nat \<Rightarrow> run_state"
  streams :: "string \<Rightarrow> nat \<Rightarrow> jvm"
  simple_form :: "Instruction \<Rightarrow> java_error + jobj"
  write_body :: "jobj \<Rightarrow> string"
  read_body :: "string \<Rightarrow> java_error + Instruction"

text \<open>\<open>powerful.setInvoker("http", http)\<close>\<close>

definition setInvoker :: "string \<Rightarrow> remote_invoker option \<Rightarrow> server \<Rightarrow> server" where
  "setInvoker protocol invoker srv = (case invoker of
      Some i \<Rightarrow> srv\<lparr>invokers := (invokers srv)(protocol := Some i)\<rparr>
    | None \<Rightarrow> srv)"

definition reply_of :: "http_answer \<Rightarrow> http_reply" where
  "reply_of a = \<lparr>reply_status = answer_status a, reply_body = answer_body a,
     reply_headers = map (\<lambda>(k, v). (k, [v])) (answer_headers a)\<rparr>"

text \<open>
  What a server answers to the \<open>k\<close>-th call, with the number of hops that may follow; a case
  of \<open>n\<close> nodes needs \<open>n\<close>.
\<close>

fun deliver_call :: "network \<Rightarrow> nat \<Rightarrow> nat \<Rightarrow> http_call \<Rightarrow> java_error + http_reply" where
  "deliver_call net 0 k c = Inl (LibraryFailure (call_url c))"
| "deliver_call net (Suc n) k c = (case route net (call_url c) of
      None \<Rightarrow> Inl (LibraryFailure (call_url c))
    | Some h \<Rightarrow>
        let srv = setInvoker ''dubbo'' None (setInvoker ''http'' (Some (http_invoke (streams net h) (simple_form net) (write_body net) (deliver_call net n))) (server_at net h))
        in Inr (reply_of (fst (case call_body c of
            Some i \<Rightarrow> http_execute srv i (request_of net c) (state_at net h k)
          | None \<Rightarrow> http_execute_get srv (read_body net) (request_of net c) (state_at net h k)))))"

definition networked :: "network \<Rightarrow> nat \<Rightarrow> string \<Rightarrow> server" where
  "networked net n h = setInvoker ''dubbo'' None (setInvoker ''http'' (Some (http_invoke (streams net h) (simple_form net) (write_body net) (deliver_call net n))) (server_at net h))"

lemma deliver_networked: "deliver_call net (Suc n) k c = (case route net (call_url c) of
      None \<Rightarrow> Inl (LibraryFailure (call_url c))
    | Some h \<Rightarrow> Inr (reply_of (fst (case call_body c of
            Some i \<Rightarrow> http_execute (networked net n h) i (request_of net c) (state_at net h k)
          | None \<Rightarrow> http_execute_get (networked net n h) (read_body net) (request_of net c) (state_at net h k)))))"
  unfolding deliver_call.simps networked_def Let_def ..

declare deliver_call.simps [simp del]

lemma networked_simps [simp]:
  "invokers (networked net n h) ''http'' = Some (http_invoke (streams net h) (simple_form net) (write_body net) (deliver_call net n))"
  "machine (networked net n h) = machine (server_at net h)"
  by (simp_all add: networked_def setInvoker_def)

declare render_loop.simps [simp del]

section \<open>Templates made of closed pieces\<close>

definition closed_piece :: "piece \<Rightarrow> bool" where
  "closed_piece p = (case p of
      Plain t \<Rightarrow> CHR ''{'' \<notin> set t
    | Expression e \<Rightarrow> e \<noteq> [] \<and> list_all (\<lambda>c. c \<noteq> CHR ''}'' \<and> \<not> line_terminator c) e)"

definition template_text :: "piece list \<Rightarrow> string" where
  "template_text ps = concat (map piece_text ps)"

lemma find_after_plain:
  "CHR ''{'' \<notin> set p \<Longrightarrow> find_expr (p @ s) = map_option (\<lambda>(b, e, r). (p @ b, e, r)) (find_expr s)"
proof (induction p)
  case Nil
  show ?case by (cases "find_expr s") auto
next
  case (Cons c p)
  then have "take 2 ((c # p) @ s) \<noteq> ''{{''" by auto
  with Cons show ?case by (cases "find_expr s") auto
qed

lemma find_closed:
  assumes "e \<noteq> []" and "list_all (\<lambda>c. c \<noteq> CHR ''}'' \<and> \<not> line_terminator c) e"
  shows "find_expr (''{{'' @ e @ ''}}'' @ s) = Some ([], e, s)"
proof -
  obtain c w where e: "e = c # w" using assms(1) by (cases e) auto
  have "until_close (w @ CHR ''}'' # CHR ''}'' # s) = Some (w, s)"
    using until_close_skip [of w "CHR ''}'' # CHR ''}'' # s"] assms(2) by (simp add: e)
  with assms(2) show ?thesis by (simp add: e)
qed

lemma render_after_plain:
  assumes "CHR ''{'' \<notin> set p"
  shows "render_loop vm ctx (p @ s) k = jbind (render_loop vm ctx s) (\<lambda>u. jret (p @ u)) k"
proof (cases "find_expr s")
  case None
  with find_after_plain [OF assms, of s] show ?thesis
    by (simp add: render_loop.simps [of vm ctx s] render_loop.simps [of vm ctx "p @ s"] jbind_def)
next
  case (Some m)
  obtain b e r where m: "m = (b, e, r)" by (cases m)
  with Some find_after_plain [OF assms, of s] show ?thesis
    by (simp add: render_loop.simps [of vm ctx s] render_loop.simps [of vm ctx "p @ s"] jbind_def split: prod.split sum.split)
qed

lemma render_closed:
  assumes "list_all closed_piece ps"
  shows "render_loop vm ctx (template_text ps @ s) k =
    jbind (run_pieces vm ctx ps) (\<lambda>t. jbind (render_loop vm ctx s) (\<lambda>u. jret (t @ u))) k"
  using assms
proof (induction ps arbitrary: k)
  case Nil
  show ?case by (simp add: template_text_def jbind_def split: prod.split sum.split)
next
  case (Cons p ps)
  then have IH: "render_loop vm ctx (template_text ps @ s) k' =
      jbind (run_pieces vm ctx ps) (\<lambda>t. jbind (render_loop vm ctx s) (\<lambda>u. jret (t @ u))) k'" for k'
    by (intro Cons.IH) (use Cons.prems in simp)
  show ?case
  proof (cases p)
    case (Plain t)
    with Cons.prems have "render_loop vm ctx (template_text (p # ps) @ s) k =
        jbind (render_loop vm ctx (template_text ps @ s)) (\<lambda>u. jret (t @ u)) k"
      using render_after_plain [of t] by (simp add: template_text_def closed_piece_def)
    also have "\<dots> = jbind (jbind (run_pieces vm ctx ps) (\<lambda>t. jbind (render_loop vm ctx s) (\<lambda>u. jret (t @ u)))) (\<lambda>u. jret (t @ u)) k"
      by (rule jbind_cong) (simp_all add: IH)
    finally show ?thesis by (simp add: Plain jbind_def split: prod.split sum.split)
  next
    case (Expression e)
    with Cons.prems have f: "find_expr (template_text (p # ps) @ s) = Some ([], e, template_text ps @ s)"
      using find_closed [of e "template_text ps @ s"] by (simp add: template_text_def closed_piece_def)
    have "render_loop vm ctx (template_text (p # ps) @ s) k =
        jbind (calc vm ctx e) (\<lambda>v. jbind (render_loop vm ctx (template_text ps @ s)) (\<lambda>u. jret (v @ u))) k"
      by (simp add: render_loop.simps [of vm ctx "template_text (p # ps) @ s"] f jbind_def split: prod.split sum.split)
    then show ?thesis by (simp add: Expression jbind_def IH split: prod.split sum.split)
  qed
qed

end
