(* ===== verification/ServiceChain.thy ===== *)
theory ServiceChain
  imports NetworkJava FrontServer
begin

text \<open>
  A case over several servers: if every node is healthy and can be reached, each server
  executes its node, hands the rest on, and the results come back joined by arrows, in the
  order of the nodes.
\<close>

declare render_loop.simps [simp del]

section \<open>Healthy nodes\<close>

text \<open>Nothing in the node makes its execution fail.\<close>

definition healthy_node :: "PowerTraceNode \<Rightarrow> bool" where
  "healthy_node node \<longleftrightarrow> node_code node = 200 \<and> node_headers node \<noteq> None \<and>
     (node_callTestMethod node = None \<or> node_callTestMethod node = Some 0) \<and>
     (case node_errorByPercent node of Some p \<Rightarrow> p \<le> 0 | None \<Rightarrow> False)"

definition plain :: "string \<Rightarrow> bool" where
  "plain s \<longleftrightarrow> CHR ''{'' \<notin> set s"

definition plain_headers :: "RenderingContext \<Rightarrow> bool" where
  "plain_headers ctx \<longleftrightarrow> (case requestHeaders ctx of Some hs \<Rightarrow> list_all (\<lambda>(k, v). plain v) hs | None \<Rightarrow> True)"

lemma render_plain: "plain s \<Longrightarrow> render_template vm ctx (Some s) k = (Inr (Some s), k)"
proof -
  assume "plain s"
  then have "s \<noteq> b @ ''{{'' @ r" for b r by (auto simp: plain_def)
  then show ?thesis by (rule plain_unchanged)
qed

lemma render_in_plain: "plain t \<Longrightarrow> render_in srv (Some t) s = (Inr (Some t), s)"
  by (simp add: render_in_def render_plain)

section \<open>The statements of a healthy execution\<close>

definition sound_state :: "run_state \<Rightarrow> bool" where
  "sound_state s \<longleftrightarrow> plain_headers (the_context s) \<and> (case currentNode (instruction s) of Some node \<Rightarrow> healthy_node node | None \<Rightarrow> False)"

text \<open>What they change: random numbers, clock, sleeps, header values, and headers of the first node.\<close>

definition undisturbed :: "run_state \<Rightarrow> run_state \<Rightarrow> bool" where
  "undisturbed s s' \<longleftrightarrow> response (the_context s') = response (the_context s) \<and>
     map node_responseHeaders (inst_trace (instruction s')) = map node_responseHeaders (inst_trace (instruction s)) \<and>
     tl (inst_trace (instruction s')) = tl (inst_trace (instruction s)) \<and>
     instruction s' = (instruction s)\<lparr>inst_trace := inst_trace (instruction s')\<rparr>"

definition goes :: "(run_state, unit) stm \<Rightarrow> bool" where
  "goes m \<longleftrightarrow> (\<forall>s. sound_state s \<longrightarrow> (\<exists>s'. m s = (Inr (), s') \<and> sound_state s' \<and> undisturbed s s'))"

lemma undisturbed_refl: "undisturbed s s"
  by (simp add: undisturbed_def)

lemma undisturbed_trans:
  assumes "undisturbed s t" and "undisturbed t u"
  shows "undisturbed s u"
proof -
  from assms have i: "instruction t = (instruction s)\<lparr>inst_trace := inst_trace (instruction t)\<rparr>"
    "instruction u = (instruction t)\<lparr>inst_trace := inst_trace (instruction u)\<rparr>" by (simp_all add: undisturbed_def)
  have "instruction u = (instruction s)\<lparr>inst_trace := inst_trace (instruction t)\<rparr>\<lparr>inst_trace := inst_trace (instruction u)\<rparr>"
    using i by metis
  then show ?thesis using assms by (simp add: undisturbed_def)
qed

lemma goesI: "(\<And>s. sound_state s \<Longrightarrow> \<exists>s'. m s = (Inr (), s') \<and> sound_state s' \<and> undisturbed s s') \<Longrightarrow> goes m"
  by (simp add: goes_def)

lemma goes_bind:
  assumes "goes m" and "goes m'"
  shows "goes (jbind m (\<lambda>_. m'))"
proof (rule goesI)
  fix s
  assume "sound_state s"
  with assms(1) obtain t where t: "m s = (Inr (), t)" "sound_state t" "undisturbed s t" unfolding goes_def by blast
  with assms(2) obtain u where u: "m' t = (Inr (), u)" "sound_state u" "undisturbed t u" unfolding goes_def by blast
  with t undisturbed_trans show "\<exists>s'. jbind m (\<lambda>_. m') s = (Inr (), s') \<and> sound_state s' \<and> undisturbed s s'"
    by (auto simp: jbind_def)
qed

lemma sound_stateE:
  assumes "sound_state s"
  obtains node rest where "inst_trace (instruction s) = node # rest" and "healthy_node node" and "plain_headers (the_context s)"
  using assms by (auto simp: sound_state_def currentNode_def split: list.splits)

lemma goes_propagate: "goes propagate_headers"
proof (rule goesI)
  fix s
  assume "sound_state s"
  then obtain node rest where n: "inst_trace (instruction s) = node # rest" "healthy_node node" "plain_headers (the_context s)"
    by (rule sound_stateE)
  have c: "currentNode (instruction s) = Some node" by (simp add: n(1) currentNode_def)
  have "\<exists>s'. on_node 0 (\<lambda>n. n\<lparr>node_headers := Some ((case node_headers n of Some hs \<Rightarrow> hs | None \<Rightarrow> []) @ new)\<rparr>) s = (Inr (), s') \<and>
      sound_state s' \<and> undisturbed s s'" for new
    using n by (simp add: on_node_def sound_state_def undisturbed_def currentNode_def healthy_node_def)
  moreover have "\<exists>s'. (Inr (), s) = (Inr () :: java_error + unit, s') \<and> sound_state s' \<and> undisturbed s s'" using \<open>sound_state s\<close> undisturbed_refl by blast
  ultimately show "\<exists>s'. propagate_headers s = (Inr (), s') \<and> sound_state s' \<and> undisturbed s s'"
    by (simp add: propagate_headers_def c Let_def split: option.split)
qed

lemma put_plain: "list_all (\<lambda>(k, v). plain v) hs \<Longrightarrow> plain t \<Longrightarrow> list_all (\<lambda>(k, v). plain v) (put_value k t hs)"
  by (auto simp: put_value_def list_all_iff split: if_splits)

lemma goes_render_keys: "list_all (\<lambda>(k, v). plain v) hs \<Longrightarrow> goes (render_header_keys srv hs)"
proof (induction hs)
  case Nil
  show ?case by (rule goesI) (auto intro: undisturbed_refl)
next
  case (Cons h hs)
  obtain k v where h: "h = (k, v)" by (cases h)
  define m where "m = (\<lambda>s. jbind (render_in srv (Some v)) (\<lambda>t. on_context (\<lambda>c. c\<lparr>requestHeaders :=
      map_option (put_value k (case t of Some x \<Rightarrow> x | None \<Rightarrow> [])) (requestHeaders c)\<rparr>)) s)"
  have v: "plain v" and hs: "goes (render_header_keys srv hs)" using Cons h by simp_all
  have "goes m"
  proof (rule goesI)
    fix s
    assume "sound_state s"
    then show "\<exists>s'. m s = (Inr (), s') \<and> sound_state s' \<and> undisturbed s s'"
      using render_in_plain [OF v] put_plain v
      by (auto simp: m_def jbind_def on_context_def sound_state_def undisturbed_def plain_headers_def split: option.splits)
  qed
  from goes_bind [OF this hs] have "goes (jbind m (\<lambda>_. render_header_keys srv hs))" .
  moreover have "render_header_keys srv (h # hs) = jbind m (\<lambda>_. render_header_keys srv hs)"
    by (rule ext) (simp add: h m_def jbind_def split: prod.split sum.split)
  ultimately show ?case by simp
qed

lemma goes_renderHeaders: "goes (renderHeaders srv)"
proof (rule goesI)
  fix s
  assume s: "sound_state s"
  show "\<exists>s'. renderHeaders srv s = (Inr (), s') \<and> sound_state s' \<and> undisturbed s s'"
  proof (cases "requestHeaders (the_context s)")
    case None
    with s undisturbed_refl show ?thesis by (auto simp: renderHeaders_def)
  next
    case (Some hs)
    with s have "list_all (\<lambda>(k, v). plain v) hs" by (simp add: sound_state_def plain_headers_def)
    from goes_render_keys [OF this] s show ?thesis by (simp add: goes_def renderHeaders_def Some)
  qed
qed

lemma goes_unchanged: "(\<And>s. sound_state s \<Longrightarrow> m s = (Inr (), s)) \<Longrightarrow> goes m"
  by (rule goesI) (auto intro: undisturbed_refl)

lemma goes_method: "goes (invokeTestMethod srv)"
  by (rule goes_unchanged) (auto simp: sound_state_def invokeTestMethod_def healthy_node_def split: option.splits)

lemma goes_delay: "goes (node_statement (delay srv))"
  by (rule goesI) (auto simp: sound_state_def node_statement_def delay_def sleep_def undisturbed_def split: option.splits)

lemma goes_percent: "goes (node_statement (errorByPercent srv))"
  by (rule goes_unchanged) (auto simp: sound_state_def node_statement_def errorByPercent_def healthy_node_def split: option.splits)

lemma goes_status: "goes (node_statement (status_code srv))"
  by (rule goes_unchanged) (auto simp: sound_state_def node_statement_def status_code_def healthy_node_def split: option.splits)

lemma goes_before: "goes (before_call srv)"
  unfolding before_call_def
  by (intro goes_bind goes_propagate goes_renderHeaders goes_method goes_delay goes_percent goes_status)

section \<open>The call of a healthy node\<close>

text \<open>A node that is called over HTTP, at an address and with queries taken as they are.\<close>

definition callable_node :: "PowerTraceNode \<Rightarrow> bool" where
  "callable_node node \<longleftrightarrow> healthy_node node \<and> numbers_ok node \<and> node_maps_ok node \<and> node_by node = ''http'' \<and>
     node_method node \<in> set (methods_with_body @ methods_without_body) \<and> list_all (\<lambda>(k, v). plain v) (node_queries node) \<and>
     (case node_call node of
        Some a \<Rightarrow> a \<noteq> [] \<and> plain a \<and> take (length ''dubbo://'') a \<noteq> ''dubbo://''
      | None \<Rightarrow> False)"

lemma callable_address:
  assumes "callable_node node"
  obtains a where "node_call node = Some a" and "a \<noteq> []" and "plain a" and "take (length ''dubbo://'') a \<noteq> ''dubbo://''"
  using assms unfolding callable_node_def by (cases "node_call node") auto

lemma render_plain_queries:
  "list_all (\<lambda>(k, v). plain v) qs \<Longrightarrow> render_queries vm ctx qs n = (Inr (map (\<lambda>(k, v). k @ ''='' @ v) qs), n)"
  by (induction qs arbitrary: n) (auto simp: jbind_def render_plain)

lemma request_headers_ok: "healthy_node node \<Longrightarrow> \<exists>hs. request_headers node = Inr hs"
  by (auto simp: healthy_node_def request_headers_def)

lemma callable_trace:
  assumes "list_all callable_node (inst_trace i)" and "inst_rr i = []" and "in_int (inst_times i)" "in_int (inst_threads i)" "in_int (inst_qps i)"
  shows "simple_instruction i" and "all_numbers_ok i"
  using assms by (auto simp: simple_instruction_def all_numbers_ok_def callable_node_def healthy_node_def list_all_iff)

text \<open>The call made for an instruction whose first node is callable.\<close>

definition query_texts :: "PowerTraceNode \<Rightarrow> string list" where
  "query_texts node = map (\<lambda>(k, v). k @ ''='' @ v) (node_queries node)"

definition call_for :: "network \<Rightarrow> Instruction \<Rightarrow> java_error + http_call" where
  "call_for net j = (case currentNode j of
      None \<Rightarrow> Inl NullPointer
    | Some node \<Rightarrow> rbind (request_headers node) (\<lambda>hs.
        http_call_of (simple_form net) (write_body net) node j hs (query_texts node)))"

lemma http_invoke_callable:
  assumes "inst_trace j = node # rest" and "callable_node node" and "simple_form net j = Inr v" and "call_for net j = Inr c"
  shows "http_invoke vms (simple_form net) (write_body net) exchange k j ctx = rbind (exchange k c) (\<lambda>r. Inr (fromHttp r))"
    and "call_body c = None \<or> call_body c = Some j"
proof -
  have n: "currentNode j = Some node" by (simp add: assms(1) currentNode_def)
  have q: "list_all (\<lambda>(k, v). plain v) (node_queries node)" using assms(2) by (simp add: callable_node_def)
  obtain hs where hs: "request_headers node = Inr hs" using request_headers_ok assms(2) by (auto simp: callable_node_def)
  have c: "http_call_of (simple_form net) (write_body net) node j hs (query_texts node) = Inr c"
    using assms(4) by (simp add: call_for_def n hs)
  have "log_request (simple_form net) j = Inr ()" by (simp add: log_request_def assms(3))
  then show "http_invoke vms (simple_form net) (write_body net) exchange k j ctx = rbind (exchange k c) (\<lambda>r. Inr (fromHttp r))"
    using c by (simp add: http_invoke_def n hs render_plain_queries [OF q] query_texts_def)
  show "call_body c = None \<or> call_body c = Some j"
    using c assms(3) by (auto simp: http_call_of_def split: if_splits)
qed

lemma node_call_same: "node_call n = c \<Longrightarrow> n\<lparr>node_call := c\<rparr> = n"
  by auto

lemma call_answers:
  assumes t: "inst_trace (instruction s) = node0 # node # rest" and "callable_node node"
    and inv: "invokers srv ''http'' = Some invoke" and n: "getNext (instruction s) = Some i"
    and r: "invoke (length (invocations s)) i (the_context s) = Inr reply"
  shows "call srv (getNext (instruction s)) s =
    (Inr (), s\<lparr>invocations := invocations s @ [i], the_context := (the_context s)\<lparr>response := Some reply\<rparr>\<rparr>)"
proof -
  obtain a where a: "node_call node = Some a" "a \<noteq> []" "plain a" "take (length ''dubbo://'') a \<noteq> ''dubbo://''"
    using callable_address [OF assms(2)] .
  have protocol: "node_by node = ''http''" using assms(2) by (simp add: callable_node_def)
  have i: "inst_trace i = node # rest" using n t by (auto simp: getNext_def)
  then have same: "i\<lparr>inst_trace := node # tl (inst_trace i)\<rparr> = i" by (cases i) simp
  have at: "inst_trace (instruction s) ! 1 = node" by (simp add: t)
  have on: "on_node 1 (\<lambda>n. n\<lparr>node_call := Some a\<rparr>) s = (Inr (), s)"
    using node_call_same [OF a(1)] t by (cases s, cases "instruction s") (simp add: on_node_def)
  have "invoke_next srv invoke i (Some a) s = (Inr (), s\<lparr>invocations := invocations s @ [i], the_context := (the_context s)\<lparr>response := Some reply\<rparr>\<rparr>)"
    unfolding invoke_next_def
    by (simp add: jbind_def render_in_plain [OF a(3)] on [simplified] a(2) at [simplified] same r on_context_def Let_def)
  then show ?thesis
    unfolding n call_split using i a(1,4) at inv
    by (simp add: currentNode_def protocol)
qed

section \<open>Templates of the chain\<close>

text \<open>A template that shows the same at a server whatever the request, up to the status of the answer below.\<close>

definition labels :: "jvm \<Rightarrow> piece list \<Rightarrow> (string option \<Rightarrow> string) \<Rightarrow> bool" where
  "labels vm ps label \<longleftrightarrow> (\<forall>ctx k r. response ctx = Some r \<longrightarrow> (\<exists>k'. run_pieces vm ctx ps k = (Inr (label (resp_status r)), k')))"

lemma render_arrow:
  assumes "response ctx = Some r" and "resp_result r = JStr b"
  shows "render_loop vm ctx '' -> {{resultBody()}}'' k = (Inr ('' -> '' @ b), k)"
proof -
  have "list_all closed_piece [Plain '' -> '', Expression ''resultBody()'']"
    by (simp add: closed_piece_def line_terminator_def)
  from render_closed [OF this, of vm ctx "[]" k]
  have e: "render_loop vm ctx '' -> {{resultBody()}}'' k =
      jbind (run_pieces vm ctx [Plain '' -> '', Expression ''resultBody()'']) (\<lambda>t. jbind (render_loop vm ctx []) (\<lambda>u. jret (t @ u))) k"
    by (simp add: template_text_def)
  have "match_function ''resultBody()'' = Some (''resultBody'', [])" by code_simp
  then have "calc vm ctx ''resultBody()'' k = (Inr b, k)"
    using assms by (simp add: calc_def exprFuncs_def split_params_def jbind_def)
  then show ?thesis unfolding e by (simp add: jbind_def render_loop.simps [of vm ctx "[]"])
qed

lemma render_label:
  assumes "labels vm ps label" and "list_all closed_piece ps" and "inst_traceNodeTmpl i = template_text ps"
    and "response ctx = Some r" and "2 \<le> length (inst_trace i) \<Longrightarrow> resp_result r = JStr b"
  shows "\<exists>k'. render_template vm ctx (Some (template i)) k =
    (Inr (Some (label (resp_status r) @ (if length (inst_trace i) < 2 then [] else '' -> '' @ b))), k')"
proof -
  obtain k' where k: "run_pieces vm ctx ps k = (Inr (label (resp_status r)), k')"
    using assms(1,4) unfolding labels_def by blast
  define s where "s = (if length (inst_trace i) < 2 then [] else '' -> {{resultBody()}}'')"
  have t: "template i = template_text ps @ s" by (simp add: template_def assms(3) s_def)
  have "render_loop vm ctx s k' = (Inr (if length (inst_trace i) < 2 then [] else '' -> '' @ b), k')"
    using render_arrow [OF assms(4,5), of vm k'] by (simp add: s_def render_loop.simps [of vm ctx "[]"])
  then show ?thesis
    unfolding t render_template_def option.case
    by (simp add: jbind_def render_closed [OF assms(2)] k)
qed

section \<open>One server of the chain\<close>

text \<open>An execution that returns, by what the statements and the template do.\<close>

lemma single_of_attempt:
  assumes a: "attempt srv 0 (s\<lparr>clock_reads := clock_reads s + 1\<rparr>) = (Inr (), u)"
    and r: "response (the_context u) = Some r"
    and t: "\<And>ctx k. response ctx = Some r \<Longrightarrow> \<exists>k'. render_template (machine srv) ctx (Some (template (instruction s))) k = (Inr (Some x), k')"
  shows "\<exists>d s'. executeSingle srv False (0, 1) 0 0 s = (Inr (d, x), s') \<and> instruction s' = instruction u \<and> response (the_context s') = Some r"
proof -
  define v where "v = u\<lparr>clock_reads := clock_reads u + 1, the_context := (the_context u)\<lparr>delay_nanos :=
    nano_time srv (clock_reads u) - nano_time srv (clock_reads s)\<rparr>\<rparr>"
  have "response (the_context v) = Some r" by (simp add: v_def r)
  then obtain k' where k: "render_template (machine srv) (the_context v) (Some (template (instruction s))) (draws v) = (Inr (Some x), k')"
    using t by blast
  have "executeSingle srv False (0, 1) 0 0 s = (Inr (delay_nanos (the_context v), x), v\<lparr>draws := k'\<rparr>)"
    using k a by (simp add: executeSingle_def Let_def wait_time_def nanoTime_def jbind_def jfinally_def jcatch_def a [simplified] on_context_def
        render_in_def v_def)
  then show ?thesis by (simp add: v_def r)
qed

lemma attempt_healthy:
  assumes "sound_state s" and "inst_rr (instruction s) = []"
  obtains u where "attempt srv 0 s = call srv (getNext (instruction u)) u" and "sound_state u" and "undisturbed s u"
proof -
  obtain u where u: "before_call srv s = (Inr (), u)" "sound_state u" "undisturbed s u"
    using goes_before assms(1) unfolding goes_def by blast
  have "attempt srv 0 s = doExecuteSingle srv s" by (simp add: attempt_def processLoop_def assms(2))
  also have "\<dots> = call srv (getNext (instruction u)) u" unfolding doExecute_split by (rule bind_step, rule u(1)) simp
  finally show ?thesis using that u by blast
qed

text \<open>The last node calls nobody.\<close>

lemma single_last:
  assumes "sound_state s" and "inst_rr (instruction s) = []" and "inst_trace (instruction s) = [node]"
    and "response (the_context s) = Some r" and "labels (machine srv) ps label" and "list_all closed_piece ps"
    and "inst_traceNodeTmpl (instruction s) = template_text ps"
  shows "\<exists>d s'. executeSingle srv False (0, 1) 0 0 s = (Inr (d, label (resp_status r)), s') \<and>
    inst_trace (instruction s') \<noteq> [] \<and> response (the_context s') = Some r"
proof -
  let ?s = "s\<lparr>clock_reads := clock_reads s + 1\<rparr>"
  have "sound_state ?s" using assms(1) by (simp add: sound_state_def)
  then obtain u where u: "attempt srv 0 ?s = call srv (getNext (instruction u)) u" "sound_state u" "undisturbed ?s u"
    by (rule attempt_healthy) (simp add: assms(2))
  obtain n where n: "inst_trace (instruction u) = [n]" using u(2,3) assms(3)
    by (auto simp: undisturbed_def sound_state_def currentNode_def split: list.splits)
  then have a: "attempt srv 0 ?s = (Inr (), u)" unfolding u(1) by (simp add: call_def getNext_def currentNode_def)
  have "response (the_context u) = Some r" using u(3) assms(4) by (simp add: undisturbed_def)
  then have "\<exists>d s'. executeSingle srv False (0, 1) 0 0 s = (Inr (d, label (resp_status r)), s') \<and>
      instruction s' = instruction u \<and> response (the_context s') = Some r"
  proof (rule single_of_attempt [OF a])
    fix ctx :: RenderingContext and k
    assume "response ctx = Some r"
    from render_label [OF assms(5-7) this] assms(3)
    show "\<exists>k'. render_template (machine srv) ctx (Some (template (instruction s))) k = (Inr (Some (label (resp_status r))), k')" by simp
  qed
  with n show ?thesis by fastforce
qed

text \<open>A node with others behind it shows what they answer behind its own label.\<close>

lemma single_inner:
  assumes "sound_state s" and "inst_rr (instruction s) = []" and "inst_trace (instruction s) = node0 # node # rest"
    and "callable_node node" and "invokers srv ''http'' = Some invoke"
    and "\<And>k i ctx. i = (instruction s)\<lparr>inst_trace := node # rest, inst_times := 1, inst_threads := 1, inst_qps := 0\<rparr> \<Longrightarrow>
      \<exists>r. invoke k i ctx = Inr r \<and> resp_status r = Some ''200'' \<and> resp_result r = JStr b"
    and "labels (machine srv) ps label" and "list_all closed_piece ps" and "inst_traceNodeTmpl (instruction s) = template_text ps"
  shows "\<exists>d s'. executeSingle srv False (0, 1) 0 0 s = (Inr (d, label (Some ''200'') @ '' -> '' @ b), s') \<and>
    inst_trace (instruction s') \<noteq> [] \<and> response (the_context s') \<noteq> None"
proof -
  let ?s = "s\<lparr>clock_reads := clock_reads s + 1\<rparr>"
  have "sound_state ?s" using assms(1) by (simp add: sound_state_def)
  then obtain u where u: "attempt srv 0 ?s = call srv (getNext (instruction u)) u" "sound_state u" "undisturbed ?s u"
    by (rule attempt_healthy) (simp add: assms(2))
  obtain n where n: "inst_trace (instruction u) = n # node # rest" using u(2,3) assms(3)
    by (auto simp: undisturbed_def sound_state_def currentNode_def split: list.splits)
  define i where "i = (instruction s)\<lparr>inst_trace := node # rest, inst_times := 1, inst_threads := 1, inst_qps := 0\<rparr>"
  have "instruction u = (instruction s)\<lparr>inst_trace := n # node # rest\<rparr>" using u(3) n by (simp add: undisturbed_def)
  then have next_i: "getNext (instruction u) = Some i" by (simp add: getNext_def i_def)
  obtain r where r: "invoke (length (invocations u)) i (the_context u) = Inr r" "resp_status r = Some ''200''" "resp_result r = JStr b"
    using assms(6) [OF i_def] by blast
  define v where "v = u\<lparr>invocations := invocations u @ [i], the_context := (the_context u)\<lparr>response := Some r\<rparr>\<rparr>"
  have a: "attempt srv 0 ?s = (Inr (), v)"
    unfolding u(1) v_def by (rule call_answers [OF n assms(4,5) next_i r(1)])
  have "response (the_context v) = Some r" by (simp add: v_def)
  then have "\<exists>d s'. executeSingle srv False (0, 1) 0 0 s = (Inr (d, label (Some ''200'') @ '' -> '' @ b), s') \<and>
      instruction s' = instruction v \<and> response (the_context s') = Some r"
  proof (rule single_of_attempt [OF a])
    fix ctx :: RenderingContext and k
    assume "response ctx = Some r"
    from render_label [OF assms(7-9) this, of b k] assms(3) r(2,3)
    show "\<exists>k'. render_template (machine srv) ctx (Some (template (instruction s))) k =
        (Inr (Some (label (Some ''200'') @ '' -> '' @ b)), k')" by simp
  qed
  with n show ?thesis by (fastforce simp: v_def)
qed

section \<open>The chain\<close>

text \<open>
  A call reaches a server: the address of the call made for the instruction belongs to it,
  what its container makes of the call has no templates in its headers, and an instruction
  in the address arrives as the parameter \<open>_body\<close>.
\<close>

definition reaches :: "network \<Rightarrow> Instruction \<Rightarrow> string \<Rightarrow> bool" where
  "reaches net j h \<longleftrightarrow> (case call_for net j of
      Inl _ \<Rightarrow> False
    | Inr c \<Rightarrow> route net (call_url c) = Some h \<and> list_all (\<lambda>(k, v). plain v) (transformRequestHeaders (request_of net c)) \<and>
        (call_body c \<noteq> None \<or> (case simple_form net j of
            Inr v \<Rightarrow> map_of (http_params (request_of net c)) ''_body'' = Some (write_body net v)
          | Inl _ \<Rightarrow> False)))"

text \<open>The instructions a case hands on, one node after the other, and the servers their calls reach.\<close>

definition handed :: "Instruction \<Rightarrow> PowerTraceNode list \<Rightarrow> Instruction" where
  "handed i nodes = i\<lparr>inst_trace := nodes, inst_times := 1, inst_threads := 1, inst_qps := 0\<rparr>"

lemma handed_again [simp]: "handed (handed i nodes') nodes = handed i nodes"
  by (simp add: handed_def)

fun all_reach :: "network \<Rightarrow> Instruction \<Rightarrow> PowerTraceNode list \<Rightarrow> string list \<Rightarrow> bool" where
  "all_reach net i [] hosts \<longleftrightarrow> hosts = []"
| "all_reach net i (node # rest) hosts \<longleftrightarrow> (case hosts of
      h # hs \<Rightarrow> callable_node node \<and> reaches net (handed i (node # rest)) h \<and> all_reach net i rest hs
    | [] \<Rightarrow> False)"

lemma all_reach_handed [simp]: "all_reach net (handed i nodes) rest hosts = all_reach net i rest hosts"
  by (induction rest arbitrary: hosts) (simp_all split: list.split)

lemma all_reach_none [simp]: "all_reach net i rest [] \<longleftrightarrow> rest = []"
  by (cases rest) simp_all

lemma all_reach_callable: "all_reach net i rest hosts \<Longrightarrow> list_all callable_node rest"
  by (induction rest arbitrary: hosts) (auto split: list.splits)

definition healthy_trace :: "network \<Rightarrow> piece list \<Rightarrow> Instruction \<Rightarrow> string list \<Rightarrow> bool" where
  "healthy_trace net ps i hosts \<longleftrightarrow> inst_rr i = [] \<and> inst_traceNodeTmpl i = template_text ps \<and>
     (case inst_trace i of node # rest \<Rightarrow> healthy_node node \<and> all_reach net i rest hosts | [] \<Rightarrow> False)"

definition healthy_case :: "network \<Rightarrow> piece list \<Rightarrow> Instruction \<Rightarrow> string list \<Rightarrow> bool" where
  "healthy_case net ps i hosts \<longleftrightarrow> inst_times i \<le> 1 \<and> healthy_trace net ps i hosts"

lemma healthy_traceE:
  assumes "healthy_trace net ps i (h' # hosts)"
  obtains node0 node rest where "inst_trace i = node0 # node # rest" and "healthy_node node0" and "callable_node node"
    and "reaches net (handed i (node # rest)) h'" and "all_reach net i rest hosts"
proof -
  obtain node0 rest0 where t: "inst_trace i = node0 # rest0" "healthy_node node0" "all_reach net i rest0 (h' # hosts)"
    using assms by (auto simp: healthy_trace_def split: list.splits)
  then obtain node rest where "rest0 = node # rest" by (cases rest0) auto
  with t that show ?thesis by simp
qed

text \<open>
  The simplified form of an instruction, in an address, is read as the instruction, as
  \<^verbatim>\<open>SimplifiedJava\<close> shows for the functions the servers use.
\<close>

definition forms_read :: "network \<Rightarrow> bool" where
  "forms_read net \<longleftrightarrow> (\<forall>i. simple_instruction i \<and> all_numbers_ok i \<longrightarrow>
     (\<exists>v. simple_form net i = Inr v \<and> read_body net (write_body net v) = Inr i))"

fun chain_text :: "(string \<Rightarrow> string option \<Rightarrow> string) \<Rightarrow> string \<Rightarrow> string list \<Rightarrow> string" where
  "chain_text label h [] = label h None"
| "chain_text label h (h' # hs) = label h (Some ''200'') @ '' -> '' @ chain_text label h' hs"

definition labelled :: "network \<Rightarrow> piece list \<Rightarrow> (string \<Rightarrow> string option \<Rightarrow> string) \<Rightarrow> bool" where
  "labelled net ps label \<longleftrightarrow> list_all closed_piece ps \<and> (\<forall>h. labels (machine (server_at net h)) ps (label h))"

text \<open>An execution of a case that is not repeated, and what the HTTP entrance answers.\<close>

lemma execute_single:
  assumes "inst_times (instruction s) \<le> 1" and "executeSingle srv False (0, 1) 0 0 s = (Inr (d, x), u)"
    and "response (the_context u) \<noteq> None"
  shows "\<exists>s'. execute srv s = (Inr (JStr x), s') \<and> instruction s' = instruction u \<and>
    (\<exists>r. response (the_context s') = Some r \<and> resp_result r = JStr x)"
  using assms by (auto simp: execute_def jbind_def set_result_def on_context_def)

lemma http_answer_of:
  assumes "execute srv (s0\<lparr>instruction := i, the_context := new_context\<lparr>request_method := http_method req,
      requestHeaders := Some (transformRequestHeaders req), request_path := servlet_path req, request_params := http_params req\<rparr>\<rparr>) = (Inr v, s')"
    and "response (the_context s') = Some r" and "resp_result r = JStr x"
  shows "\<exists>a. fst (http_execute srv i req s0) = a \<and> answer_status a = 200 \<and> answer_body a = Some x"
  using assms by (simp add: http_execute_def Let_def)

lemma int_str_200: "int_str 200 = ''200''"
  by code_simp

text \<open>Whatever the method, the next server executes the instruction that was sent.\<close>

lemma callable_delivered:
  assumes "forms_read net" and j: "inst_trace j = node # rest" "simple_instruction j" "all_numbers_ok j"
    and node: "callable_node node" and r: "reaches net j h'"
  obtains req where "http_invoke vms (simple_form net) (write_body net) (deliver_call net (Suc m)) k j ctx =
      Inr (fromHttp (reply_of (fst (http_execute (networked net m h') j req (state_at net h' k)))))"
    and "list_all (\<lambda>(k, v). plain v) (transformRequestHeaders req)"
proof -
  obtain v where v: "simple_form net j = Inr v" "read_body net (write_body net v) = Inr j"
    using assms(1) j(2,3) by (auto simp: forms_read_def)
  obtain c where c: "call_for net j = Inr c" and url: "route net (call_url c) = Some h'"
    and p: "list_all (\<lambda>(k, v). plain v) (transformRequestHeaders (request_of net c))"
    and b: "call_body c \<noteq> None \<or> map_of (http_params (request_of net c)) ''_body'' = Some (write_body net v)"
    using r v(1) by (auto simp: reaches_def split: sum.splits)
  note i = http_invoke_callable [OF j(1) node v(1) c]
  show ?thesis
  proof (cases "call_body c")
    case None
    define req where "req = (request_of net c)\<lparr>http_params := AList.delete ''_body'' (http_params (request_of net c))\<rparr>"
    have "deliver_call net (Suc m) k c = Inr (reply_of (fst (http_execute (networked net m h') j req (state_at net h' k))))"
      using b by (simp add: deliver_networked url v(2) None http_execute_get_def req_def)
    moreover have "list_all (\<lambda>(k, v). plain v) (transformRequestHeaders req)" using p by (simp add: req_def transformRequestHeaders_def)
    ultimately show ?thesis using that i(1) by simp
  next
    case (Some i')
    with i(2) have "call_body c = Some j" by simp
    then show ?thesis using that [OF _ p] i(1) url by (simp add: deliver_networked)
  qed
qed

text \<open>What the next server answers, by what it executes.\<close>

lemma chain_invoke:
  assumes "forms_read net" and "healthy_trace net ps i (h' # hosts)" and t: "inst_trace i = node0 # node # rest"
    and j: "j = i\<lparr>inst_trace := node # rest, inst_times := 1, inst_threads := 1, inst_qps := 0\<rparr>"
    and single: "\<And>s. healthy_case net ps (instruction s) hosts \<Longrightarrow> plain_headers (the_context s) \<Longrightarrow>
      response (the_context s) = Some new_response \<Longrightarrow>
      \<exists>d u. executeSingle (networked net m h') False (0, 1) 0 0 s = (Inr (d, chain_text label h' hosts), u) \<and> response (the_context u) \<noteq> None"
  shows "\<exists>q. http_invoke vms (simple_form net) (write_body net) (deliver_call net (Suc m)) k j ctx = Inr q \<and>
    resp_status q = Some ''200'' \<and> resp_result q = JStr (chain_text label h' hosts)"
proof -
  have node: "callable_node node" and r: "reaches net j h'" and l: "all_reach net j rest hosts"
    using assms(2) t unfolding j handed_def [symmetric] by (auto elim!: healthy_traceE)
  have i: "inst_rr i = []" "inst_traceNodeTmpl i = template_text ps" using assms(2) by (simp_all add: healthy_trace_def)
  have tj: "inst_trace j = node # rest" by (simp add: j)
  have "list_all callable_node rest" by (rule all_reach_callable [OF l])
  then have sj: "simple_instruction j" "all_numbers_ok j" using node i by (auto intro!: callable_trace simp: j in_int_def)
  obtain req where c: "http_invoke vms (simple_form net) (write_body net) (deliver_call net (Suc m)) k j ctx =
      Inr (fromHttp (reply_of (fst (http_execute (networked net m h') j req (state_at net h' k)))))"
    and p: "list_all (\<lambda>(k, v). plain v) (transformRequestHeaders req)"
    by (rule callable_delivered [OF assms(1) tj sj node r])
  define s1 where "s1 = (state_at net h' k)\<lparr>instruction := j, the_context := new_context\<lparr>request_method := http_method req,
    requestHeaders := Some (transformRequestHeaders req), request_path := servlet_path req, request_params := http_params req\<rparr>\<rparr>"
  have "healthy_node node" using node by (simp add: callable_node_def)
  then have "healthy_case net ps (instruction s1) hosts" using l i tj by (simp add: s1_def healthy_case_def healthy_trace_def) (simp add: j)
  moreover have "plain_headers (the_context s1)" using p by (simp add: s1_def plain_headers_def)
  moreover have "response (the_context s1) = Some new_response" by (simp add: s1_def new_context_def)
  ultimately obtain d u where u: "executeSingle (networked net m h') False (0, 1) 0 0 s1 = (Inr (d, chain_text label h' hosts), u)"
    "response (the_context u) \<noteq> None" using single by blast
  have "inst_times (instruction s1) \<le> 1" by (simp add: s1_def j)
  from execute_single [OF this u] obtain s2 r2 where "execute (networked net m h') s1 = (Inr (JStr (chain_text label h' hosts)), s2)"
    "response (the_context s2) = Some r2" "resp_result r2 = JStr (chain_text label h' hosts)" by blast
  from http_answer_of [OF this [unfolded s1_def]] obtain a where
    a: "fst (http_execute (networked net m h') j req (state_at net h' k)) = a" "answer_status a = 200"
      "answer_body a = Some (chain_text label h' hosts)" by blast
  then show ?thesis using int_str_200 by (simp add: c fromHttp_def reply_of_def text_or_null_def)
qed

lemma chain_single:
  assumes "labelled net ps label" and "forms_read net"
  shows "healthy_trace net ps (instruction s) hosts \<Longrightarrow> length hosts \<le> n \<Longrightarrow> plain_headers (the_context s) \<Longrightarrow>
    response (the_context s) = Some r0 \<Longrightarrow> resp_status r0 = None \<Longrightarrow>
    \<exists>d s'. executeSingle (networked net n h) False (0, 1) 0 0 s = (Inr (d, chain_text label h hosts), s') \<and>
      inst_trace (instruction s') \<noteq> [] \<and> response (the_context s') \<noteq> None"
proof (induction hosts arbitrary: n h s r0)
  case Nil
  obtain node where node: "inst_trace (instruction s) = [node]" "healthy_node node"
    using Nil.prems(1) by (auto simp: healthy_trace_def split: list.splits)
  have "sound_state s" using node Nil.prems(3) by (simp add: sound_state_def currentNode_def)
  moreover have "inst_rr (instruction s) = []" "inst_traceNodeTmpl (instruction s) = template_text ps"
    using Nil.prems(1) by (simp_all add: healthy_trace_def)
  moreover have "labels (machine (networked net n h)) ps (label h)" "list_all closed_piece ps"
    using assms(1) by (simp_all add: labelled_def)
  ultimately show ?case
    using single_last [of s node r0 "networked net n h" ps "label h"] node(1) Nil.prems(4,5) by fastforce
next
  case (Cons h' hosts)
  obtain node0 node rest where t: "inst_trace (instruction s) = node0 # node # rest" and "healthy_node node0" "callable_node node"
    using Cons.prems(1) by (rule healthy_traceE)
  have i: "inst_rr (instruction s) = []" "inst_traceNodeTmpl (instruction s) = template_text ps"
    using Cons.prems(1) by (simp_all add: healthy_trace_def)
  obtain m where n: "n = Suc m" "length hosts \<le> m" using Cons.prems(2) by (cases n) auto
  have "resp_status new_response = None" by (simp add: new_response_def)
  then have "\<exists>d u. executeSingle (networked net m h') False (0, 1) 0 0 s = (Inr (d, chain_text label h' hosts), u) \<and> response (the_context u) \<noteq> None"
    if "healthy_case net ps (instruction s) hosts" "plain_headers (the_context s)" "response (the_context s) = Some new_response" for s
    using Cons.IH [of s m new_response h'] that n(2) by (auto simp: healthy_case_def)
  from chain_invoke [OF assms(2) Cons.prems(1) t _ this]
  have "\<exists>q. http_invoke (streams net h) (simple_form net) (write_body net) (deliver_call net n) k j ctx = Inr q \<and>
      resp_status q = Some ''200'' \<and> resp_result q = JStr (chain_text label h' hosts)"
    if "j = (instruction s)\<lparr>inst_trace := node # rest, inst_times := 1, inst_threads := 1, inst_qps := 0\<rparr>" for k j ctx
    using that n(1) by blast
  moreover have "sound_state s" using t \<open>healthy_node node0\<close> Cons.prems(3) by (simp add: sound_state_def currentNode_def)
  moreover have "labels (machine (networked net n h)) ps (label h)" "list_all closed_piece ps"
    using assms(1) by (simp_all add: labelled_def)
  ultimately show ?case
    using single_inner [of s node0 node rest "networked net n h" _ "chain_text label h' hosts" ps "label h"] i t \<open>callable_node node\<close>
    by simp
qed

text \<open>
  C14. A case over several servers returns what all of them say: if the server that runs it
  and every node of its trace are healthy and each of the calls made for the case reaches its
  server over HTTP, with no templates in the headers it arrives with, every server executes
  its node, and the result is the rendered templates of the servers in the order of the
  trace, joined by arrows. As many hops as there are nodes are enough.
\<close>
theorem chain_case_result:
  assumes "labelled net ps label" and "forms_read net"
    and "rbind (map_calls (replaceTargets replaceAll (targetMapping res) True) (case_instruction c))
      (map_calls (replaceTargets replaceAll (targetMapping res) False)) = Inr i"
    and "healthy_case net ps (i\<lparr>inst_trace := new_node # inst_trace i\<rparr>) hosts" and "length hosts \<le> n"
  shows "\<exists>s'. run_case (networked net n h) pf replaceAll res c params False s0 = (Inr (JStr (chain_text label h hosts)), s')"
proof -
  define s where "s = s0\<lparr>instruction := i\<lparr>inst_trace := new_node # inst_trace i\<rparr>, the_context := new_context\<lparr>request_params := params\<rparr>\<rparr>"
  have "plain_headers (the_context s)" "response (the_context s) = Some new_response" "resp_status new_response = None"
    "healthy_trace net ps (instruction s) hosts" "inst_times (instruction s) \<le> 1"
    using assms(4) by (simp_all add: s_def plain_headers_def new_context_def new_response_def healthy_case_def)
  with chain_single [OF assms(1,2) _ assms(5)] execute_single obtain s' where
    "execute (networked net n h) s = (Inr (JStr (chain_text label h hosts)), s')" by metis
  then show ?thesis by (auto simp: run_case_def assms(3) s_def jbind_def)
qed

section \<open>An example\<close>

text \<open>Three servers, the template an instruction has unless it names another, and a case over two of them.\<close>

definition default_pieces :: "piece list" where
  "default_pieces = [Expression ''env(APP)'', Plain ''|'', Expression ''env(VERSION)'', Plain ''('', Expression ''statusCode()'', Plain '')'']"

lemma default_pieces_text: "template_text default_pieces = defaultTraceNodeTmpl"
  by (simp add: template_text_def default_pieces_def defaultTraceNodeTmpl_def)

definition demo_label :: "string \<Rightarrow> string option \<Rightarrow> string" where
  "demo_label h status = h @ ''|v1('' @ (case status of Some t \<Rightarrow> t | None \<Rightarrow> []) @ '')''"

text \<open>A query whose text is a parameter of its own in an address, and not the instruction.\<close>

definition plain_query :: "string \<times> string \<Rightarrow> bool" where
  "plain_query q \<longleftrightarrow> (case q of (k, v) \<Rightarrow> k \<noteq> ''_body'' \<and> list_all (\<lambda>c. c \<notin> set ''&=?#%+'') (k @ v))"

definition url_params :: "string \<Rightarrow> (string \<times> string) list" where
  "url_params u = map (\<lambda>p. (takeWhile (\<lambda>c. c \<noteq> CHR ''='') p, drop 1 (dropWhile (\<lambda>c. c \<noteq> CHR ''='') p)))
     (split_on CHR ''&'' (drop 1 (dropWhile (\<lambda>c. c \<noteq> CHR ''?'') u)))"

definition demo_network :: network where
  "demo_network = \<lparr>server_at = \<lambda>h. demo_server\<lparr>machine := demo_vm\<lparr>env_variable := (\<lambda>_. None)(''APP'' := Some h, ''VERSION'' := Some ''v1'')\<rparr>\<rparr>,
     route = \<lambda>u. let a = takeWhile (\<lambda>c. c \<noteq> CHR ''?'') u in if a = ''http://b/execute'' then Some ''b'' else if a = ''http://c/execute'' then Some ''c'' else None,
     request_of = \<lambda>c. \<lparr>http_method = call_method c, http_headers = map (\<lambda>(k, v). (k, [v])) (call_headers c), servlet_path = ''/execute'',
       http_params = url_params (call_url c)\<rparr>,
     state_at = \<lambda>h k. demo_state (demo_instruction 1), streams = \<lambda>h k. demo_vm,
     simple_form = usual_form, write_body = address_body rfc_encode write_tree,
     read_body = read_address rfc_decode utf8_text read_tree no_coercions usual_defaults\<rparr>"

definition demo_chain :: RequestCase where
  "demo_chain = \<lparr>case_instruction = (demo_instruction 1)\<lparr>inst_traceNodeTmpl := defaultTraceNodeTmpl,
     inst_trace := [new_node\<lparr>node_call := Some ''b''\<rparr>,
       new_node\<lparr>node_call := Some ''http://c'', node_method := ''GET'', node_queries := [(''k'', ''1'')]\<rparr>]\<rparr>,
     case_name = None, case_description = None, case_expect = JNull\<rparr>"

lemma demo_labelled: "labelled demo_network default_pieces demo_label"
proof -
  have m: "match_function ''env(APP)'' = Some (''env'', ''APP'')" "match_function ''env(VERSION)'' = Some (''env'', ''VERSION'')"
    "match_function ''statusCode()'' = Some (''statusCode'', [])"
    and p: "split_params ''APP'' = [''APP'']" "split_params ''VERSION'' = [''VERSION'']" "split_params [] = []"
    by code_simp+
  have "labels (machine (server_at demo_network h)) default_pieces (demo_label h)" for h
    unfolding labels_def default_pieces_def
    by (auto simp: calc_def m p exprFuncs_def list_get_def rbind_def jbind_def text_or_null_def demo_network_def demo_label_def
        split: option.split)
  moreover have "list_all closed_piece default_pieces"
    by (simp add: default_pieces_def closed_piece_def line_terminator_def)
  ultimately show ?thesis by (simp add: labelled_def)
qed

lemma url_params_body:
  assumes "list_all plain_query qs" and "CHR ''?'' \<notin> set addr" and "CHR ''&'' \<notin> set b"
  shows "map_of (url_params (with_params addr (map (\<lambda>(k, v). k @ ''='' @ v) qs @ [''_body='' @ b]))) ''_body'' = Some b"
proof -
  let ?ps = "map (\<lambda>(k, v). k @ ''='' @ v) qs @ [''_body='' @ b]"
  have d: "dropWhile (\<lambda>c. c \<noteq> CHR ''?'') (with_params addr ?ps) = CHR ''?'' # join_with ''&'' ?ps"
    using assms(2) by (subst with_params_def) (auto simp: dropWhile_append3)
  have "list_all (\<lambda>p. CHR ''&'' \<notin> set p) ?ps" using assms(1,3) by (auto simp: list_all_iff plain_query_def)
  then have "split_on CHR ''&'' (join_with ''&'' ?ps) = ?ps" by (intro split_join) simp_all
  moreover have "map_of (map (\<lambda>p. (takeWhile (\<lambda>c. c \<noteq> CHR ''='') p, drop 1 (dropWhile (\<lambda>c. c \<noteq> CHR ''='') p))) ?ps) ''_body'' = Some b"
    using assms(1)
  proof (induction qs)
    case (Cons q qs)
    obtain k v where q: "q = (k, v)" by (cases q)
    have k: "k \<noteq> ''_body''" "CHR ''='' \<notin> set k" using Cons.prems by (auto simp: q plain_query_def list_all_iff)
    have "takeWhile (\<lambda>c. c \<noteq> CHR ''='') (k @ CHR ''='' # v) = k" using k(2) by (induction k) auto
    with Cons k show ?case by (simp add: q)
  qed simp
  ultimately show ?thesis unfolding url_params_def d by simp
qed

lemma url_host: "takeWhile (\<lambda>c. c \<noteq> CHR ''?'') (with_params addr ps) = takeWhile (\<lambda>c. c \<noteq> CHR ''?'') addr"
  by (induction addr) (auto simp: with_params_def)

lemma demo_forms: "forms_read demo_network"
  unfolding forms_read_def
proof (intro allI impI, elim conjE)
  fix i assume i: "simple_instruction i" "all_numbers_ok i"
  from address_identity [OF rfc6902.json_patch_axioms rfc4648.url_codec_axioms utf8_reads json_reads_trees i]
  show "\<exists>v. simple_form demo_network i = Inr v \<and> read_body demo_network (write_body demo_network v) = Inr i"
    unfolding demo_network_def network.simps usual_form_def by blast
qed

lemma set_header_plain: "list_all (\<lambda>(k, v). plain v) (h # hs) \<Longrightarrow> list_all (\<lambda>(k, v). plain v) (set_header h hs)"
  by (auto simp: set_header_def list_all_iff)

lemma headers_plain:
  assumes "list_all (\<lambda>(k, v). plain v) hs" and "node_headers node = Some hs" and "request_headers node = Inr wire"
  shows "list_all (\<lambda>(k, v). plain v) wire"
proof -
  have "list_all (\<lambda>(k, v). plain v) (fold set_header hs acc)" if "list_all (\<lambda>(k, v). plain v) acc" for acc
    using assms(1) that
  proof (induction hs arbitrary: acc)
    case (Cons h hs)
    from Cons.prems have "list_all (\<lambda>(k, v). plain v) (set_header h acc)" by (intro set_header_plain) simp
    with Cons show ?case by simp
  qed simp
  from this [of "[]"] have "list_all (\<lambda>(k, v). plain v) ((''Content-Type'', ''application/json;charset=UTF-8'') # fold set_header hs [])"
    by (simp add: plain_def)
  from set_header_plain [OF this] show ?thesis using assms(2,3) by (simp add: request_headers_def)
qed

text \<open>In the example each call whose headers and queries are plain reaches the server of its address.\<close>

lemma demo_reaches:
  assumes "inst_trace j = node # rest" and "simple_instruction j" and "all_numbers_ok j" and "callable_node node"
    and "node_headers node = Some hs" and "list_all (\<lambda>(k, v). plain v) hs" and "list_all plain_query (node_queries node)"
    and "CHR ''?'' \<notin> set (absolute_url (node_call node))" and "route demo_network (absolute_url (node_call node)) = Some h"
  shows "reaches demo_network j h"
proof -
  obtain v where v: "usual_form j = Inr v" and safe: "set (address_body rfc_encode write_tree v) \<subseteq> insert CHR ''='' (set url_letters)"
    using address_identity [OF rfc6902.json_patch_axioms rfc4648.url_codec_axioms utf8_reads json_reads_trees assms(2,3)] unfolding usual_form_def by blast
  have "CHR ''&'' \<notin> set url_letters" by code_simp
  with safe have "CHR ''&'' \<notin> set (address_body rfc_encode write_tree v)" by auto
  note body = url_params_body [OF assms(7,8) this]
  have n: "currentNode j = Some node" using assms(1) by (simp add: currentNode_def)
  obtain wire where wire: "request_headers node = Inr wire" using assms(5) by (simp add: request_headers_def)
  have "list_all (\<lambda>(k, v). plain v) (map (\<lambda>(name, values). (name, join_with '','' values)) (map (\<lambda>(k, v). (k, [v])) wire))"
    using headers_plain [OF assms(6,5) wire] by (auto simp: list_all_iff)
  moreover have "route demo_network (with_params a ps) = route demo_network a" for a ps by (simp add: demo_network_def url_host)
  moreover have "simple_form demo_network j = Inr v" "write_body demo_network v = address_body rfc_encode write_tree v"
    using v by (simp_all add: demo_network_def)
  moreover have "http_headers (request_of demo_network c) = map (\<lambda>(k, v). (k, [v])) (call_headers c)"
    "http_params (request_of demo_network c) = url_params (call_url c)" for c by (simp_all add: demo_network_def)
  moreover have "node_method node \<in> set methods_with_body \<or> node_method node \<in> set methods_without_body"
    using assms(4) by (auto simp: callable_node_def)
  ultimately show ?thesis using body assms(9)
    by (auto simp: reaches_def call_for_def n wire http_call_of_def transformRequestHeaders_def query_texts_def)
qed

lemma demo_chain_healthy:
  assumes "inst_rr i = []" and "inst_traceNodeTmpl i = defaultTraceNodeTmpl" and "inst_trace i = new_node # inst_trace (case_instruction demo_chain)"
  shows "healthy_trace demo_network default_pieces i [''b'', ''c'']"
proof -
  let ?b = "new_node\<lparr>node_call := Some ''b''\<rparr>"
  let ?c = "new_node\<lparr>node_call := Some ''http://c'', node_method := ''GET'', node_queries := [(''k'', ''1'')]\<rparr>"
  have t: "inst_trace i = [new_node, ?b, ?c]" by (simp add: assms(3) demo_chain_def)
  have n: "healthy_node new_node" "callable_node ?b" "callable_node ?c" by code_simp+
  have c: "list_all callable_node [?b, ?c]" "list_all callable_node [?c]" using n by simp_all
  have s: "simple_instruction (handed i nodes)" "all_numbers_ok (handed i nodes)" if "list_all callable_node nodes" for nodes
    using callable_trace [of "handed i nodes"] that assms(1) by (simp_all add: handed_def in_int_def)
  have a: "absolute_url (node_call ?b) = ''http://b/execute''" "absolute_url (node_call ?c) = ''http://c/execute''" by code_simp+
  have b: "reaches demo_network (handed i [?b, ?c]) ''b''"
    by (rule demo_reaches [where node = ?b and hs = "[]"]) (use s [OF c(1)] n(2) a(1) in \<open>simp_all add: handed_def new_node_def demo_network_def\<close>)
  have "reaches demo_network (handed i [?c]) ''c''"
    by (rule demo_reaches [where node = ?c and hs = "[]"])
      (use s [OF c(2)] n(3) a(2) in \<open>simp_all add: handed_def new_node_def demo_network_def plain_query_def\<close>)
  with b n t assms(1,2) show ?thesis by (simp add: healthy_trace_def default_pieces_text)
qed

theorem chain_case_result_witness:
  "\<exists>s'. run_case (networked demo_network 2 ''a'') counting no_replace no_resources demo_chain [] False (demo_state (demo_instruction 1)) =
     (Inr (JStr ''a|v1(200) -> b|v1(200) -> c|v1()''), s')"
proof -
  let ?i = "case_instruction demo_chain"
  have r: "rbind (map_calls (replaceTargets no_replace (targetMapping no_resources) True) ?i)
      (map_calls (replaceTargets no_replace (targetMapping no_resources) False)) = Inr ?i"
    by code_simp
  have h: "healthy_case demo_network default_pieces (?i\<lparr>inst_trace := new_node # inst_trace ?i\<rparr>) [''b'', ''c'']"
    using demo_chain_healthy by (simp add: healthy_case_def) (simp add: demo_chain_def demo_instruction_def)
  have l: "length [''b'', ''c''] \<le> 2" by simp
  have "chain_text demo_label ''a'' [''b'', ''c''] = ''a|v1(200) -> b|v1(200) -> c|v1()''" by (simp add: demo_label_def)
  with chain_case_result [OF demo_labelled demo_forms r h l] show ?thesis by metis
qed

end
