(* ===== verification/ServiceRepeats.thy ===== *)
theory ServiceRepeats
  imports ServicePools ServiceChain
begin

text \<open>
  A repeated case over several healthy servers: whatever the number of threads and whatever
  the order they take turns in, every execution succeeds and shows the same chain.
\<close>

declare render_loop.simps [simp del]

section \<open>Steady states\<close>

text \<open>The instruction is the one of the case, but for the first node, which is healthy and sets no headers of the answer.\<close>

definition steady :: "Instruction \<Rightarrow> run_state \<Rightarrow> bool" where
  "steady i0 s \<longleftrightarrow> sound_state s \<and> node_responseHeaders (hd (inst_trace (instruction s))) = [] \<and>
     instruction s = i0\<lparr>inst_trace := hd (inst_trace (instruction s)) # tl (inst_trace i0)\<rparr>"

lemma steady_own [simp]: "steady i0 (with_own c s) = steady i0 s"
  by (simp add: steady_def sound_state_def with_own_def plain_headers_def)

lemma steady_counters [simp]:
  "steady i0 (s\<lparr>clock_reads := n\<rparr>) = steady i0 s" "steady i0 (s\<lparr>draws := n\<rparr>) = steady i0 s" "steady i0 (s\<lparr>sleeps := ms\<rparr>) = steady i0 s"
  "steady i0 (s\<lparr>the_context := (the_context s)\<lparr>delay_nanos := d\<rparr>\<rparr>) = steady i0 s"
  by (simp_all add: steady_def sound_state_def plain_headers_def)

lemma steady_undisturbed:
  assumes "steady i0 s" and "undisturbed s s'" and "sound_state s'"
  shows "steady i0 s'"
proof -
  obtain n rest where t: "inst_trace (instruction s') = n # rest" using assms(3) by (rule sound_stateE)
  have i: "instruction s = i0\<lparr>inst_trace := hd (inst_trace (instruction s)) # tl (inst_trace i0)\<rparr>" using assms(1) by (simp add: steady_def)
  then have "tl (inst_trace (instruction s)) = tl (inst_trace i0)" by (metis Instruction.select_convs(1) Instruction.surjective Instruction.update_convs(1) list.sel(3))
  then have r: "rest = tl (inst_trace i0)" using assms(2) t by (simp add: undisturbed_def)
  have "instruction s' = (instruction s)\<lparr>inst_trace := n # rest\<rparr>" using assms(2) t by (simp add: undisturbed_def)
  also have "\<dots> = i0\<lparr>inst_trace := n # rest\<rparr>" by (subst i) simp
  finally have "instruction s' = i0\<lparr>inst_trace := n # rest\<rparr>" .
  moreover have "node_responseHeaders n = []"
    using assms(1,2) t by (cases "inst_trace (instruction s)") (auto simp: steady_def undisturbed_def)
  ultimately show ?thesis using assms(3) t r by (simp add: steady_def)
qed

lemma steady_fields:
  assumes "steady i0 s"
  shows "inst_rr (instruction s) = inst_rr i0" and "template (instruction s) = template i0"
    and "tl (inst_trace (instruction s)) = tl (inst_trace i0)"
proof -
  obtain h where i: "instruction s = i0\<lparr>inst_trace := h # tl (inst_trace i0)\<rparr>" using assms by (auto simp: steady_def)
  show "inst_rr (instruction s) = inst_rr i0" "tl (inst_trace (instruction s)) = tl (inst_trace i0)" by (simp_all add: i)
  show "template (instruction s) = template i0" unfolding i template_def by (cases "inst_trace i0") auto
qed

section \<open>Threads that go well\<close>

text \<open>The answer a thread has when it shows its result: none for the last node of a trace.\<close>

definition well_answered :: "Instruction \<Rightarrow> string \<Rightarrow> PowerfulResponse option \<Rightarrow> bool" where
  "well_answered i0 b r \<longleftrightarrow> (case r of
      Some q \<Rightarrow> if length (inst_trace i0) < 2 then resp_status q = None else resp_status q = Some ''200'' \<and> resp_result q = JStr b
    | None \<Rightarrow> False)"

lemma well_answered_Some: "well_answered i0 b r \<Longrightarrow> r \<noteq> None"
  by (cases r) (simp_all add: well_answered_def)

text \<open>Calling the next node gives its answer, and with an answer the template shows \<open>x\<close>.\<close>

definition dependable :: "server \<Rightarrow> Instruction \<Rightarrow> string \<Rightarrow> string \<Rightarrow> bool" where
  "dependable srv i0 b x \<longleftrightarrow> inst_rr i0 = [] \<and>
     (\<forall>s. steady i0 s \<longrightarrow> (\<exists>s'. call srv (getNext (instruction s)) s = (Inr (), s') \<and> steady i0 s' \<and>
       (if length (inst_trace i0) < 2 then own_of s' = own_of s else well_answered i0 b (response (the_context s'))))) \<and>
     (\<forall>ctx k. well_answered i0 b (response ctx) \<longrightarrow>
       (\<exists>k'. render_template (machine srv) ctx (Some (template i0)) k = (Inr (Some x), k')))"

definition going_well :: "Instruction \<Rightarrow> string \<Rightarrow> string \<Rightarrow> thread \<Rightarrow> own_results \<Rightarrow> bool" where
  "going_well i0 b x t c \<longleftrightarrow> list_all (\<lambda>r. snd r = x) (th_results t) \<and> own_response c \<noteq> None \<and>
     (length (inst_trace i0) < 2 \<longrightarrow> well_answered i0 b (own_response c)) \<and>
     (case th_phase t of
        Begin \<Rightarrow> True
      | Asleep tmpl w \<Rightarrow> tmpl = template i0
      | Start tmpl \<Rightarrow> tmpl = template i0
      | Patch tmpl _ \<Rightarrow> tmpl = template i0
      | Body tmpl _ copy pc \<Rightarrow> tmpl = template i0 \<and> copy = None \<and> pc < 7
      | Finish tmpl _ \<Rightarrow> tmpl = template i0 \<and> well_answered i0 b (own_response c)
      | ReadDelay tmpl \<Rightarrow> tmpl = template i0 \<and> well_answered i0 b (own_response c)
      | Render tmpl _ \<Rightarrow> tmpl = template i0 \<and> well_answered i0 b (own_response c)
      | _ \<Rightarrow> False)"

lemma body_goes: "pc < 6 \<Longrightarrow> goes (body_statements srv ! pc)"
proof -
  assume "pc < 6"
  then have "pc = 0 \<or> pc = 1 \<or> pc = 2 \<or> pc = 3 \<or> pc = 4 \<or> pc = 5" by linarith
  then show ?thesis unfolding body_statements_def
    using goes_propagate goes_renderHeaders goes_method goes_delay goes_percent goes_status by auto
qed

lemma undisturbed_own: "undisturbed s s' \<Longrightarrow> own_response (own_of s') = own_response (own_of s)"
  by (simp add: undisturbed_def own_of_def)

lemma body_step:
  assumes "dependable srv i0 b x" and "steady i0 s" and "pc < 7"
  shows "\<exists>s'. (body_statements srv ! pc) s = (Inr (), s') \<and> steady i0 s' \<and>
    (pc < 6 \<or> length (inst_trace i0) < 2 \<longrightarrow> own_response (own_of s') = own_response (own_of s)) \<and>
    (pc = 6 \<and> \<not> length (inst_trace i0) < 2 \<longrightarrow> well_answered i0 b (own_response (own_of s')))"
proof (cases "pc < 6")
  case True
  have "sound_state s" using assms(2) by (simp add: steady_def)
  with body_goes [OF True, of srv] obtain s' where "(body_statements srv ! pc) s = (Inr (), s')" "sound_state s'" "undisturbed s s'"
    unfolding goes_def by blast
  with steady_undisturbed [OF assms(2)] undisturbed_own True show ?thesis by blast
next
  case False
  with assms(3) have pc: "pc = 6" by simp
  obtain s' where "call srv (getNext (instruction s)) s = (Inr (), s')" "steady i0 s'"
    "if length (inst_trace i0) < 2 then own_of s' = own_of s else well_answered i0 b (response (the_context s'))"
    using assms(1,2) unfolding dependable_def by blast
  then show ?thesis by (simp add: pc body_statements_def own_of_def split: if_splits)
qed

lemma wait_time_returns: "\<exists>w s'. wait_time srv rate st n s = (Inr w, s') \<and> (s' = s \<or> s' = s\<lparr>clock_reads := clock_reads s + 1\<rparr>)"
  by (simp add: wait_time_def nanoTime_def jbind_def)

lemma own_counters [simp]:
  "own_of (s\<lparr>clock_reads := n\<rparr>) = own_of s" "own_of (s\<lparr>draws := n\<rparr>) = own_of s" "own_of (s\<lparr>sleeps := ms\<rparr>) = own_of s"
  by (simp_all add: own_of_def)

lemma step_goes_well:
  assumes d: "dependable srv i0 b x" and s: "steady i0 s" and w: "going_well i0 b x t (own_of s)" and a: "active t"
    and step: "thread_step srv rate st t s = (t', s')"
  shows "going_well i0 b x t' (own_of s') \<and> steady i0 s'"
proof (cases "th_phase t")
  case Begin
  obtain v u where "wait_time srv rate st (th_count t) s = (Inr v, u)" "u = s \<or> u = s\<lparr>clock_reads := clock_reads s + 1\<rparr>"
    using wait_time_returns by blast
  with Begin s w step steady_fields(2) [OF s] show ?thesis by (auto simp: thread_step_def going_well_def)
next
  case (Asleep tmpl v)
  with s w step show ?thesis by (auto simp: thread_step_def going_well_def sleep_def)
next
  case (Start tmpl)
  with s w step show ?thesis by (auto simp: thread_step_def going_well_def)
next
  case (Patch tmpl starts)
  have "inst_rr (instruction s) = []" using d steady_fields(1) [OF s] by (simp add: dependable_def)
  with Patch s w step show ?thesis by (auto simp: thread_step_def going_well_def processLoop_def)
next
  case (Body tmpl starts copy pc)
  with w have pc: "copy = None" "pc < 7" by (simp_all add: going_well_def)
  obtain u where u: "(body_statements srv ! pc) s = (Inr (), u)" "steady i0 u"
    "pc < 6 \<or> length (inst_trace i0) < 2 \<longrightarrow> own_response (own_of u) = own_response (own_of s)"
    "pc = 6 \<and> \<not> length (inst_trace i0) < 2 \<longrightarrow> well_answered i0 b (own_response (own_of u))"
    using body_step [OF d s pc(2)] by blast
  have "t' = t\<lparr>th_phase := if pc + 1 < 7 then Body tmpl starts None (pc + 1) else Finish tmpl starts\<rparr>" "s' = u"
    using step u(1) by (simp_all add: thread_step_def Body pc(1) on_instruction_def)
  moreover have "own_response (own_of s) \<noteq> None" using w by (simp add: going_well_def)
  then have "own_response (own_of u) \<noteq> None"
    using u(3,4) pc(2) well_answered_Some by (cases "pc < 6 \<or> length (inst_trace i0) < 2") auto
  ultimately show ?thesis using u(2-4) w Body pc by (cases "pc + 1 < 7"; cases "length (inst_trace i0) < 2") (auto simp: going_well_def)
next
  case (Finish tmpl starts)
  have "s' = s\<lparr>clock_reads := clock_reads s + 1, the_context := (the_context s)\<lparr>delay_nanos := nano_time srv (clock_reads s) - starts\<rparr>\<rparr>"
    "t' = t\<lparr>th_phase := ReadDelay tmpl\<rparr>"
    using step by (simp_all add: thread_step_def Finish jbind_def nanoTime_def on_context_def)
  moreover have "steady i0 (s\<lparr>clock_reads := clock_reads s + 1, the_context := (the_context s)\<lparr>delay_nanos := d\<rparr>\<rparr>)" for d
    using s by (simp add: steady_def sound_state_def plain_headers_def)
  ultimately show ?thesis using w Finish by (auto simp: going_well_def own_of_def)
next
  case (ReadDelay tmpl)
  with s w step show ?thesis by (auto simp: thread_step_def going_well_def)
next
  case (Render tmpl v)
  with w have r: "well_answered i0 b (response (the_context s))" "tmpl = template i0" by (simp_all add: going_well_def own_of_def)
  then obtain k' where "render_template (machine srv) (the_context s) (Some (template i0)) (draws s) = (Inr (Some x), k')"
    using d unfolding dependable_def by blast
  then have "render_in srv (Some tmpl) s = (Inr (Some x), s\<lparr>draws := k'\<rparr>)" by (simp add: render_in_def r(2))
  with Render s w step show ?thesis by (auto simp: thread_step_def going_well_def)
qed (use w a in \<open>auto simp: going_well_def active_def\<close>)

section \<open>Pools that go well\<close>

definition pool_well :: "Instruction \<Rightarrow> string \<Rightarrow> string \<Rightarrow> pool_state \<Rightarrow> bool" where
  "pool_well i0 b x p \<longleftrightarrow> steady i0 (shared p) \<and> list_all2 (going_well i0 b x) (threads p) (owns p)"

lemma pool_goes_well:
  assumes "dependable srv i0 b x"
  shows "metered_runs can_go (go srv rate st) (pool_well i0 b x) (\<lambda>_. 0) (\<lambda>_. 0)"
proof
  fix p i
  assume p: "pool_well i0 b x p" and i: "can_go p i"
  obtain t s where step: "thread_step srv rate st (threads p ! i) (with_own (owns p ! i) (shared p)) = (t, s)" by fastforce
  have "i < length (threads p)" "active (threads p ! i)" using i by (simp_all add: can_go_def)
  moreover have "going_well i0 b x (threads p ! i) (owns p ! i)"
    using p \<open>i < length (threads p)\<close> by (simp add: pool_well_def list_all2_conv_all_nth)
  ultimately have "going_well i0 b x t (own_of s)" "steady i0 s"
    using step_goes_well [OF assms _ _ _ step] p by (simp_all add: pool_well_def)
  then show "pool_well i0 b x (go srv rate st i p)"
    using p by (simp add: pool_well_def go_def step list_all2_update_cong)
qed simp

lemma well_results:
  assumes "list_all2 (going_well i0 b x) ts cs" and "list_all (\<lambda>t. \<not> active t) ts"
  shows "rmap (\<lambda>t. case th_phase t of Failed e \<Rightarrow> Inl (TaskFailed e) | _ \<Rightarrow> Inr (th_results t)) ts = Inr (map th_results ts) \<and>
    (\<forall>r\<in>set (concat (map th_results ts)). snd r = x)"
  using assms
proof (induction rule: list_all2_induct)
  case (Cons t ts c cs)
  then have "th_phase t = Begin" by (auto simp: going_well_def active_def split: phase.splits)
  with Cons show ?case by (auto simp: going_well_def list_all_iff)
qed simp

lemma pool_of_healthy:
  assumes "dependable srv i0 b x" and "steady i0 s" and "length ts \<le> maximumPoolSize"
  shows "\<exists>rss s'. scheduled_pool sched srv st ts s = (Inr rss, s') \<and> map length rss = map nat ts \<and>
    (\<forall>r\<in>set (concat rss). snd r = x) \<and> steady i0 s' \<and> own_of s' = own_of s"
proof -
  let ?rate = "(inst_qps (instruction s), int (length ts))"
  let ?p = "run_pool sched srv ?rate st (start_pool ts s)"
  obtain schedule where run: "runs can_go (go srv ?rate st) (start_pool ts s) schedule ?p" using run_pool_runs by blast
  have "going_well i0 b x (new_thread n) fresh_results" if "length (inst_trace i0) < 2 \<longrightarrow> well_answered i0 b (Some new_response)" for n
    using that by (simp add: going_well_def new_thread_def fresh_results_def)
  moreover have "well_answered i0 b (Some new_response)" if "length (inst_trace i0) < 2" using that by (simp add: well_answered_def new_response_def)
  ultimately have "pool_well i0 b x (start_pool ts s)"
    using assms(2) by (simp add: pool_well_def start_pool_def list_all2_conv_all_nth)
  then have p: "pool_well i0 b x ?p"
    using metered_runs.run_meter [OF pool_goes_well [OF assms(1)] run] by blast
  have e: "ended ?p" by (rule run_pool_ended)
  have o: "own_of (shared q) = own_of s" if "runs can_go (go srv ?rate st) p es q" "own_of (shared p) = own_of s" for p es q
    using that by (induction rule: runs.induct) (simp_all add: go_def split: prod.splits)
  have "own_of (shared ?p) = own_of s" using o [OF run] by (simp add: start_pool_def)
  moreover obtain rss where "pool_result ?p = Inr rss" "\<forall>r\<in>set (concat rss). snd r = x"
    using well_results [of i0 b x "threads ?p" "owns ?p"] p e by (auto simp: pool_well_def pool_result_def ended_def)
  moreover from this have "scheduled_pool sched srv st ts s = (Inr rss, shared ?p)" using assms(3) by (simp add: scheduled_pool_def Let_def)
  moreover from scheduled_pool_lengths [OF this] have "map length rss = map nat ts" .
  ultimately show ?thesis using p by (auto simp: pool_well_def)
qed

text \<open>The same for the executions of one thread.\<close>

lemma executions_of_healthy:
  assumes "dependable srv i0 b x" and "steady i0 s" and "response (the_context s) \<noteq> None"
    and "length (inst_trace i0) < 2 \<longrightarrow> well_answered i0 b (response (the_context s))"
  shows "\<exists>rs s'. executions srv rate st 0 n s = (Inr rs, s') \<and> (\<forall>r\<in>set rs. snd r = x) \<and> steady i0 s' \<and> response (the_context s') \<noteq> None"
proof -
  define p where "p = alone (own_of s) (new_thread (int n)) s"
  define q where "q = run_pool (\<lambda>_. 0) srv rate st p"
  have "pool_well i0 b x p"
    using assms(2-4) by (simp add: p_def pool_well_def alone_def going_well_def new_thread_def own_of_def)
  moreover obtain schedule where "runs can_go (go srv rate st) p schedule q" using run_pool_runs unfolding q_def by blast
  ultimately have w: "pool_well i0 b x q" using metered_runs.run_meter [OF pool_goes_well [OF assms(1)]] by blast
  have "ended q" unfolding q_def by (rule run_pool_ended)
  then obtain rss where r: "pool_result q = Inr rss" "\<forall>r\<in>set (concat rss). snd r = x"
    using well_results [of i0 b x "threads q" "owns q"] w by (auto simp: pool_well_def pool_result_def ended_def)
  have t: "th_phase (new_thread (int n)) = Begin" "th_left (new_thread (int n)) = n" "th_count (new_thread (int n)) = 0" "th_results (new_thread (int n)) = []"
    by (simp_all add: new_thread_def)
  obtain e s' where es: "executions srv rate st 0 n s = (e, s')" by fastforce
  from alone_all [OF t(1,2), of q _ srv rate st "own_of s" s] have
    a: "pool_result q = (case e of Inl e \<Rightarrow> Inl (TaskFailed e) | Inr rs \<Rightarrow> Inr [rs])" "owns q = [own_of s']" "shared q = with_own (own_of s) s'"
    by (cases e; simp add: q_def p_def t es)+
  from a(1) r(1) obtain rs where rs: "e = Inr rs" "rss = [rs]" by (cases e) auto
  have "steady i0 s'" using w a(3) by (simp add: pool_well_def)
  moreover have "response (the_context s') \<noteq> None"
    using w a(2) by (auto simp: pool_well_def going_well_def own_of_def list_all2_Cons2)
  ultimately show ?thesis using es rs r(2) by auto
qed

section \<open>The nodes of a healthy case\<close>

definition answer_below :: "(string \<Rightarrow> string option \<Rightarrow> string) \<Rightarrow> string list \<Rightarrow> string" where
  "answer_below label hosts = (case hosts of h # hs \<Rightarrow> chain_text label h hs | [] \<Rightarrow> [])"

lemma network_dependable:
  assumes "labelled net ps label" and "forms_read net" and "healthy_trace net ps i0 hosts" and "length hosts \<le> n"
    and srv: "invokers srv = invokers (networked net n h)" "machine srv = machine (networked net n h)"
  shows "dependable srv i0 (answer_below label hosts) (chain_text label h hosts)"
proof -
  have i: "inst_rr i0 = []" "inst_traceNodeTmpl i0 = template_text ps" using assms(3) by (simp_all add: healthy_trace_def)
  have l: "labels (machine srv) ps (label h)" "list_all closed_piece ps" using assms(1) srv(2) by (simp_all add: labelled_def)
  show ?thesis
  proof (cases hosts)
    case Nil
    then obtain node0 where t: "inst_trace i0 = [node0]" using assms(3) by (auto simp: healthy_trace_def split: list.splits)
    have "call srv (getNext (instruction s)) s = (Inr (), s)" if "steady i0 s" for s
    proof -
      have "instruction s = i0\<lparr>inst_trace := [hd (inst_trace (instruction s))]\<rparr>" using that t by (simp add: steady_def)
      then have "inst_trace (instruction s) = [hd (inst_trace (instruction s))]" by (metis Instruction.simps(1) Instruction.surjective Instruction.update_convs(1))
      then show ?thesis by (cases "inst_trace (instruction s)") (auto simp: call_def getNext_def currentNode_def)
    qed
    moreover have "\<exists>k'. render_template (machine srv) ctx (Some (template i0)) k = (Inr (Some (chain_text label h [])), k')"
      if a: "well_answered i0 [] (response ctx)" for ctx k
    proof -
      obtain r where "response ctx = Some r" "resp_status r = None" using a t by (cases "response ctx") (auto simp: well_answered_def)
      with render_label [OF l i(2), of ctx r "[]" k] t show ?thesis by simp
    qed
    ultimately show ?thesis using i(1) t Nil by (simp add: dependable_def answer_below_def)
  next
    case (Cons h' hs)
    obtain node0 node rest where t: "inst_trace i0 = node0 # node # rest" and node: "callable_node node"
      using assms(3) unfolding Cons by (rule healthy_traceE)
    obtain m where n: "n = Suc m" "length hs \<le> m" using assms(4) Cons by (cases n) auto
    let ?b = "chain_text label h' hs"
    define j where "j = i0\<lparr>inst_trace := node # rest, inst_times := 1, inst_threads := 1, inst_qps := 0\<rparr>"
    have status: "resp_status new_response = None" by (simp add: new_response_def)
    have "\<exists>d u. executeSingle (networked net m h') False (0, 1) 0 0 s = (Inr (d, ?b), u) \<and> response (the_context u) \<noteq> None"
      if "healthy_case net ps (instruction s) hs" "plain_headers (the_context s)" "response (the_context s) = Some new_response" for s
      using chain_single [OF assms(1,2) _ n(2) that(2,3) status, where h = h'] that(1) unfolding healthy_case_def by blast
    from chain_invoke [OF assms(2) assms(3) [unfolded Cons] t j_def this]
    have invoke: "\<exists>q. http_invoke (streams net h) (simple_form net) (write_body net) (deliver_call net n) k j ctx = Inr q \<and> resp_status q = Some ''200'' \<and> resp_result q = JStr ?b"
      for k ctx unfolding n(1) by blast
    have "\<exists>s'. call srv (getNext (instruction s)) s = (Inr (), s') \<and> steady i0 s' \<and> well_answered i0 ?b (response (the_context s'))" if s: "steady i0 s" for s
    proof -
      have ins: "instruction s = i0\<lparr>inst_trace := hd (inst_trace (instruction s)) # node # rest\<rparr>" using s t by (simp add: steady_def)
      then have ts: "inst_trace (instruction s) = hd (inst_trace (instruction s)) # node # rest"
        by (metis Instruction.simps(1) Instruction.surjective Instruction.update_convs(1))
      have nx: "getNext (instruction s) = Some j" by (subst ins) (simp add: getNext_def j_def)
      obtain q where q: "http_invoke (streams net h) (simple_form net) (write_body net) (deliver_call net n) (length (invocations s)) j (the_context s) = Inr q"
        "resp_status q = Some ''200''" "resp_result q = JStr ?b" using invoke by blast
      have inv: "invokers srv ''http'' = Some (http_invoke (streams net h) (simple_form net) (write_body net) (deliver_call net n))" using srv(1) by simp
      from call_answers [OF ts node inv nx q(1)] show ?thesis
        using s t q(2,3) by (simp add: well_answered_def steady_def sound_state_def plain_headers_def)
    qed
    moreover have "\<exists>k'. render_template (machine srv) ctx (Some (template i0)) k = (Inr (Some (chain_text label h hosts)), k')"
      if a: "well_answered i0 ?b (response ctx)" for ctx k
    proof -
      obtain r where "response ctx = Some r" "resp_status r = Some ''200''" "resp_result r = JStr ?b"
        using a t by (cases "response ctx") (auto simp: well_answered_def)
      with render_label [OF l i(2), of ctx r ?b k] t Cons show ?thesis by simp
    qed
    ultimately show ?thesis using i(1) t Cons by (simp add: dependable_def answer_below_def)
  qed
qed

section \<open>The whole case\<close>

lemma with_pool_simps [simp]:
  "invokers (with_pool sched srv) = invokers srv" "machine (with_pool sched srv) = machine srv" "pool (with_pool sched srv) = scheduled_pool sched srv"
  by (simp_all add: with_pool_def)

lemma repeats_of_healthy:
  assumes "dependable srv i0 b x" and "dependable (with_pool sched srv) i0 b x" and "steady i0 s" and "own_of s = fresh_results"
    and "1 < inst_times (instruction s)" and "inst_threads (instruction s) \<le> int maximumPoolSize"
  shows "\<exists>rs s'. executeForTimes (with_pool sched srv) True s = (Inr rs, s') \<and> int (length rs) = inst_times (instruction s) \<and>
    (\<forall>r\<in>set rs. snd r = x) \<and> steady i0 s' \<and> response (the_context s') \<noteq> None"
proof -
  let ?s = "s\<lparr>clock_reads := clock_reads s + 1\<rparr>" and ?srv = "with_pool sched srv"
  have own: "response (the_context s) = Some new_response" using assms(4) by (simp add: own_of_def fresh_results_def)
  have s: "steady i0 ?s" using assms(3) by simp
  obtain st where n: "nanoTime ?srv s = (Inr st, ?s)" by (simp add: nanoTime_def)
  have "\<exists>rs s'. executeForTimes ?srv True s = (Inr rs, s') \<and> (\<forall>r\<in>set rs. snd r = x) \<and> steady i0 s' \<and> response (the_context s') \<noteq> None"
  proof (cases "1 < inst_threads (instruction s)")
    case True
    let ?ts = "map (thread_times (inst_times (instruction s)) (inst_threads (instruction s)) \<circ> int) [0..<nat (inst_threads (instruction s))]"
    have few: "length ?ts \<le> maximumPoolSize" using assms(6) by simp
    obtain rss s' where r: "scheduled_pool sched srv st ?ts ?s = (Inr rss, s')" "\<forall>r\<in>set (concat rss). snd r = x" "steady i0 s'" "own_of s' = own_of ?s"
      using pool_of_healthy [OF assms(1) s few] by blast
    have "executeForTimes ?srv True s = (Inr (concat rss), s')"
      using True r(1) n by (simp add: executeForTimes_def Let_def jbind_def collect_tasks_def)
    moreover have "response (the_context s') \<noteq> None" using r(4) own by (simp add: own_of_def)
    ultimately show ?thesis using r(2,3) by blast
  next
    case False
    have "length (inst_trace i0) < 2 \<longrightarrow> well_answered i0 b (response (the_context ?s))" using own by (simp add: well_answered_def new_response_def)
    moreover have "response (the_context ?s) \<noteq> None" using own by simp
    ultimately obtain rs s' where r: "executions ?srv (inst_qps (instruction s), 1) st 0 (nat (inst_times (instruction s))) ?s = (Inr rs, s')"
      "\<forall>r\<in>set rs. snd r = x" "steady i0 s'" "response (the_context s') \<noteq> None"
      using executions_of_healthy [OF assms(2) s] by blast
    have "executeForTimes ?srv True s = (Inr rs, s')" using False r(1) n by (simp add: executeForTimes_def Let_def jbind_def)
    with r show ?thesis by blast
  qed
  then show ?thesis using executeForTimes_length [OF with_pool_law assms(5)] by blast
qed

lemma count_same:
  assumes "\<forall>r\<in>set rs. snd r = x" and "rs \<noteq> []"
  shows "group_counts rs = [(x, length rs)]"
proof -
  have "remdups (map snd rs) = [x]" using assms
  proof (induction rs)
    case (Cons r rs)
    then show ?case by (cases rs) auto
  qed simp
  moreover have "filter (\<lambda>r. snd r = x) rs = rs" using assms(1) by (simp add: filter_id_conv)
  ultimately show ?thesis by (simp add: group_counts_def)
qed

lemma counts_of_healthy:
  assumes "executeForTimes srv True s = (Inr rs, u)" and "\<forall>r\<in>set rs. snd r = x" and "int (length rs) = inst_times (instruction s)"
    and "1 < inst_times (instruction s)" and "inst_collectBy (instruction s) = ''stat_count''"
    and "steady i0 u" and "response (the_context u) \<noteq> None"
  shows "\<exists>s'. execute srv s = (Inr (JMap [(x, JNum (nat_str (nat (inst_times (instruction s)))))]), s')"
proof -
  have "rs \<noteq> []" "length rs = nat (inst_times (instruction s))" using assms(3,4) by auto
  then have c: "collect_results srv ''stat_count'' rs = Inr (JMap [(x, JNum (nat_str (nat (inst_times (instruction s)))))])"
    using count_same [OF assms(2)] by (simp add: collect_results_def group_count)
  obtain node rest where t: "inst_trace (instruction u) = node # rest" using assms(6) by (auto simp: steady_def elim: sound_stateE)
  then have "node_responseHeaders node = []" using assms(6) by (simp add: steady_def)
  moreover obtain r where "response (the_context u) = Some r" using assms(7) by auto
  ultimately show ?thesis
    using assms(1,4,5) c t by (simp add: execute_def collects_def jbind_def set_result_def on_context_def currentNode_def)
qed

text \<open>
  C4. A case repeated over several healthy servers, to which the calls made for it get through,
  returns the same for every schedule of its threads: however many threads share the
  repetitions, up to the 200 the pool has, and in whatever order they take turns, every
  execution succeeds and shows the chain of all servers, so that the statistics returned
  have one entry, the chain with the number of repetitions.
\<close>
theorem repeated_chain_result:
  assumes "labelled net ps label" and "forms_read net"
    and "rbind (map_calls (replaceTargets replaceAll (targetMapping res) True) (case_instruction c))
      (map_calls (replaceTargets replaceAll (targetMapping res) False)) = Inr i"
    and "healthy_trace net ps (i\<lparr>inst_trace := new_node # inst_trace i\<rparr>) hosts" and "length hosts \<le> n"
    and "1 < inst_times i" and "inst_collectBy i = ''stat_count''" and "inst_threads i \<le> int maximumPoolSize"
  shows "\<exists>s'. run_case (with_pool sched (networked net n h)) pf replaceAll res c params False s0 =
    (Inr (JMap [(chain_text label h hosts, JNum (nat_str (nat (inst_times i))))]), s')"
proof -
  let ?srv = "with_pool sched (networked net n h)"
  define i0 where "i0 = i\<lparr>inst_trace := new_node # inst_trace i\<rparr>"
  define s where "s = s0\<lparr>instruction := i0, the_context := new_context\<lparr>request_params := params\<rparr>\<rparr>"
  note d = network_dependable [OF assms(1,2) assms(4) [folded i0_def] assms(5)]
  have "dependable (networked net n h) i0 (answer_below label hosts) (chain_text label h hosts)" by (rule d) simp_all
  moreover have "dependable ?srv i0 (answer_below label hosts) (chain_text label h hosts)" by (rule d) simp_all
  moreover have "steady i0 s"
    using assms(4) by (simp add: s_def i0_def steady_def sound_state_def plain_headers_def new_context_def currentNode_def healthy_trace_def new_node_def)
  moreover have "own_of s = fresh_results" by (simp add: s_def own_of_def fresh_results_def new_context_def)
  moreover have t: "inst_times (instruction s) = inst_times i" "inst_collectBy (instruction s) = ''stat_count''" "1 < inst_times (instruction s)"
    "inst_threads (instruction s) \<le> int maximumPoolSize"
    using assms(6-8) by (simp_all add: s_def i0_def)
  ultimately obtain rs u where "executeForTimes ?srv True s = (Inr rs, u)" "int (length rs) = inst_times (instruction s)"
    "\<forall>r\<in>set rs. snd r = chain_text label h hosts" "steady i0 u" "response (the_context u) \<noteq> None"
    using repeats_of_healthy by blast
  from counts_of_healthy [OF this(1,3,2) t(3,2) this(4,5)] obtain s' where
    "execute ?srv s = (Inr (JMap [(chain_text label h hosts, JNum (nat_str (nat (inst_times i))))]), s')" unfolding t(1) by blast
  then show ?thesis by (auto simp: run_case_def assms(3) s_def i0_def jbind_def)
qed

definition repeated_chain :: RequestCase where
  "repeated_chain = demo_chain\<lparr>case_instruction := (case_instruction demo_chain)\<lparr>inst_times := 5, inst_threads := 3\<rparr>\<rparr>"

theorem repeated_chain_result_witness:
  "\<exists>s'. run_case (with_pool in_turn (networked demo_network 2 ''a'')) counting no_replace no_resources repeated_chain [] False
      (demo_state (demo_instruction 1)) =
     (Inr (JMap [(''a|v1(200) -> b|v1(200) -> c|v1()'', JNum ''5'')]), s')"
proof -
  let ?i = "case_instruction repeated_chain"
  have r: "rbind (map_calls (replaceTargets no_replace (targetMapping no_resources) True) ?i)
      (map_calls (replaceTargets no_replace (targetMapping no_resources) False)) = Inr ?i"
    by code_simp
  have h: "healthy_trace demo_network default_pieces (?i\<lparr>inst_trace := new_node # inst_trace ?i\<rparr>) [''b'', ''c'']"
    by (rule demo_chain_healthy) (simp_all add: repeated_chain_def demo_chain_def demo_instruction_def)
  have l: "length [''b'', ''c''] \<le> 2" "1 < inst_times ?i" "inst_collectBy ?i = ''stat_count''" "inst_threads ?i \<le> int maximumPoolSize"
    by (simp_all add: repeated_chain_def demo_chain_def demo_instruction_def maximumPoolSize_def)
  have "chain_text demo_label ''a'' [''b'', ''c''] = ''a|v1(200) -> b|v1(200) -> c|v1()''" by (simp add: demo_label_def)
  moreover have "nat_str (nat (inst_times ?i)) = ''5''" by code_simp
  ultimately show ?thesis
    using repeated_chain_result [OF demo_labelled demo_forms r h l, where sched = in_turn and pf = counting] by metis
qed

end
