(* ===== verification/Spec2Isabelle.thy ===== *)
theory Spec2Isabelle
  imports Prelude JsNumber Stores JsValue Json JsonText DataTs CaseViews FormCases UriTs YamlTs CarriedCases
    ClipboardTs SaveToolsTsx AppTsx AppSteps AppProps AppErrors Regex RegisterServiceWorker IndexTsx ServiceWorkerJs
    Runs SwRuns AppRuns MyArrayLayoutTsx JavaBase StringRendererJava TemplateProps CaseValidatorJava
    PowerfulServiceJava ServiceProps ServiceFrames ServiceCalls ServiceReturns ServiceThreads ServicePools CaseApiJava FrontServer
    FormSchema UrlBase64Java CasePagesJava CaseReports JsonPatch JavaJson SimplifiedJava HttpInvokerJava
    GrpcInvokerJava GrpcServerJava DubboInvokerJava DubboServerJava NetworkJava ServiceChain ServiceRepeats
begin

text \<open>
  The web front end of \<open>powerful\<close> (\<open>powerful-front/src\<close>, TypeScript and JavaScript): one
  request case shown twice, as a form and as YAML text, a menu of cases loaded from the
  server, a button that runs the case there, and a store of saved cases in the browser; and
  the server behind it (\<open>powerful-core\<close>, Java), which offers the configured cases and executes
  them along a chain of nodes.

  \<^bold>\<open>How the parts interact.\<close> \<open>App.tsx\<close> holds the displayed case. The form edits it directly;
  an effect writes its YAML into the text field unless the field has the focus; typing YAML
  displays what it parses to. A case has a posted form, whose headers and queries are
  objects, and a display form, where they are lists of rows; \<open>data.ts\<close> converts between
  them. Submit parses the text and posts it to \<open>/e\<close>; clicking a name in the menu asks for
  \<open>/c/<name>\<close>. Every address carries the \<open>scope\<close> of the page's query string. The save tools
  keep all saved cases as one YAML text under one key of the local storage. The server puts
  itself in front of a posted case's trace and executes it: the first node of a trace is the
  executing one, the rest is sent on to the second, and so on; repeated cases are collected
  into lists, texts or statistics, which an expectation of the case can be checked against.

  \<^bold>\<open>Theories.\<close>
  \<^item> \<^verbatim>\<open>Prelude\<close>: errors as values, sequencing, loops that may throw; shared list lemmas.
  \<^item> \<^verbatim>\<open>Stores\<close>: the locales \<open>kv_store\<close> and \<open>ordered_store\<close>, the interface of a keyed store;
    interpreted on an object's own properties (\<^verbatim>\<open>JsValue\<close>) and on the local storage
    (\<^verbatim>\<open>SaveToolsTsx\<close>).
  \<^item> \<^verbatim>\<open>JsNumber\<close>, \<^verbatim>\<open>JsValue\<close>: JavaScript values, the enumeration order of properties, reading,
    writing and deleting members in strict mode with their \<open>TypeError\<close>s.
  \<^item> \<^verbatim>\<open>Json\<close>, \<^verbatim>\<open>JsonText\<close>: \<open>JSON.stringify\<close> and \<open>JSON.parse\<close>, as what a copy through both does
    to a value, and as printer and parser of the text; the two views are proved equal. The
    parser's fuel is twice the length of its input plus one, which \<open>parse_fuel\<close> proves enough:
    every recursive call either consumes a character or moves from a list to its element.
  \<^item> \<^verbatim>\<open>DataTs\<close>: \<open>objToArray\<close>, \<open>arrayToObj\<close>, \<open>viewToPost\<close>, \<open>postToView\<close> of \<open>data.ts\<close>, loop bodies
    as definitions of their own; \<^verbatim>\<open>CaseViews\<close>: when they return and what a round trip keeps;
    \<^verbatim>\<open>FormCases\<close>: the states whose rows are texts and the cases posted from them;
    \<^verbatim>\<open>FormSchema\<close>: \<open>schema.json\<close>, and that states it accepts stay acceptable.
  \<^item> \<^verbatim>\<open>UriTs\<close>: \<open>getQueryValue\<close>, \<open>scopedUri\<close>, \<open>executeCase\<close> of \<open>data.ts\<close>.
  \<^item> \<^verbatim>\<open>YamlTs\<close>: \<open>yaml.ts\<close> and the locale \<open>text_codec\<close>, what the program relies on of \<open>js-yaml\<close>;
    interpreted on the JSON texts, which are YAML. \<^verbatim>\<open>CarriedCases\<close>: the cases YAML carries.
  \<^item> \<^verbatim>\<open>ClipboardTs\<close>: \<open>clipboard.ts\<close>; \<^verbatim>\<open>SaveToolsTsx\<close>: \<open>SaveTools.tsx\<close> and its refinement to a
    map from names to cases.
  \<^item> \<^verbatim>\<open>AppTsx\<close>: \<open>App.tsx\<close>, state, rendering, effects, handlers, responses, and the reachable
    states; \<^verbatim>\<open>AppSteps\<close>: what a step touches and the invariants of every run; \<^verbatim>\<open>AppProps\<close>: form
    and text agree, Submit sends what the form shows; \<^verbatim>\<open>AppErrors\<close>: the remaining events.
  \<^item> \<^verbatim>\<open>Regex\<close>: regular expressions by derivatives; \<^verbatim>\<open>RegisterServiceWorker\<close>:
    \<open>registerServiceWorker.js\<close> as a state machine; \<^verbatim>\<open>IndexTsx\<close>: \<open>index.tsx\<close>, the start of the
    page; \<^verbatim>\<open>ServiceWorkerJs\<close>: the generated worker, its start, its manifest and the blacklist of
    its navigation route; \<^verbatim>\<open>MyArrayLayoutTsx\<close>: \<open>MyArrayLayout.tsx\<close>, the renderer of lists.
  \<^item> \<^verbatim>\<open>Runs\<close>: runs with the list of their events and the locale \<open>metered_runs\<close>, by which a
    component bounds them; interpreted in \<^verbatim>\<open>SwRuns\<close> (completions and reloads), \<^verbatim>\<open>AppRuns\<close>
    (requests and answers), \<^verbatim>\<open>ServiceThreads\<close> (work and results) and \<^verbatim>\<open>ServicePools\<close> (calls).
  \<^item> \<^verbatim>\<open>JavaBase\<close>: exceptions, statements that may throw, objects and strings of the server.
  \<^item> \<^verbatim>\<open>StringRendererJava\<close>: \<open>StringRenderer.java\<close>, the templates; the loop terminates because a
    match takes five characters at least. \<^verbatim>\<open>TemplateProps\<close>: what a search finds, the single
    pass, failures, random digits.
  \<^item> \<^verbatim>\<open>CaseValidatorJava\<close>: \<open>CaseValidator.java\<close>, results against expectations.
  \<^item> \<^verbatim>\<open>PowerfulServiceJava\<close>: \<open>PowerfulService.java\<close>, \<open>Instruction.java\<close>, \<open>PowerTraceNode.java\<close>,
    one definition per method, over a state with the instruction, whose nodes are changed in
    place, and the context of the request. \<^verbatim>\<open>ServiceProps\<close>: repetitions, statistics, headers;
    \<^verbatim>\<open>ServiceFrames\<close>: what the statements of an execution leave alone, the locale
    \<open>node_frame\<close> over \<open>statement_frame\<close> of \<^verbatim>\<open>JavaBase\<close>, interpreted for what is sent
    (\<^verbatim>\<open>ServiceCalls\<close>: what goes to other nodes and why that comes to an end without
    round-robin values) and for what
    repetitions keep (\<^verbatim>\<open>ServiceReturns\<close>: a repeated case that counts returns).
  \<^item> \<^verbatim>\<open>ServiceThreads\<close>: the thread pool of a repeated case, statement by statement, under any
    scheduler; \<open>run_pool\<close> ends because \<open>pool_work\<close>, sixteen statements for each execution that is
    left, falls with every step; a case that wants more than 200 threads is refused.
    \<^verbatim>\<open>ServicePools\<close>: what no schedule can change.
  \<^item> \<^verbatim>\<open>CaseApiJava\<close>: \<open>StaticResources.java\<close>, \<open>RequestCaseApiController.java\<close>,
    \<open>HttpController.java\<close>; \<^verbatim>\<open>FrontServer\<close>: page and server together, and validated runs;
    \<^verbatim>\<open>UrlBase64Java\<close>: texts in addresses, with the locale \<open>url_codec\<close> interpreted on RFC 4648;
    \<^verbatim>\<open>CasePagesJava\<close>: the remaining addresses; \<^verbatim>\<open>CaseReports\<close>: what the reports of
    \<open>/executeAll\<close> say.
  \<^item> \<^verbatim>\<open>SimplifiedJava\<close>: the JSON of instructions and \<open>getSimplifiedNode\<close>, which leaves out what new
    objects have anyway, over \<^verbatim>\<open>JsonPatch\<close>, the locale \<open>json_patch\<close> with what is relied on of the
    library for patches, interpreted on RFC 6902, and \<^verbatim>\<open>JavaJson\<close>, an instance of Jackson's texts,
    whose parser has one more than the length of its input as fuel; written into an address
    the form is read as the same instruction by a server with the same defaults.
  \<^item> \<^verbatim>\<open>HttpInvokerJava\<close>: \<open>HttpRemoteInvoker.java\<close> and the entry for GET and DELETE, which does what
    the one for POST does; \<^verbatim>\<open>GrpcInvokerJava\<close>: \<open>GrpcRemoteInvoker.java\<close> and its interceptor,
    \<^verbatim>\<open>GrpcServerJava\<close>: \<open>GrpcAService.java\<close>, the entry of such calls, and a call from one to the
    other; \<^verbatim>\<open>DubboInvokerJava\<close>: \<open>DubboRemoteInvoker.java\<close> and the names of \<open>Gen.java\<close>,
    \<^verbatim>\<open>DubboServerJava\<close>: \<open>RPCControllerAspect.java\<close>, the entry of such calls, and a call from one
    to the other; \<^verbatim>\<open>NetworkJava\<close>: servers that are each other's invokers, with as many hops as
    a case has nodes; \<^verbatim>\<open>ServiceChain\<close>: what a healthy case returns, and \<^verbatim>\<open>ServiceRepeats\<close>: what it
    returns when it is repeated by several threads.

  \<^bold>\<open>Modelling decisions.\<close> Values are trees; the code copies before it mutates, and where the
  identity of an object matters (the dependency \<open>[displayData]\<close> of the effects, the object
  the form reports back) the state carries a number for it. Exceptions are \<open>Inl\<close> values; a
  handler that throws leaves the state as far as it had come, an exception in rendering or in
  an effect unmounts the page (\<open>crashed\<close>). Events are atomic and responses come in any order.
  The few inputs the model does not follow are marked by the error \<open>NotModelled\<close>: comparing a
  member named \<open>length\<close> that a document gives to an object and that holds a text or a list,
  and assigning to the length of a list.

  Numbers are kept as the decimal text JavaScript prints for them; the program never computes
  with them. Characters are those of Isabelle's type \<open>char\<close> (code points below 256).

  On the server, statements keep the state they had reached when they throw. Random numbers,
  clock readings, the environment, regular expressions given by users, the arithmetic of
  doubles, JSON patches, remote invokers and the thread pool are arguments; what a theorem
  relies on of one of them is a named hypothesis (\<open>random_ranges\<close>, \<open>counts_ok\<close>, \<open>pool_law\<close>,
  \<open>writes_json\<close>, \<open>reads_utf8\<close>, \<open>reads_trees\<close>, \<open>texts_agree\<close>, \<open>delivers\<close>, \<open>stub_delivers\<close>,
  \<open>forms_read\<close>, and in the front end \<open>hook_law\<close>) that the examples show for a concrete
  instance; that a call reaches its server is asked for each call of a case (\<open>reaches\<close>). Which
  of the two gRPC stubs a server has is a part of it (\<open>stub_set\<close>). Dubbo's own attachments and
  those left over in a thread go with a call. The pool is later given by \<open>with_pool\<close>, which satisfies \<open>pool_law\<close>, the HTTP invoker by
  \<open>networked\<close>. Threads of a pool share the instruction and the context, but for the results
  \<open>RenderingContext\<close> keeps for each thread; each statement is one step. All tasks of a case are
  submitted to the pool before one of them goes on, so that none reuses the thread of another
  and the 201st is refused; other requests do not use the pool meanwhile. Integers are
  unbounded where the code stays in range; the conversions that can wrap are written out
  (\<open>parseInt\<close>, \<open>to_int32\<close>).

  \<^bold>\<open>Not modelled.\<close> Layout and styles; the form library, React, Redux, jQuery, Workbox and
  \<open>js-yaml\<close>, which occur as arguments or as events; on the server Spring, Jackson,
  RestTemplate and the gRPC stubs, Dubbo and the generation of classes for it, the reading of
  configuration files, the texts written to the log (that a simplified form is needed for
  them is modelled), the debug page and the test services, steps of threads smaller than a
  statement; the bundled front end, which is built from the sources modelled here;
  the Kubernetes operator, which is another program.
\<close>

end
